(* ===== verification/Prelude.thy ===== *)
theory Prelude
  imports Main "HOL-Library.Word"
begin

text \<open>
  Shared vocabulary of the development: the machine integer types of the Rust sources,
  saturating arithmetic, the clock types of \<open>std::time\<close>, the failure values of
  \<open>anyhow\<close>, and generic lemmas that several components use. Sizes are 64 bits wide:
  the packages are built for \<open>amd64\<close> and \<open>arm64\<close> only.
\<close>

section \<open>Machine integers\<close>

type_synonym u8 = "8 word"
type_synonym u16 = "16 word"
type_synonym u32 = "32 word"
type_synonym u64 = "64 word"
type_synonym usize = "64 word"

text \<open>Rust's \<open>saturating_add\<close> and \<open>saturating_mul\<close>.\<close>

definition saturating_add :: "'a::len word \<Rightarrow> 'a word \<Rightarrow> 'a word" where
  "saturating_add a b = (if unat a + unat b < 2 ^ LENGTH('a) then a + b else - 1)"

definition saturating_mul :: "'a::len word \<Rightarrow> 'a word \<Rightarrow> 'a word" where
  "saturating_mul a b = (if unat a * unat b < 2 ^ LENGTH('a) then a * b else - 1)"

text \<open>\<open>u32::try_from(n).unwrap_or(u32::MAX)\<close>.\<close>

definition clamp_u32 :: "nat \<Rightarrow> u32" where
  "clamp_u32 n = (if n < 2 ^ 32 then of_nat n else - 1)"

lemma unat_minus_one_word: "unat (- 1 :: 'a::len word) = 2 ^ LENGTH('a) - 1"
  by (simp add: unsigned_minus_1_eq_mask mask_eq_exp_minus_1)

lemma unat_saturating_add:
  "unat (saturating_add (a :: 'a::len word) b) = min (unat a + unat b) (2 ^ LENGTH('a) - 1)"
  by (auto simp: saturating_add_def unat_word_ariths unat_minus_one_word)

lemma unat_saturating_mul:
  "unat (saturating_mul (a :: 'a::len word) b) = min (unat a * unat b) (2 ^ LENGTH('a) - 1)"
  by (auto simp: saturating_mul_def unat_word_ariths unat_minus_one_word)

lemma unat_clamp_u32: "unat (clamp_u32 n) = min n (2 ^ 32 - 1)"
  by (auto simp: clamp_u32_def unat_of_nat unat_minus_one_word)

section \<open>Clock\<close>

text \<open>
  An \<open>Instant\<close> is the monotonic clock's reading in nanoseconds and a \<open>Duration\<close> a number
  of nanoseconds. \<open>Instant::duration_since\<close> saturates at zero, as subtraction of
  natural numbers does. \<open>Instant + Duration\<close> panics when the sum leaves the range of the
  signed 64-bit second counter of Linux, \<open>Duration::checked_mul\<close> is \<open>None\<close> when the product
  leaves the unsigned one.
\<close>

type_synonym duration = nat
type_synonym instant = nat

definition nanos_per_sec :: nat where
  "nanos_per_sec = 1000000000"

definition duration_max :: duration where
  "duration_max = (2 ^ 64 - 1) * 1000000000 + 999999999"

definition instant_max :: instant where
  "instant_max = (2 ^ 63 - 1) * 1000000000 + 999999999"

definition from_secs :: "u64 \<Rightarrow> duration" where
  "from_secs s = unat s * nanos_per_sec"

definition as_secs :: "duration \<Rightarrow> nat" where
  "as_secs d = d div nanos_per_sec"

definition duration_since :: "instant \<Rightarrow> instant \<Rightarrow> duration" where
  "duration_since later earlier = later - earlier"

definition duration_checked_mul :: "duration \<Rightarrow> nat \<Rightarrow> duration option" where
  "duration_checked_mul d n = (if d * n \<le> duration_max then Some (d * n) else None)"

definition instant_checked_add :: "instant \<Rightarrow> duration \<Rightarrow> instant option" where
  "instant_checked_add t d = (if t + d \<le> instant_max then Some (t + d) else None)"

lemma nanos_per_sec_pos [simp]: "0 < nanos_per_sec"
  by (simp add: nanos_per_sec_def)

lemma from_secs_eq_0 [simp]: "from_secs s = 0 \<longleftrightarrow> s = 0"
  by (simp add: from_secs_def nanos_per_sec_def unat_eq_zero)

lemma from_secs_pos [simp]: "0 < from_secs s \<longleftrightarrow> s \<noteq> 0"
  using from_secs_eq_0 [of s] by linarith

lemma as_secs_mono: "a \<le> b \<Longrightarrow> as_secs a \<le> as_secs b"
  by (simp add: as_secs_def div_le_mono)

lemma duration_since_le: "duration_since t s \<le> d \<longleftrightarrow> t \<le> s + d"
  by (auto simp: duration_since_def)

section \<open>Failures\<close>

text \<open>
  An \<open>anyhow::Error\<close> is represented by its \<open>Display\<close> text, which is the outermost context
  message; a panic unwinds to the end of the process and is a failure of its own, so that
  \<open>if let Err(e)\<close> does not catch it.
\<close>

datatype failure = Err string | Panic string

type_synonym 'a result = "failure + 'a"

text \<open>
  \<open>ensure c e\<close> is \<open>if c { bail!(e) }\<close> with the condition negated, and \<open>and_then\<close> the
  sequencing that the question mark operator does.
\<close>

definition ensure :: "bool \<Rightarrow> string \<Rightarrow> unit result" where
  "ensure c e = (if c then Inr () else Inl (Err e))"

definition is_err :: "'a result \<Rightarrow> bool" where
  "is_err r = (case r of Inl e \<Rightarrow> True | Inr x \<Rightarrow> False)"

definition and_then :: "'a result \<Rightarrow> ('a \<Rightarrow> 'b result) \<Rightarrow> 'b result" where
  "and_then r f = (case r of Inl e \<Rightarrow> Inl e | Inr x \<Rightarrow> f x)"

definition context_opt :: "'a option \<Rightarrow> string \<Rightarrow> 'a result" where
  "context_opt x e = (case x of None \<Rightarrow> Inl (Err e) | Some y \<Rightarrow> Inr y)"

lemma and_then_simps [simp]:
  "and_then (Inl e) f = Inl e"
  "and_then (Inr x) f = f x"
  by (simp_all add: and_then_def)

lemma and_then_Inr_iff: "and_then r f = Inr y \<longleftrightarrow> (\<exists>x. r = Inr x \<and> f x = Inr y)"
  by (cases r) auto

lemma ensure_Inr_iff [simp]: "ensure c e = Inr u \<longleftrightarrow> c"
  by (simp add: ensure_def)

lemma ensure_and_then [simp]:
  "and_then (ensure c e) f = (if c then f () else Inl (Err e))"
  by (simp add: ensure_def)

lemma context_opt_Inr_iff [simp]: "context_opt x e = Inr y \<longleftrightarrow> x = Some y"
  by (cases x) (auto simp: context_opt_def)

lemma context_opt_simps [simp]:
  "context_opt None e = Inl (Err e)"
  "context_opt (Some y) e = Inr y"
  by (simp_all add: context_opt_def)

section \<open>Lists\<close>

lemma list_all2_snoc:
  "list_all2 P xs (ys @ [y]) \<longleftrightarrow> (\<exists>xs' x. xs = xs' @ [x] \<and> list_all2 P xs' ys \<and> P x y)"
proof (cases xs rule: rev_cases)
  case (snoc zs z)
  then show ?thesis
    using list_all2_append [of zs ys P "[z]" "[y]"]
    by (cases "length zs = length ys") (auto dest: list_all2_lengthD)
qed simp

lemma list_all2_take_Suc:
  assumes "list_all2 P (take n xs) ys" and "n < length xs" and "P (xs ! n) y"
  shows "list_all2 P (take (Suc n) xs) (ys @ [y])"
  using assms by (simp add: take_Suc_conv_app_nth list_all2_snoc)

lemma drop_suffix:
  "length blk = n \<Longrightarrow> drop (length (pre @ blk) - n) (pre @ blk) = blk"
  by simp

end
