(* ===== verification/HashMap.thy ===== *)
theory HashMap
  imports Prelude
begin

text \<open>
  \<open>std::collections::HashMap\<close> as the sources use it: lookup, insertion, removal, \<open>retain\<close>
  with a predicate that looks at one entry at a time, and \<open>len\<close>. The contract is the
  locale \<open>hash_map\<close>; the bounded-map discipline that the knock tracker and the ban table
  share is proved once from it. The executable provider is an association list without
  repeated keys. Iteration order is never observed by the sources, so the provider's order
  carries no meaning.
\<close>

section \<open>The contract\<close>

locale hash_map =
  fixes empty :: "'m"
    and get :: "'m \<Rightarrow> 'k \<Rightarrow> 'v option"
    and insert :: "'k \<Rightarrow> 'v \<Rightarrow> 'm \<Rightarrow> 'm"
    and remove :: "'k \<Rightarrow> 'm \<Rightarrow> 'm"
    and retain :: "('k \<Rightarrow> 'v \<Rightarrow> bool) \<Rightarrow> 'm \<Rightarrow> 'm"
    and len :: "'m \<Rightarrow> nat"
    and ok :: "'m \<Rightarrow> bool"
  assumes ok_empty: "ok empty"
    and ok_insert: "ok m \<Longrightarrow> ok (insert k v m)"
    and ok_remove: "ok m \<Longrightarrow> ok (remove k m)"
    and ok_retain: "ok m \<Longrightarrow> ok (retain p m)"
    and get_empty: "get empty k = None"
    and get_insert: "get (insert k v m) k' = (if k' = k then Some v else get m k')"
    and get_remove: "get (remove k m) k' = (if k' = k then None else get m k')"
    and get_retain: "ok m \<Longrightarrow>
      get (retain p m) k = (case get m k of None \<Rightarrow> None | Some v \<Rightarrow> if p k v then Some v else None)"
    and len_card: "ok m \<Longrightarrow> len m = card (dom (get m))"
    and finite_keys: "finite (dom (get m))"
begin

lemma len_empty: "len empty = 0"
  by (simp add: len_card ok_empty get_empty dom_def)

lemma keys_insert: "dom (get (insert k v m)) = Set.insert k (dom (get m))"
  by (auto simp: get_insert dom_def)

lemma len_insert_present: "ok m \<Longrightarrow> get m k \<noteq> None \<Longrightarrow> len (insert k v m) = len m"
  by (simp add: len_card ok_insert keys_insert insert_absorb domIff)

lemma len_insert_absent: "ok m \<Longrightarrow> get m k = None \<Longrightarrow> len (insert k v m) = Suc (len m)"
  by (simp add: len_card ok_insert keys_insert finite_keys domIff)

lemma len_remove_le: "ok m \<Longrightarrow> len (remove k m) \<le> len m"
  unfolding len_card [OF ok_remove, of m k] len_card
  by (rule card_mono [OF finite_keys]) (auto simp: get_remove dom_def)

lemma len_remove_present: "ok m \<Longrightarrow> get m k \<noteq> None \<Longrightarrow> Suc (len (remove k m)) = len m"
proof -
  assume "ok m" and "get m k \<noteq> None"
  moreover have "dom (get (remove k m)) = dom (get m) - {k}"
    by (auto simp: get_remove dom_def)
  moreover have "k \<in> dom (get m)" using \<open>get m k \<noteq> None\<close> by (simp add: domIff)
  ultimately show ?thesis
    using card_Suc_Diff1 [OF finite_keys, of k m] by (simp add: len_card ok_remove)
qed

lemma len_retain_le: "ok m \<Longrightarrow> len (retain p m) \<le> len m"
  unfolding len_card [OF ok_retain] len_card
  by (rule card_mono [OF finite_keys]) (auto simp: get_retain dom_def split: option.splits)

text \<open>
  The discipline of a map with a capacity: an entry is stored only when its key is already
  present or the map is below its capacity.
\<close>

lemma bounded_insert:
  assumes "ok m" and "len m \<le> cap" and "get m k \<noteq> None \<or> len m < cap"
  shows "len (insert k v m) \<le> cap"
  using assms by (cases "get m k = None") (auto simp: len_insert_absent len_insert_present)

lemma retain_True: "ok m \<Longrightarrow> (\<And>k v. get m k = Some v \<Longrightarrow> p k v) \<Longrightarrow> get (retain p m) k = get m k"
  by (simp add: get_retain split: option.splits)

end

section \<open>The provider\<close>

type_synonym ('k, 'v) hm = "('k \<times> 'v) list"

definition hm_empty :: "('k, 'v) hm" where
  "hm_empty = []"

definition hm_get :: "('k, 'v) hm \<Rightarrow> 'k \<Rightarrow> 'v option" where
  "hm_get m k = map_of m k"

definition hm_remove :: "'k \<Rightarrow> ('k, 'v) hm \<Rightarrow> ('k, 'v) hm" where
  "hm_remove k m = filter (\<lambda>e. fst e \<noteq> k) m"

definition hm_insert :: "'k \<Rightarrow> 'v \<Rightarrow> ('k, 'v) hm \<Rightarrow> ('k, 'v) hm" where
  "hm_insert k v m = (k, v) # hm_remove k m"

definition hm_retain :: "('k \<Rightarrow> 'v \<Rightarrow> bool) \<Rightarrow> ('k, 'v) hm \<Rightarrow> ('k, 'v) hm" where
  "hm_retain p m = filter (\<lambda>e. p (fst e) (snd e)) m"

definition hm_len :: "('k, 'v) hm \<Rightarrow> nat" where
  "hm_len m = length m"

definition hm_ok :: "('k, 'v) hm \<Rightarrow> bool" where
  "hm_ok m = distinct (map fst m)"

definition hm_contains :: "('k, 'v) hm \<Rightarrow> 'k \<Rightarrow> bool" where
  "hm_contains m k = (hm_get m k \<noteq> None)"

lemma hm_get_remove: "hm_get (hm_remove k m) k' = (if k' = k then None else hm_get m k')"
  by (induction m) (auto simp: hm_get_def hm_remove_def)

lemma hm_get_retain:
  "hm_ok m \<Longrightarrow>
    hm_get (hm_retain p m) k = (case hm_get m k of None \<Rightarrow> None | Some v \<Rightarrow> if p k v then Some v else None)"
proof (induction m)
  case Nil
  then show ?case by (simp add: hm_get_def hm_retain_def)
next
  case (Cons e m)
  have "map_of m (fst e) = None"
    using Cons.prems by (simp add: hm_ok_def map_of_eq_None_iff image_image)
  with Cons show ?case
    by (cases e) (auto simp: hm_get_def hm_retain_def hm_ok_def split: option.splits)
qed

lemma hm_keys: "dom (hm_get m) = fst ` set m"
  unfolding hm_get_def by (rule dom_map_of_conv_image_fst)

lemma distinct_fst_filter: "distinct (map fst m) \<Longrightarrow> distinct (map fst (filter p m))"
  by (induction m) auto

interpretation hm: hash_map hm_empty hm_get hm_insert hm_remove hm_retain hm_len hm_ok
proof unfold_locales
  fix m :: "('k, 'v) hm" and k k' v p
  show "hm_ok (hm_empty :: ('k, 'v) hm)" and "hm_get (hm_empty :: ('k, 'v) hm) k = None"
    by (simp_all add: hm_empty_def hm_ok_def hm_get_def)
  show "hm_get (hm_remove k m) k' = (if k' = k then None else hm_get m k')"
    by (rule hm_get_remove)
  show "hm_get (hm_insert k v m) k' = (if k' = k then Some v else hm_get m k')"
    using hm_get_remove [of k m k'] by (simp add: hm_insert_def hm_get_def)
  show "finite (dom (hm_get m))"
    by (simp add: hm_keys)
  assume ok: "hm_ok m"
  show "hm_ok (hm_insert k v m)" and "hm_ok (hm_remove k m)" and "hm_ok (hm_retain p m)"
    using ok by (auto simp: hm_ok_def hm_insert_def hm_remove_def hm_retain_def distinct_fst_filter)
  show "hm_get (hm_retain p m) k =
      (case hm_get m k of None \<Rightarrow> None | Some v \<Rightarrow> if p k v then Some v else None)"
    using ok by (rule hm_get_retain)
  show "hm_len m = card (dom (hm_get m))"
    using ok distinct_card [of "map fst m"] by (simp add: hm_keys hm_len_def hm_ok_def)
qed

lemmas hm_simps [simp] = hm.get_empty hm.get_insert hm.get_remove hm.len_empty

lemmas hm_ok_intros [simp, intro] = hm.ok_empty hm.ok_insert hm.ok_remove hm.ok_retain

lemma hm_contains_iff [simp]: "hm_contains m k \<longleftrightarrow> hm_get m k \<noteq> None"
  by (simp add: hm_contains_def)

lemmas hm_defs = hm_empty_def hm_get_def hm_insert_def hm_remove_def hm_retain_def hm_len_def
  hm_contains_def

end
