(* ===== verification/RateLimit.thy ===== *)
theory RateLimit
  imports HashMap
begin

text \<open>
  \<open>src/rate_limit.rs\<close>: the token bucket limiter. The keys do not influence one another, so
  the answers for a key are those of one bucket that sees only this key's calls; the bounds
  on what a key is allowed are proved on that single bucket.
\<close>

section \<open>Data and operations\<close>

record bucket =
  tokens :: u32
  last_refill :: instant
  bkt_last_seen :: instant

record 'k limiter =
  capacity :: u32
  refill :: u32
  interval :: duration
  buckets :: "('k, bucket) hm"

definition limiter_new :: "u32 \<Rightarrow> u32 \<Rightarrow> duration \<Rightarrow> 'k limiter" where
  "limiter_new cap r i = \<lparr> capacity = cap, refill = r, interval = i, buckets = hm_empty \<rparr>"

definition limiter_len :: "'k limiter \<Rightarrow> nat" where
  "limiter_len l = hm_len (buckets l)"

definition limiter_is_empty :: "'k limiter \<Rightarrow> bool" where
  "limiter_is_empty l = (buckets l = [])"

definition idle_ttl :: "'k limiter \<Rightarrow> duration" where
  "idle_ttl l = (case duration_checked_mul (interval l) 2 of Some d \<Rightarrow> d | None \<Rightarrow> duration_max)"

definition prune_idle :: "'k limiter \<Rightarrow> instant \<Rightarrow> 'k limiter" where
  "prune_idle l now =
     l\<lparr>buckets := hm_retain (\<lambda>_ b. duration_since now (bkt_last_seen b) < idle_ttl l) (buckets l)\<rparr>"

definition allow :: "'k limiter \<Rightarrow> 'k \<Rightarrow> instant \<Rightarrow> bool \<times> 'k limiter" where
  "allow l0 key now =
     (let l = prune_idle l0 now;
          b0 = (case hm_get (buckets l) key of
                  None \<Rightarrow> \<lparr> tokens = capacity l, last_refill = now, bkt_last_seen = now \<rparr>
                | Some b \<Rightarrow> b);
          b1 = b0\<lparr>bkt_last_seen := now\<rparr>;
          elapsed = duration_since now (last_refill b1);
          b2 = (if elapsed \<ge> interval l then
                  (let intervals = as_secs elapsed div max (as_secs (interval l)) 1;
                       add = saturating_mul (refill l) (clamp_u32 intervals)
                   in b1\<lparr>tokens := min (capacity l) (saturating_add (tokens b1) add),
                         last_refill := now\<rparr>)
                else b1)
      in if tokens b2 = 0 then (False, l\<lparr>buckets := hm_insert key b2 (buckets l)\<rparr>)
         else (True, l\<lparr>buckets := hm_insert key (b2\<lparr>tokens := tokens b2 - 1\<rparr>) (buckets l)\<rparr>))"

fun run_allow :: "'k limiter \<Rightarrow> ('k \<times> instant) list \<Rightarrow> bool list \<times> 'k limiter" where
  "run_allow l [] = ([], l)"
| "run_allow l ((k, now) # es) =
     (let (r, l') = allow l k now; (rs, l'') = run_allow l' es in (r # rs, l''))"

section \<open>One bucket\<close>

definition refilled :: "'k limiter \<Rightarrow> bucket \<Rightarrow> instant \<Rightarrow> bucket" where
  "refilled l b now =
     (let elapsed = duration_since now (last_refill b) in
      if interval l \<le> elapsed then
        b\<lparr>tokens := min (capacity l) (saturating_add (tokens b)
             (saturating_mul (refill l) (clamp_u32 (as_secs elapsed div max (as_secs (interval l)) 1)))),
          last_refill := now\<rparr>
      else b)"

definition not_idle :: "'k limiter \<Rightarrow> instant \<Rightarrow> bucket option \<Rightarrow> bucket option" where
  "not_idle l now x = (case x of None \<Rightarrow> None
     | Some b \<Rightarrow> if duration_since now (bkt_last_seen b) < idle_ttl l then Some b else None)"

definition full_bucket :: "'k limiter \<Rightarrow> instant \<Rightarrow> bucket" where
  "full_bucket l now = \<lparr> tokens = capacity l, last_refill = now, bkt_last_seen = now \<rparr>"

definition bucket_step :: "'k limiter \<Rightarrow> bucket option \<Rightarrow> instant \<Rightarrow> bool \<times> bucket" where
  "bucket_step l x now =
     (let b = refilled l ((case not_idle l now x of None \<Rightarrow> full_bucket l now | Some b \<Rightarrow> b)
                \<lparr>bkt_last_seen := now\<rparr>) now
      in if tokens b = 0 then (False, b) else (True, b\<lparr>tokens := tokens b - 1\<rparr>))"

fun bucket_run :: "'k limiter \<Rightarrow> bucket option \<Rightarrow> instant list \<Rightarrow> bool list" where
  "bucket_run l x [] = []"
| "bucket_run l x (now # ts) =
     (case bucket_step l x now of (r, b) \<Rightarrow> r # bucket_run l (Some b) ts)"

lemma prune_fields [simp]:
  "capacity (prune_idle l now) = capacity l" "refill (prune_idle l now) = refill l"
  "interval (prune_idle l now) = interval l" "idle_ttl (prune_idle l now) = idle_ttl l"
  by (simp_all add: prune_idle_def idle_ttl_def)

lemma get_prune:
  "hm_ok (buckets l) \<Longrightarrow> hm_get (buckets (prune_idle l now)) k = not_idle l now (hm_get (buckets l) k)"
  by (simp add: prune_idle_def hm.get_retain not_idle_def)

lemma allow_eq:
  assumes "hm_ok (buckets l)"
  shows "allow l k now =
    (fst (bucket_step l (hm_get (buckets l) k) now),
     (prune_idle l now)\<lparr>buckets := hm_insert k (snd (bucket_step l (hm_get (buckets l) k) now))
        (buckets (prune_idle l now))\<rparr>)"
  by (cases "not_idle l now (hm_get (buckets l) k)")
    (simp_all add: allow_def bucket_step_def refilled_def full_bucket_def get_prune [OF assms] Let_def)

lemma allow_frame:
  "capacity (snd (allow l k now)) = capacity l" "refill (snd (allow l k now)) = refill l"
  "interval (snd (allow l k now)) = interval l"
  by (simp_all add: allow_def Let_def)

lemma allow_ok: "hm_ok (buckets l) \<Longrightarrow> hm_ok (buckets (snd (allow l k now)))"
  by (simp add: allow_eq) (simp add: prune_idle_def)

lemma allow_get:
  "hm_ok (buckets l) \<Longrightarrow> hm_get (buckets (snd (allow l k now))) k' =
    (if k' = k then Some (snd (bucket_step l (hm_get (buckets l) k) now))
     else not_idle l now (hm_get (buckets l) k'))"
  by (simp add: allow_eq get_prune)

lemma step_last_seen [simp]: "bkt_last_seen (snd (bucket_step l x now)) = now"
  by (simp add: bucket_step_def refilled_def Let_def)

text \<open>The parameters of the limiter are all the single bucket needs of it.\<close>

definition same_limits :: "'k limiter \<Rightarrow> 'k limiter \<Rightarrow> bool" where
  "same_limits l l' = (capacity l' = capacity l \<and> refill l' = refill l \<and> interval l' = interval l)"

lemma same_limits_step:
  assumes "same_limits l l'"
  shows "idle_ttl l' = idle_ttl l" and "not_idle l' = not_idle l" and "bucket_step l' = bucket_step l"
    and "bucket_run l' = bucket_run l"
proof -
  show t: "idle_ttl l' = idle_ttl l" using assms by (simp add: same_limits_def idle_ttl_def)
  then show n: "not_idle l' = not_idle l" by (simp add: fun_eq_iff not_idle_def split: option.splits)
  have r: "refilled l' = refilled l" and f: "full_bucket l' = full_bucket l"
    using assms by (simp_all add: same_limits_def fun_eq_iff refilled_def full_bucket_def Let_def)
  show s: "bucket_step l' = bucket_step l"
    by (intro ext) (simp only: bucket_step_def n r f)
  have "bucket_run l' x ts = bucket_run l x ts" for x ts
    by (induction ts arbitrary: x) (auto simp: s split: prod.splits)
  then show "bucket_run l' = bucket_run l" by (intro ext)
qed

lemma allow_same_limits: "same_limits l (snd (allow l k now))"
  by (simp add: same_limits_def allow_frame)

section \<open>The keys are independent\<close>

text \<open>The answers that one key got in a run.\<close>

definition answers :: "'k \<Rightarrow> ('k \<times> instant) list \<Rightarrow> bool list \<Rightarrow> bool list" where
  "answers k es rs = map snd (filter (\<lambda>x. fst (fst x) = k) (zip es rs))"

lemma answers_Cons [simp]:
  "answers k ((k', now) # es) (r # rs) = (if k' = k then [r] else []) @ answers k es rs"
  by (simp add: answers_def)

definition times_of :: "'k \<Rightarrow> ('k \<times> instant) list \<Rightarrow> instant list" where
  "times_of k es = map snd (filter (\<lambda>e. fst e = k) es)"

text \<open>
  The table may have dropped a bucket that the single bucket still has: then that one has been
  idle for so long that it counts as absent from now on.
\<close>

definition same_view :: "'k limiter \<Rightarrow> instant \<Rightarrow> bucket option \<Rightarrow> bucket option \<Rightarrow> bool" where
  "same_view l T x y = (x = y \<or> x = None \<and> not_idle l T y = None)"

lemma not_idle_later: "not_idle l T y = None \<Longrightarrow> T \<le> now \<Longrightarrow> not_idle l now y = None"
  by (auto simp: not_idle_def duration_since_def split: option.splits if_splits)

lemma same_view_step:
  "same_view l T x y \<Longrightarrow> T \<le> now \<Longrightarrow> bucket_step l x now = bucket_step l y now"
  by (auto simp: same_view_def bucket_step_def not_idle_later) (simp add: not_idle_def)

lemma same_view_other:
  "same_view l T x y \<Longrightarrow> T \<le> now \<Longrightarrow> same_view l now (not_idle l now x) y"
  by (auto simp: same_view_def not_idle_later) (auto simp: not_idle_def split: option.splits)

lemma run_allow_independent_aux:
  assumes "hm_ok (buckets l)" and "sorted (T # map snd es)" and "same_view l T (hm_get (buckets l) k) y"
  shows "answers k es (fst (run_allow l es)) = bucket_run l y (times_of k es)"
  using assms
proof (induction es arbitrary: l T y)
  case Nil
  then show ?case by (simp add: answers_def times_of_def)
next
  case (Cons e es)
  obtain k' now where e: "e = (k', now)" by (cases e)
  let ?l = "snd (allow l k' now)"
  have T: "T \<le> now" and s: "sorted (now # map snd es)" using Cons.prems(2) by (simp_all add: e)
  have ok: "hm_ok (buckets ?l)" by (rule allow_ok [OF Cons.prems(1)])
  note lim = same_limits_step [OF allow_same_limits]
  have view: "same_view ?l now x y \<longleftrightarrow> same_view l now x y" for x y
    by (simp add: same_view_def lim)
  show ?case
  proof (cases "k' = k")
    case True
    have step: "bucket_step l (hm_get (buckets l) k) now = bucket_step l y now"
      using Cons.prems(3) T by (rule same_view_step)
    have "same_view ?l now (hm_get (buckets ?l) k) (Some (snd (bucket_step l y now)))"
      by (simp add: True allow_get [OF Cons.prems(1)] same_view_def step)
    note IH = Cons.IH [OF ok s this]
    have "fst (allow l k now) = fst (bucket_step l y now)"
      by (simp add: allow_eq [OF Cons.prems(1)] step)
    then show ?thesis
      using IH by (simp add: True e times_of_def lim split_beta)
  next
    case False
    have "same_view ?l now (hm_get (buckets ?l) k) y"
      using same_view_other [OF Cons.prems(3) T] False
      by (simp add: view allow_get [OF Cons.prems(1)])
    from Cons.IH [OF ok s this] show ?thesis
      by (simp add: False e times_of_def lim split_beta)
  qed
qed

lemma run_allow_independent:
  fixes es :: "('k \<times> instant) list"
  assumes "sorted (map snd es)"
  shows "answers k es (fst (run_allow (limiter_new c r i) es)) =
    bucket_run (limiter_new c r i :: 'k limiter) None (times_of k es)"
proof (rule run_allow_independent_aux [where T = 0])
  show "hm_ok (buckets (limiter_new c r i))"
    and "same_view (limiter_new c r i) 0 (hm_get (buckets (limiter_new c r i)) k) None"
    by (simp_all add: limiter_new_def same_view_def)
  show "sorted (0 # map snd es)" using assms by simp
qed

section \<open>How much a key is allowed\<close>

definition granted :: "bool list \<Rightarrow> nat" where
  "granted rs = length (filter (\<lambda>r. r) rs)"

text \<open>The bucket after pruning and refilling, before a token is taken.\<close>

definition ready :: "'k limiter \<Rightarrow> bucket option \<Rightarrow> instant \<Rightarrow> bucket" where
  "ready l x now = refilled l ((case not_idle l now x of None \<Rightarrow> full_bucket l now | Some b \<Rightarrow> b)
     \<lparr>bkt_last_seen := now\<rparr>) now"

lemma bucket_step_ready:
  "bucket_step l x now = (tokens (ready l x now) \<noteq> 0,
     if tokens (ready l x now) = 0 then ready l x now
     else (ready l x now)\<lparr>tokens := tokens (ready l x now) - 1\<rparr>)"
  by (simp add: bucket_step_def ready_def Let_def)

text \<open>The interval is a positive number of whole seconds, as in every use of the limiter.\<close>

definition whole_seconds :: "'k limiter \<Rightarrow> bool" where
  "whole_seconds l = (\<exists>s. s \<noteq> 0 \<and> interval l = from_secs s)"

lemma from_secs_le_max: "from_secs s \<le> duration_max"
proof -
  have "unat s < 2 ^ 64" by (rule order_less_le_trans [OF unsigned_less]) simp
  then show ?thesis by (simp add: from_secs_def nanos_per_sec_def duration_max_def)
qed

lemma interval_le_ttl: "whole_seconds l \<Longrightarrow> interval l \<le> idle_ttl l"
  using from_secs_le_max
  by (auto simp: whole_seconds_def idle_ttl_def duration_checked_mul_def)

lemma whole_seconds_pos: "whole_seconds l \<Longrightarrow> 0 < interval l"
  by (auto simp: whole_seconds_def)

lemma whole_intervals:
  assumes "whole_seconds l"
  shows "as_secs e div max (as_secs (interval l)) 1 = e div interval l"
proof -
  obtain s where s: "s \<noteq> 0" "interval l = from_secs s" using assms by (auto simp: whole_seconds_def)
  then have "0 < unat s" by (simp add: unat_gt_0)
  then have "max (as_secs (interval l)) 1 = unat s"
    by (simp add: s as_secs_def from_secs_def)
  then show ?thesis
    by (simp add: s from_secs_def as_secs_def div_mult2_eq [symmetric] mult.commute)
qed

lemma refilled_cases:
  assumes "whole_seconds l" and "interval l \<le> duration_since now (last_refill b)"
  shows "last_refill (refilled l b now) = now"
    and "unat (tokens (refilled l b now)) \<le> unat (capacity l)"
    and "unat (tokens (refilled l b now)) \<le>
      unat (tokens b) + unat (refill l) * (duration_since now (last_refill b) div interval l)"
proof -
  let ?n = "duration_since now (last_refill b) div interval l"
  have le: "unat (saturating_add (tokens b) (saturating_mul (refill l) (clamp_u32 ?n)))
      \<le> unat (tokens b) + unat (refill l) * ?n"
  proof -
    have "unat (saturating_mul (refill l) (clamp_u32 ?n)) \<le> unat (refill l) * ?n"
      unfolding unat_saturating_mul unat_clamp_u32
      by (rule order_trans [OF min.cobounded1]) (simp add: mult_le_mono2)
    then show ?thesis unfolding unat_saturating_add by linarith
  qed
  have tok: "tokens (refilled l b now) = min (capacity l)
      (saturating_add (tokens b) (saturating_mul (refill l) (clamp_u32 ?n)))"
    using assms by (simp add: refilled_def Let_def whole_intervals del: One_nat_def)
  show "last_refill (refilled l b now) = now"
    using assms by (simp add: refilled_def Let_def)
  show "unat (tokens (refilled l b now)) \<le> unat (capacity l)"
    by (simp add: tok word_le_nat_alt [symmetric])
  have "unat (tokens (refilled l b now)) \<le>
      unat (saturating_add (tokens b) (saturating_mul (refill l) (clamp_u32 ?n)))"
    by (simp add: tok word_le_nat_alt [symmetric])
  then show "unat (tokens (refilled l b now)) \<le> unat (tokens b) + unat (refill l) * ?n"
    using le by linarith
qed

lemma refilled_same: "duration_since now (last_refill b) < interval l \<Longrightarrow> refilled l b now = b"
  by (simp add: refilled_def)

lemma div_gain:
  assumes "lr \<le> now" and "now \<le> t1"
  shows "(now - lr) div i + (t1 - now) div i \<le> (t1 - lr) div (i :: nat)"
proof -
  have "t1 - lr = (now - lr) + (t1 - now)" using assms by simp
  then show ?thesis by (metis div_add1_eq le_add1)
qed

lemma gain_mult:
  assumes "lr \<le> now" and "now \<le> (t1 :: nat)" and "x \<le> y + g * ((now - lr) div i)"
  shows "x + g * ((t1 - now) div i) \<le> y + g * ((t1 - lr) div i)"
proof -
  have "g * ((now - lr) div i) + g * ((t1 - now) div i) \<le> g * ((t1 - lr) div i)"
    using mult_le_mono2 [OF div_gain [OF assms(1,2), of i], of g] by (simp add: distrib_left)
  with assms(3) show ?thesis by linarith
qed

text \<open>
  Credit of a bucket: the tokens it holds and what can still be added until \<open>t1\<close>, at \<open>g\<close>
  tokens for each interval. No step creates credit, where \<open>g\<close> is the capacity, or the refill
  rate for a bucket that is not idle.
\<close>

definition credit :: "'k limiter \<Rightarrow> nat \<Rightarrow> instant \<Rightarrow> bucket \<Rightarrow> nat" where
  "credit l g t1 b = unat (tokens b) + g * ((t1 - last_refill b) div interval l)"

definition rate_for :: "'k limiter \<Rightarrow> nat \<Rightarrow> bool \<Rightarrow> bool" where
  "rate_for l g idle = (g = unat (capacity l) \<or> g = unat (refill l) \<and> \<not> idle)"

lemma credit_ready:
  assumes ws: "whole_seconds l" and t: "last_refill b \<le> bkt_last_seen b" "bkt_last_seen b \<le> now" "now \<le> t1"
    and g: "rate_for l g (idle_ttl l \<le> duration_since now (bkt_last_seen b))"
  shows "credit l g t1 (ready l (Some b) now) \<le> credit l g t1 b"
    and "last_refill (ready l (Some b) now) \<le> now" and "bkt_last_seen (ready l (Some b) now) = now"
proof -
  note i = whole_seconds_pos [OF ws]
  have lr: "last_refill b \<le> now" using t by simp
  show "last_refill (ready l (Some b) now) \<le> now" and "bkt_last_seen (ready l (Some b) now) = now"
    using lr by (simp_all add: ready_def not_idle_def full_bucket_def refilled_def Let_def)
  show "credit l g t1 (ready l (Some b) now) \<le> credit l g t1 b"
  proof (cases "idle_ttl l \<le> duration_since now (bkt_last_seen b)")
    case True
    then have g: "g = unat (capacity l)" using g by (simp add: rate_for_def)
    have "interval l \<le> now - last_refill b"
      using True interval_le_ttl [OF ws] t by (simp add: duration_since_def)
    then have "1 \<le> (now - last_refill b) div interval l"
      using i by (simp add: Suc_le_eq div_greater_zero_iff)
    then have "g \<le> g * ((now - last_refill b) div interval l)" by simp
    then have "g \<le> unat (tokens b) + g * ((now - last_refill b) div interval l)" by linarith
    note gain = gain_mult [OF lr t(3) this]
    have "ready l (Some b) now = full_bucket l now"
      using True i by (simp add: ready_def not_idle_def full_bucket_def refilled_def duration_since_def)
    then show ?thesis
      using gain g by (simp add: credit_def full_bucket_def)
  next
    case False
    let ?b = "b\<lparr>bkt_last_seen := now\<rparr>"
    have r: "ready l (Some b) now = refilled l ?b now"
      using False by (simp add: ready_def not_idle_def)
    show ?thesis
    proof (cases "interval l \<le> duration_since now (last_refill b)")
      case True
      have "1 \<le> (now - last_refill b) div interval l"
        using True i by (simp add: Suc_le_eq div_greater_zero_iff duration_since_def)
      then have cap: "unat (capacity l) \<le> unat (capacity l) * ((now - last_refill b) div interval l)"
        by simp
      have "unat (tokens (refilled l ?b now)) \<le> unat (tokens b) + g * ((now - last_refill b) div interval l)"
      proof (cases "g = unat (capacity l)")
        case True
        have "unat (tokens (refilled l ?b now)) \<le> unat (capacity l)"
          using refilled_cases(2) [OF ws, of now ?b] \<open>interval l \<le> _\<close> by simp
        with cap show ?thesis unfolding True by linarith
      next
        case False
        then have "g = unat (refill l)" using g by (simp add: rate_for_def)
        then show ?thesis
          using refilled_cases(3) [OF ws, of now ?b] \<open>interval l \<le> _\<close>
          by (simp add: duration_since_def)
      qed
      from gain_mult [OF lr t(3) this] show ?thesis
        using refilled_cases(1) [OF ws, of now ?b] True by (simp add: r credit_def)
    next
      case False
      then show ?thesis by (simp add: r refilled_same credit_def)
    qed
  qed
qed

lemma granted_le_credit:
  assumes "whole_seconds l" and "last_refill b \<le> bkt_last_seen b" and "sorted (bkt_last_seen b # ts)"
    and "\<forall>t\<in>set ts. t \<le> t1"
    and "g = unat (capacity l) \<or>
      g = unat (refill l) \<and> successively (\<lambda>a b. duration_since b a < idle_ttl l) (bkt_last_seen b # ts)"
  shows "granted (bucket_run l (Some b) ts) \<le> credit l g t1 b"
  using assms
proof (induction ts arbitrary: b)
  case (Cons now ts)
  let ?r = "ready l (Some b) now" and ?b = "snd (bucket_step l (Some b) now)"
  have now: "bkt_last_seen b \<le> now" "now \<le> t1" using Cons.prems(3,4) by simp_all
  have "rate_for l g (idle_ttl l \<le> duration_since now (bkt_last_seen b))"
    using Cons.prems(5) by (auto simp: rate_for_def)
  note c = credit_ready [OF Cons.prems(1,2) now this]
  have b: "last_refill ?b = last_refill ?r" "bkt_last_seen ?b = now"
    using c(3) by (simp_all add: bucket_step_ready)
  have "granted (bucket_run l (Some ?b) ts) \<le> credit l g t1 ?b"
  proof (rule Cons.IH)
    show "last_refill ?b \<le> bkt_last_seen ?b" using b c(2) by simp
    show "sorted (bkt_last_seen ?b # ts)" using Cons.prems(3) b by simp
    show "g = unat (capacity l) \<or>
      g = unat (refill l) \<and> successively (\<lambda>a b. duration_since b a < idle_ttl l) (bkt_last_seen ?b # ts)"
      using Cons.prems(5) b by auto
  qed (use Cons.prems in auto)
  moreover have "(if fst (bucket_step l (Some b) now) then 1 else 0) + credit l g t1 ?b = credit l g t1 ?r"
    by (auto simp: bucket_step_ready credit_def unat_minus_one unat_gt_0)
  ultimately show ?case using c(1)
    by (auto simp: granted_def split_beta split: if_splits)
qed (simp add: granted_def)

lemma granted_from_none:
  assumes "whole_seconds l" and "sorted (t0 # ts)" and "\<forall>t\<in>set ts. t \<le> t1" and "t0 \<le> t1"
    and "g = unat (capacity l) \<or>
      g = unat (refill l) \<and> successively (\<lambda>a b. duration_since b a < idle_ttl l) (t0 # ts)"
  shows "granted (bucket_run l None (t0 # ts)) \<le> unat (capacity l) + g * ((t1 - t0) div interval l)"
proof -
  let ?b = "snd (bucket_step l None t0)"
  have r: "ready l None t0 = full_bucket l t0"
    using whole_seconds_pos [OF assms(1)]
    by (simp add: ready_def not_idle_def full_bucket_def refilled_def duration_since_def)
  have "granted (bucket_run l (Some ?b) ts) \<le> credit l g t1 ?b"
    by (rule granted_le_credit) (use assms in \<open>auto simp: bucket_step_ready r full_bucket_def\<close>)
  moreover have "(if fst (bucket_step l None t0) then 1 else 0) + credit l g t1 ?b
      = unat (capacity l) + g * ((t1 - t0) div interval l)"
    by (auto simp: bucket_step_ready r full_bucket_def credit_def unat_minus_one unat_gt_0)
  ultimately show ?thesis
    by (auto simp: granted_def split_beta split: if_splits)
qed

section \<open>A burst\<close>

text \<open>Less than an interval after the last refill, a bucket just counts down.\<close>

lemma burst_from:
  assumes "whole_seconds l" and "last_refill b \<le> bkt_last_seen b" and "sorted (bkt_last_seen b # ts)"
    and "\<forall>t\<in>set ts. duration_since t (last_refill b) < interval l"
  shows "bucket_run l (Some b) ts = map (\<lambda>i. i < unat (tokens b)) [0..<length ts]"
  using assms
proof (induction ts arbitrary: b)
  case (Cons now ts)
  have "duration_since now (bkt_last_seen b) < idle_ttl l"
    using Cons.prems interval_le_ttl [OF Cons.prems(1)] by (auto simp: duration_since_def)
  then have r: "ready l (Some b) now = b\<lparr>bkt_last_seen := now\<rparr>"
    using Cons.prems by (simp add: ready_def not_idle_def refilled_def)
  let ?b = "snd (bucket_step l (Some b) now)"
  have b: "last_refill ?b = last_refill b" "bkt_last_seen ?b = now"
    "unat (tokens ?b) = unat (tokens b) - 1" "fst (bucket_step l (Some b) now) = (0 < unat (tokens b))"
    by (auto simp: bucket_step_ready r unat_minus_one unat_gt_0)
  have "bucket_run l (Some ?b) ts = map (\<lambda>i. i < unat (tokens ?b)) [0..<length ts]"
    by (rule Cons.IH) (use Cons.prems b in auto)
  then show ?case
    using b by (auto simp: split_beta upt_conv_Cons map_Suc_upt [symmetric] simp del: upt_Suc)
qed simp

lemma burst_from_none:
  assumes "whole_seconds l" and "sorted (t0 # ts)" and "\<forall>t\<in>set ts. duration_since t t0 < interval l"
  shows "bucket_run l None (t0 # ts) = map (\<lambda>i. i < unat (capacity l)) [0..<Suc (length ts)]"
proof -
  let ?b = "snd (bucket_step l None t0)"
  have r: "ready l None t0 = full_bucket l t0"
    using whole_seconds_pos [OF assms(1)]
    by (simp add: ready_def not_idle_def full_bucket_def refilled_def duration_since_def)
  have b: "last_refill ?b = t0" "bkt_last_seen ?b = t0" "unat (tokens ?b) = unat (capacity l) - 1"
    "fst (bucket_step l None t0) = (0 < unat (capacity l))"
    by (auto simp: bucket_step_ready r full_bucket_def unat_minus_one unat_gt_0)
  have "bucket_run l (Some ?b) ts = map (\<lambda>i. i < unat (tokens ?b)) [0..<length ts]"
    by (rule burst_from) (use assms b in auto)
  then show ?thesis
    using b by (auto simp: split_beta upt_conv_Cons map_Suc_upt [symmetric] simp del: upt_Suc)
qed

section \<open>Properties\<close>

lemma limiter_new_fields [simp]:
  "capacity (limiter_new c r i) = c" "refill (limiter_new c r i) = r" "interval (limiter_new c r i) = i"
  "buckets (limiter_new c r i) = hm_empty"
  by (simp_all add: limiter_new_def)

lemma whole_seconds_new: "s \<noteq> 0 \<Longrightarrow> whole_seconds (limiter_new c r (from_secs s))"
  by (auto simp: whole_seconds_def)

lemma sorted_times_of: "sorted (map snd es) \<Longrightarrow> sorted (times_of k es)"
  unfolding times_of_def by (induction es) auto

text \<open>A concrete run: one key at five instants of the same second, another key in between.\<close>

definition example_calls :: "(nat \<times> instant) list" where
  "example_calls = [(1, 10), (1, 20), (2, 25), (1, 30)]"

text \<open>
  C17: the keys of the limiter are independent. The answers that one key gets in a run over calls
  for any keys are those of a single token bucket that sees this key's calls only.
\<close>

theorem limiter_keys_independent:
  fixes es :: "('k \<times> instant) list"
  shows "sorted (map snd es) \<Longrightarrow>
    answers k es (fst (run_allow (limiter_new c r i) es)) =
      bucket_run (limiter_new c r i :: 'k limiter) None (times_of k es)"
  by (rule run_allow_independent)

theorem limiter_keys_independent_witness:
  "answers 1 example_calls (fst (run_allow (limiter_new 2 1 60) example_calls))
     = bucket_run (limiter_new 2 1 60 :: nat limiter) None [10, 20, 30]"
  using limiter_keys_independent [of example_calls 1 2 1 60]
  by (simp add: example_calls_def times_of_def)

text \<open>
  C18: how much a key is allowed between its first call at \<open>t0\<close> and \<open>t1\<close>: at most the burst, plus
  a burst for every whole interval between them; and when two consecutive calls of the key are
  never \<open>idle_ttl\<close> apart, at most the burst plus the refill for every whole interval.
\<close>

theorem limiter_bound:
  fixes es :: "('k \<times> instant) list"
  shows "s \<noteq> 0 \<Longrightarrow> sorted (map snd es) \<Longrightarrow> times_of k es = t0 # ts \<Longrightarrow> \<forall>t\<in>set (t0 # ts). t \<le> t1 \<Longrightarrow>
    g = unat c \<or> g = unat r \<and> successively
      (\<lambda>a b. duration_since b a < idle_ttl (limiter_new c r (from_secs s) :: 'k limiter)) (t0 # ts) \<Longrightarrow>
    granted (answers k es (fst (run_allow (limiter_new c r (from_secs s)) es)))
      \<le> unat c + g * ((t1 - t0) div from_secs s)"
  using granted_from_none [OF whole_seconds_new [of s c r], of t0 ts t1 g] sorted_times_of [of es k]
    run_allow_independent [of es k c r "from_secs s"] by simp

theorem limiter_bound_witness:
  "granted (answers 1 example_calls (fst (run_allow (limiter_new 2 1 (from_secs 60)) example_calls))) \<le> 2"
  using limiter_bound [of 60 example_calls 1 10 "[20, 30]" 30 2 2 1]
  by (simp add: example_calls_def times_of_def from_secs_def nanos_per_sec_def)

text \<open>
  A burst. Calls of one key within less than an interval of the first are allowed until the
  capacity is used up, and refused from then on: the call number \<open>capacity + 1\<close> is the first
  refusal.
\<close>

theorem limiter_burst_exact:
  fixes es :: "('k \<times> instant) list"
  shows "s \<noteq> 0 \<Longrightarrow> sorted (map snd es) \<Longrightarrow> times_of k es = t0 # ts \<Longrightarrow>
    \<forall>t\<in>set ts. duration_since t t0 < from_secs s \<Longrightarrow>
    answers k es (fst (run_allow (limiter_new c r (from_secs s)) es))
      = map (\<lambda>n. n < unat c) [0..<Suc (length ts)]"
  using burst_from_none [OF whole_seconds_new [of s c r], of t0 ts] sorted_times_of [of es k]
    run_allow_independent [of es k c r "from_secs s"] by simp

theorem limiter_burst_exact_witness:
  "answers 1 example_calls (fst (run_allow (limiter_new 2 1 (from_secs 60)) example_calls))
     = [True, True, False]"
  using limiter_burst_exact [of 60 example_calls 1 10 "[20, 30]" 2 1]
  by (simp add: example_calls_def times_of_def from_secs_def nanos_per_sec_def duration_since_def
      upt_conv_Cons)

text \<open>
  A key that has been silent for \<open>idle_ttl\<close>, two intervals, has its full burst again,
  whatever the refill rate, because its bucket is forgotten.
\<close>

theorem idle_restores_burst:
  fixes l :: "'k limiter"
  shows "hm_ok (buckets l) \<Longrightarrow> whole_seconds l \<Longrightarrow> hm_get (buckets l) k = Some b \<Longrightarrow>
    idle_ttl l \<le> duration_since now (bkt_last_seen b) \<Longrightarrow> capacity l \<noteq> 0 \<Longrightarrow>
    fst (allow l k now) \<and> hm_get (buckets (snd (allow l k now))) k =
      Some \<lparr> tokens = capacity l - 1, last_refill = now, bkt_last_seen = now \<rparr>"
  using whole_seconds_pos [of l]
  by (simp add: allow_get allow_eq bucket_step_def not_idle_def full_bucket_def refilled_def
      duration_since_def)

definition drained_limiter :: "nat limiter" where
  "drained_limiter = \<lparr> capacity = 100, refill = 1, interval = from_secs 60,
     buckets = [(7, \<lparr> tokens = 0, last_refill = 0, bkt_last_seen = 0 \<rparr>)] \<rparr>"

lemma drained_whole: "whole_seconds drained_limiter"
  unfolding whole_seconds_def by (rule exI [of _ 60]) (simp add: drained_limiter_def)

lemma drained_ttl: "idle_ttl drained_limiter = from_secs 120"
  by (simp add: drained_limiter_def idle_ttl_def duration_checked_mul_def duration_max_def
      from_secs_def nanos_per_sec_def)

lemma drained_get: "hm_get (buckets drained_limiter) 7 = Some \<lparr> tokens = 0, last_refill = 0, bkt_last_seen = 0 \<rparr>"
  by (simp add: drained_limiter_def hm_get_def)

theorem idle_restores_burst_witness:
  "hm_get (buckets (snd (allow drained_limiter 7 (from_secs 120)))) 7 =
     Some \<lparr> tokens = 99, last_refill = from_secs 120, bkt_last_seen = from_secs 120 \<rparr>"
proof -
  have "hm_ok (buckets drained_limiter)"
    and "hm_get (buckets drained_limiter) 7 = Some \<lparr> tokens = 0, last_refill = 0, bkt_last_seen = 0 \<rparr>"
    by (simp_all add: drained_limiter_def hm_ok_def hm_get_def)
  moreover have "idle_ttl drained_limiter
      \<le> duration_since (from_secs 120) (bkt_last_seen \<lparr> tokens = 0, last_refill = 0, bkt_last_seen = 0 \<rparr>)"
    by (simp add: drained_ttl duration_since_def)
  ultimately show ?thesis
    using idle_restores_burst [OF _ drained_whole] by (simp add: drained_limiter_def)
qed

text \<open>
  The table does not grow with the past. After a call, every bucket in it belongs to a key
  that was seen less than \<open>idle_ttl\<close> ago, and the key just asked for is one of them.
\<close>

theorem limiter_forgets_idle_keys:
  fixes l :: "'k limiter"
  shows "hm_ok (buckets l) \<Longrightarrow> whole_seconds l \<Longrightarrow>
    hm_get (buckets (snd (allow l k now))) k' = Some b \<Longrightarrow>
    duration_since now (bkt_last_seen b) < idle_ttl l"
proof -
  assume ok: "hm_ok (buckets l)" and w: "whole_seconds l"
    and b: "hm_get (buckets (snd (allow l k now))) k' = Some b"
  show ?thesis
  proof (cases "k' = k")
    case True
    then have "bkt_last_seen b = now" using b ok by (auto simp: allow_get)
    then show ?thesis
      using whole_seconds_pos [OF w] interval_le_ttl [OF w] by (simp add: duration_since_def)
  next
    case False
    then show ?thesis
      using b ok by (auto simp: allow_get not_idle_def split: option.splits if_splits)
  qed
qed

theorem limiter_forgets_idle_keys_witness:
  "hm_get (buckets (snd (allow drained_limiter 8 (from_secs 120)))) 7 = None"
proof (rule ccontr)
  assume "hm_get (buckets (snd (allow drained_limiter 8 (from_secs 120)))) 7 \<noteq> None"
  then obtain b where b: "hm_get (buckets (snd (allow drained_limiter 8 (from_secs 120)))) 7 = Some b" by blast
  have "hm_ok (buckets drained_limiter)" by (simp add: drained_limiter_def hm_ok_def)
  note recent = limiter_forgets_idle_keys [OF this drained_whole b]
  have "b = \<lparr> tokens = 0, last_refill = 0, bkt_last_seen = 0 \<rparr>"
    using b by (simp add: allow_get [OF \<open>hm_ok _\<close>] drained_get not_idle_def split: if_splits)
  then show False using recent by (simp add: drained_ttl duration_since_def)
qed

end
