(* ===== verification/LimiterSize.thy ===== *)
theory LimiterSize
  imports RateLimit
begin

text \<open>
  How many buckets the limiter keeps: exactly one for every key that was seen within the last
  \<open>idle_ttl\<close>. There is no other limit.
\<close>

definition recent :: "duration \<Rightarrow> instant \<Rightarrow> ('k \<times> instant) list \<Rightarrow> 'k set" where
  "recent ttl now es = {k. \<exists>t. (k, t) \<in> set es \<and> duration_since now t < ttl}"

text \<open>A bucket knows when its key was last seen.\<close>

definition follows :: "'k limiter \<Rightarrow> ('k \<times> instant) list \<Rightarrow> instant \<Rightarrow> bool" where
  "follows l es T = (hm_ok (buckets l) \<and> (\<forall>k. case hm_get (buckets l) k of
       None \<Rightarrow> k \<notin> recent (idle_ttl l) T es
     | Some b \<Rightarrow> (k, bkt_last_seen b) \<in> set es \<and> duration_since T (bkt_last_seen b) < idle_ttl l
         \<and> (\<forall>t. (k, t) \<in> set es \<longrightarrow> t \<le> bkt_last_seen b)))"

lemma run_allow_snoc: "snd (run_allow l (es @ [(k, now)])) = snd (allow (snd (run_allow l es)) k now)"
  by (induction es arbitrary: l) (auto simp: split_beta Let_def)

lemma duration_since_mono: "t \<le> t' \<Longrightarrow> T \<le> now \<Longrightarrow> duration_since now t < d \<Longrightarrow> duration_since T t' < d"
  by (simp add: duration_since_def)

lemma follows_step:
  assumes f: "follows l es T" and T: "T \<le> now" and ttl: "0 < idle_ttl l" and es: "\<forall>e\<in>set es. snd e \<le> T"
  shows "follows (snd (allow l k now)) (es @ [(k, now)]) now"
proof -
  have ok: "hm_ok (buckets l)" using f by (simp add: follows_def)
  have same: "idle_ttl (snd (allow l k now)) = idle_ttl l"
    by (rule same_limits_step(1) [OF allow_same_limits])
  have "case hm_get (buckets (snd (allow l k now))) k' of
       None \<Rightarrow> k' \<notin> recent (idle_ttl l) now (es @ [(k, now)])
     | Some b \<Rightarrow> (k', bkt_last_seen b) \<in> set (es @ [(k, now)]) \<and> duration_since now (bkt_last_seen b) < idle_ttl l
         \<and> (\<forall>t. (k', t) \<in> set (es @ [(k, now)]) \<longrightarrow> t \<le> bkt_last_seen b)" for k'
  proof (cases "k' = k")
    case True
    have "t \<le> now" if "(k, t) \<in> set es" for t using es that T by fastforce
    then show ?thesis using ttl by (auto simp: True allow_get [OF ok] duration_since_def)
  next
    case False
    have k': "case hm_get (buckets l) k' of
         None \<Rightarrow> k' \<notin> recent (idle_ttl l) T es
       | Some b \<Rightarrow> (k', bkt_last_seen b) \<in> set es \<and> duration_since T (bkt_last_seen b) < idle_ttl l
           \<and> (\<forall>t. (k', t) \<in> set es \<longrightarrow> t \<le> bkt_last_seen b)"
      using f by (simp add: follows_def)
    show ?thesis
    proof (cases "hm_get (buckets l) k'")
      case None
      then have "k' \<notin> recent (idle_ttl l) now es"
        using k' duration_since_mono [OF order_refl T] by (auto simp: recent_def)
      then show ?thesis using None False by (auto simp: allow_get [OF ok] not_idle_def recent_def)
    next
      case (Some b)
      then show ?thesis
        using k' False duration_since_mono [of _ "bkt_last_seen b" now now]
        by (auto simp: allow_get [OF ok] not_idle_def recent_def)
    qed
  qed
  then show ?thesis unfolding follows_def same using allow_ok [OF ok] by blast
qed

lemma follows_run:
  "0 < idle_ttl (limiter_new c r i :: 'k limiter) \<Longrightarrow> sorted (map snd es) \<Longrightarrow> es \<noteq> [] \<Longrightarrow>
    follows (snd (run_allow (limiter_new c r i :: 'k limiter) es)) es (snd (last es))
    \<and> same_limits (limiter_new c r i) (snd (run_allow (limiter_new c r i :: 'k limiter) es))"
proof (induction es rule: rev_induct)
  case (snoc e es)
  let ?l = "snd (run_allow (limiter_new c r i :: 'k limiter) es)"
  obtain k now where e: "e = (k, now)" by (cases e)
  have le: "\<forall>x\<in>set es. snd x \<le> now" and s: "sorted (map snd es)"
    using snoc.prems(2) by (auto simp: e sorted_append)
  have lim: "follows ?l es (if es = [] then now else snd (last es)) \<and> same_limits (limiter_new c r i) ?l"
  proof (cases "es = []")
    case True
    then show ?thesis by (simp add: follows_def limiter_new_def recent_def same_limits_def)
  next
    case False
    then show ?thesis using snoc s by simp
  qed
  have T: "\<forall>x\<in>set es. snd x \<le> (if es = [] then now else snd (last es))"
    "(if es = [] then now else snd (last es)) \<le> now"
    using s le by (cases es rule: rev_cases; auto simp: sorted_append)+
  have "idle_ttl ?l = idle_ttl (limiter_new c r i :: 'k limiter)"
    using lim same_limits_step(1) by blast
  then have "0 < idle_ttl ?l" using snoc.prems(1) by simp
  from follows_step [OF conjunct1 [OF lim] T(2) this T(1)]
  have "follows (snd (allow ?l k now)) (es @ [(k, now)]) now" .
  then show ?case
    using lim allow_same_limits [of ?l k now] by (simp add: e run_allow_snoc same_limits_def)
qed simp

lemma follows_dom: "follows l es T \<Longrightarrow> dom (hm_get (buckets l)) = recent (idle_ttl l) T es"
  by (fastforce simp: follows_def recent_def dom_def split: option.splits)

lemma follows_len: "follows l es T \<Longrightarrow> hm_len (buckets l) = card (recent (idle_ttl l) T es)"
  using follows_dom [of l es T] by (simp add: follows_def hm.len_card)

lemma new_ttl_pos: "s \<noteq> 0 \<Longrightarrow> 0 < idle_ttl (limiter_new c r (from_secs s) :: 'k limiter)"
  using interval_le_ttl [OF whole_seconds_new [of s c r]] whole_seconds_pos [OF whole_seconds_new [of s c r]]
  by (meson order_less_le_trans)

lemma size_of_run:
  fixes es :: "('k \<times> instant) list"
  assumes "s \<noteq> 0" and "sorted (map snd es)" and "es \<noteq> []"
  shows "limiter_len (snd (run_allow (limiter_new c r (from_secs s)) es))
      = card (recent (idle_ttl (limiter_new c r (from_secs s) :: 'k limiter)) (snd (last es)) es)"
    and "dom (hm_get (buckets (snd (run_allow (limiter_new c r (from_secs s)) es))))
      = recent (idle_ttl (limiter_new c r (from_secs s) :: 'k limiter)) (snd (last es)) es"
proof -
  note f = follows_run [OF new_ttl_pos [OF assms(1)] assms(2,3), of c r]
  show "limiter_len (snd (run_allow (limiter_new c r (from_secs s)) es))
      = card (recent (idle_ttl (limiter_new c r (from_secs s) :: 'k limiter)) (snd (last es)) es)"
    unfolding limiter_len_def follows_len [OF conjunct1 [OF f]] same_limits_step(1) [OF conjunct2 [OF f]] ..
  show "dom (hm_get (buckets (snd (run_allow (limiter_new c r (from_secs s)) es))))
      = recent (idle_ttl (limiter_new c r (from_secs s) :: 'k limiter)) (snd (last es)) es"
    unfolding follows_dom [OF conjunct1 [OF f]] same_limits_step(1) [OF conjunct2 [OF f]] ..
qed



text \<open>A flood of different sources, each seen once, leaves one bucket for each.\<close>

lemma flood_fills_limiter:
  fixes ks :: "'k list"
  assumes "s \<noteq> 0" and "distinct ks" and "ks \<noteq> []"
  shows "limiter_len (snd (run_allow (limiter_new c r (from_secs s)) (map (\<lambda>k. (k, now)) ks))) = length ks"
proof -
  let ?L = "limiter_new c r (from_secs s) :: 'k limiter" and ?es = "map (\<lambda>k. (k, now)) ks"
  have "0 < idle_ttl ?L" by (rule new_ttl_pos [OF assms(1)])
  then have "recent (idle_ttl ?L) now ?es = set ks" by (auto simp: recent_def duration_since_def)
  moreover have "sorted (map snd ?es)" by (simp add: comp_def sorted_iff_nth_mono)
  ultimately show ?thesis
    using size_of_run [OF assms(1), of ?es c r] assms(2,3) by (simp add: last_map distinct_card)
qed

end
