(* ===== verification/Text.thy ===== *)
theory Text
  imports Prelude
begin

text \<open>
  The parts of Rust's \<open>str\<close> and of \<open>core::fmt\<close> that the sources use. A Rust string is its
  UTF-8 encoding, one \<open>char\<close> of HOL per byte, so \<open>length\<close> is \<open>str::len\<close>. Functions that
  work on Unicode scalar values (\<open>trim\<close>, \<open>split_whitespace\<close>) first cut the bytes into
  characters.
\<close>

section \<open>Numbers in a positional base\<close>

definition digit_char :: "nat \<Rightarrow> char" where
  "digit_char d = ''0123456789abcdef'' ! d"

definition digit_value :: "char \<Rightarrow> nat" where
  "digit_value c = (let n = of_char c in if n < 58 then n - 48 else n - 87)"

text \<open>\<open>to_base 10\<close> is the \<open>Display\<close> of an unsigned integer, \<open>to_base 16\<close> its \<open>LowerHex\<close>.\<close>

fun to_base :: "nat \<Rightarrow> nat \<Rightarrow> string" where
  "to_base b n =
     (if n < b \<or> b < 2 then [digit_char n] else to_base b (n div b) @ [digit_char (n mod b)])"

declare to_base.simps [simp del]

definition from_base :: "nat \<Rightarrow> string \<Rightarrow> nat" where
  "from_base b s = foldl (\<lambda>a c. a * b + digit_value c) 0 s"

abbreviation dec :: "nat \<Rightarrow> string" where
  "dec \<equiv> to_base 10"

abbreviation hex :: "nat \<Rightarrow> string" where
  "hex \<equiv> to_base 16"

lemma less_16_cases: "d < (16 :: nat) \<Longrightarrow> d \<in> {0, 1, 2, 3, 4, 5, 6, 7, 8, 9, 10, 11, 12, 13, 14, 15}"
  by simp presburger

lemma digit_value_char: "d < 16 \<Longrightarrow> digit_value (digit_char d) = d"
  by (auto simp: digit_value_def digit_char_def dest!: less_16_cases)

lemma from_to_base: "2 \<le> b \<Longrightarrow> b \<le> 16 \<Longrightarrow> from_base b (to_base b n) = n"
proof (induction b n rule: to_base.induct)
  case (1 b n)
  have "n mod b < 16"
    by (rule order_less_le_trans [OF mod_less_divisor]) (use 1 in auto)
  with 1 show ?case
    by (subst to_base.simps) (auto simp: from_base_def digit_value_char)
qed

lemma to_base_inj: "2 \<le> b \<Longrightarrow> b \<le> 16 \<Longrightarrow> to_base b m = to_base b n \<longleftrightarrow> m = n"
  by (metis from_to_base)

lemma dec_inj [simp]: "dec m = dec n \<longleftrightarrow> m = n"
  by (simp add: to_base_inj)

lemma to_base_not_Nil [simp]: "to_base b n \<noteq> []"
  by (subst to_base.simps) simp

lemma set_to_base: "2 \<le> b \<Longrightarrow> set (to_base b n) \<subseteq> digit_char ` {..<b}"
proof (induction b n rule: to_base.induct)
  case (1 b n)
  then show ?case
    by (subst to_base.simps) auto
qed

definition is_ascii_digit :: "char \<Rightarrow> bool" where
  "is_ascii_digit c = (48 \<le> (of_char c :: nat) \<and> (of_char c :: nat) \<le> 57)"

lemma dec_digits: "c \<in> set (dec n) \<Longrightarrow> is_ascii_digit c"
proof -
  assume "c \<in> set (dec n)"
  then obtain d where "d < 10" and c: "c = digit_char d"
    using set_to_base [of 10 n] by auto
  then have "d \<in> {0, 1, 2, 3, 4, 5, 6, 7, 8, 9}" by simp presburger
  then show ?thesis by (auto simp: c is_ascii_digit_def digit_char_def)
qed

lemma length_to_base: "n < b ^ k \<Longrightarrow> 2 \<le> b \<Longrightarrow> 0 < k \<Longrightarrow> length (to_base b n) \<le> k"
proof (induction b n arbitrary: k rule: to_base.induct)
  case (1 b n)
  show ?case
  proof (cases "n < b")
    case True
    then show ?thesis using 1 by (subst to_base.simps) simp
  next
    case False
    with 1 have "k \<noteq> 1" by auto
    with 1 obtain j where k: "k = Suc j" "0 < j" by (cases k) auto
    with 1 have "n div b < b ^ j"
      by (simp add: less_mult_imp_div_less mult.commute)
    with 1 False k have "length (to_base b (n div b)) \<le> j" by simp
    then show ?thesis using False 1 k by (subst to_base.simps) simp
  qed
qed

section \<open>ASCII classes and simple searches\<close>

definition is_ascii_alphanumeric :: "char \<Rightarrow> bool" where
  "is_ascii_alphanumeric c =
     (let n = of_char c :: nat
      in 48 \<le> n \<and> n \<le> 57 \<or> 65 \<le> n \<and> n \<le> 90 \<or> 97 \<le> n \<and> n \<le> 122)"

definition is_ascii_hexdigit :: "char \<Rightarrow> bool" where
  "is_ascii_hexdigit c =
     (let n = of_char c :: nat
      in 48 \<le> n \<and> n \<le> 57 \<or> 65 \<le> n \<and> n \<le> 70 \<or> 97 \<le> n \<and> n \<le> 102)"

definition to_ascii_lowercase :: "char \<Rightarrow> char" where
  "to_ascii_lowercase c =
     (let n = of_char c :: nat in if 65 \<le> n \<and> n \<le> 90 then char_of (n + 32) else c)"

definition eq_ignore_ascii_case :: "string \<Rightarrow> string \<Rightarrow> bool" where
  "eq_ignore_ascii_case a b = (map to_ascii_lowercase a = map to_ascii_lowercase b)"

definition starts_with :: "string \<Rightarrow> string \<Rightarrow> bool" where
  "starts_with s p = (take (length p) s = p)"

definition ends_with :: "string \<Rightarrow> string \<Rightarrow> bool" where
  "ends_with s p = starts_with (rev s) (rev p)"

fun contains_str :: "string \<Rightarrow> string \<Rightarrow> bool" where
  "contains_str [] p = (p = [])"
| "contains_str (c # s) p = (starts_with (c # s) p \<or> contains_str s p)"

lemma starts_with_iff: "starts_with s p \<longleftrightarrow> (\<exists>t. s = p @ t)"
  unfolding starts_with_def by (metis append_eq_conv_conj append_take_drop_id)

lemma ends_with_iff: "ends_with s p \<longleftrightarrow> (\<exists>t. s = t @ p)"
  unfolding ends_with_def starts_with_iff by (metis rev_append rev_rev_ident)

lemma contains_str_iff: "contains_str s p \<longleftrightarrow> (\<exists>a b. s = a @ p @ b)"
proof (induction s)
  case (Cons c s)
  have "(\<exists>a b. c # s = a @ p @ b) \<longleftrightarrow> (\<exists>b. c # s = p @ b) \<or> (\<exists>a b. s = a @ p @ b)"
    by (metis append_Cons append_Nil list.sel(3) tl_append2)
  with Cons show ?case by (simp add: starts_with_iff)
qed simp

definition join :: "string \<Rightarrow> string list \<Rightarrow> string" where
  "join sep xs = concat (case xs of [] \<Rightarrow> [] | y # ys \<Rightarrow> y # map (\<lambda>s. sep @ s) ys)"

fun split_by :: "('a \<Rightarrow> bool) \<Rightarrow> 'a list \<Rightarrow> 'a list list" where
  "split_by p [] = [[]]"
| "split_by p (x # xs) =
     (if p x then [] # split_by p xs
      else (case split_by p xs of [] \<Rightarrow> [[x]] | w # ws \<Rightarrow> (x # w) # ws))"

section \<open>UTF-8\<close>

text \<open>
  The ranges the following bytes must lie in, for each lead byte (the table of
  well-formed sequences); \<open>None\<close> for a byte that starts no sequence.
\<close>

definition utf8_follow :: "nat \<Rightarrow> (nat \<times> nat) list option" where
  "utf8_follow b =
     (if b < 128 then Some []
      else if b < 194 then None
      else if b < 224 then Some [(128, 191)]
      else if b = 224 then Some [(160, 191), (128, 191)]
      else if b = 237 then Some [(128, 159), (128, 191)]
      else if b < 240 then Some [(128, 191), (128, 191)]
      else if b = 240 then Some [(144, 191), (128, 191), (128, 191)]
      else if b < 244 then Some [(128, 191), (128, 191), (128, 191)]
      else if b = 244 then Some [(128, 143), (128, 191), (128, 191)]
      else None)"

text \<open>
  The next character, or the next maximal invalid part, of a byte string: whether it is
  valid and how many bytes it takes after the lead byte.
\<close>

fun utf8_tail :: "(nat \<times> nat) list \<Rightarrow> string \<Rightarrow> bool \<times> nat" where
  "utf8_tail [] s = (True, 0)"
| "utf8_tail (r # rs) [] = (False, 0)"
| "utf8_tail (r # rs) (c # s) =
     (if fst r \<le> of_char c \<and> of_char c \<le> snd r
      then (case utf8_tail rs s of (ok, n) \<Rightarrow> (ok, Suc n)) else (False, 0))"

definition utf8_next :: "char \<Rightarrow> string \<Rightarrow> bool \<times> nat" where
  "utf8_next c s = (case utf8_follow (of_char c) of None \<Rightarrow> (False, 0) | Some rs \<Rightarrow> utf8_tail rs s)"

fun utf8_chunks :: "string \<Rightarrow> (bool \<times> string) list" where
  "utf8_chunks [] = []"
| "utf8_chunks (c # s) =
     (case utf8_next c s of (ok, n) \<Rightarrow> (ok, c # take n s) # utf8_chunks (drop n s))"

definition utf8_valid :: "string \<Rightarrow> bool" where
  "utf8_valid s = list_all fst (utf8_chunks s)"

definition utf8_chars :: "string \<Rightarrow> string list" where
  "utf8_chars s = map snd (utf8_chunks s)"

text \<open>U+FFFD, the replacement character.\<close>

definition replacement :: string where
  "replacement = [CHR 0xEF, CHR 0xBF, CHR 0xBD]"

definition from_utf8_lossy :: "string \<Rightarrow> string" where
  "from_utf8_lossy s = concat (map (\<lambda>(ok, c). if ok then c else replacement) (utf8_chunks s))"

lemma concat_utf8_chars: "concat (utf8_chars s) = s"
  by (induction s rule: utf8_chunks.induct) (auto simp: utf8_chars_def split: prod.splits)

lemma from_utf8_lossy_valid: "utf8_valid s \<Longrightarrow> from_utf8_lossy s = s"
  by (induction s rule: utf8_chunks.induct)
    (auto simp: utf8_valid_def from_utf8_lossy_def split: prod.splits)

lemma length_from_utf8_lossy: "length (from_utf8_lossy s) \<le> 3 * length s"
proof (induction s rule: utf8_chunks.induct)
  case (2 c s)
  obtain ok n where n: "utf8_next c s = (ok, n)" by (cases "utf8_next c s")
  have "length (from_utf8_lossy (drop n s)) \<le> 3 * (length s - n)"
    using 2 [OF n [symmetric]] by simp
  then show ?case
    by (cases "n \<le> length s") (auto simp: from_utf8_lossy_def n replacement_def)
qed (simp add: from_utf8_lossy_def)

text \<open>The characters with the property \<open>White_Space\<close>, in UTF-8.\<close>

definition white_space :: "string list" where
  "white_space =
     [[CHR 0x09], [CHR 0x0A], [CHR 0x0B], [CHR 0x0C], [CHR 0x0D], [CHR 0x20],
      [CHR 0xC2, CHR 0x85], [CHR 0xC2, CHR 0xA0], [CHR 0xE1, CHR 0x9A, CHR 0x80],
      [CHR 0xE2, CHR 0x80, CHR 0x80], [CHR 0xE2, CHR 0x80, CHR 0x81], [CHR 0xE2, CHR 0x80, CHR 0x82],
      [CHR 0xE2, CHR 0x80, CHR 0x83], [CHR 0xE2, CHR 0x80, CHR 0x84], [CHR 0xE2, CHR 0x80, CHR 0x85],
      [CHR 0xE2, CHR 0x80, CHR 0x86], [CHR 0xE2, CHR 0x80, CHR 0x87], [CHR 0xE2, CHR 0x80, CHR 0x88],
      [CHR 0xE2, CHR 0x80, CHR 0x89], [CHR 0xE2, CHR 0x80, CHR 0x8A], [CHR 0xE2, CHR 0x80, CHR 0xA8],
      [CHR 0xE2, CHR 0x80, CHR 0xA9], [CHR 0xE2, CHR 0x80, CHR 0xAF], [CHR 0xE2, CHR 0x81, CHR 0x9F],
      [CHR 0xE3, CHR 0x80, CHR 0x80]]"

definition is_whitespace :: "string \<Rightarrow> bool" where
  "is_whitespace c = (c \<in> set white_space)"

definition trim :: "string \<Rightarrow> string" where
  "trim s = concat (rev (dropWhile is_whitespace (rev (dropWhile is_whitespace (utf8_chars s)))))"

definition split_whitespace :: "string \<Rightarrow> string list" where
  "split_whitespace s = map concat (filter (\<lambda>w. w \<noteq> []) (split_by is_whitespace (utf8_chars s)))"

text \<open>
  \<open>str::lines\<close>: a final empty piece is no line, and a carriage return directly before a
  line feed belongs to the line ending.
\<close>

definition strip_cr :: "string \<Rightarrow> string" where
  "strip_cr l = (if l \<noteq> [] \<and> last l = CHR 0x0D then butlast l else l)"

definition str_lines :: "string \<Rightarrow> string list" where
  "str_lines s = (let ps = split_by (\<lambda>c. c = CHR 0x0A) s
     in map strip_cr (butlast ps) @ (if last ps = [] then [] else [last ps]))"

lemma length_concat_dropWhile: "length (concat (dropWhile p xs)) \<le> length (concat xs)"
  by (induction xs) auto

lemma length_concat_rev: "length (concat (rev xs)) = length (concat xs)"
  by (simp add: length_concat rev_map [symmetric] sum_list_rev)

lemma length_trim: "length (trim s) \<le> length s"
proof -
  have "length (trim s) \<le> length (concat (rev (dropWhile is_whitespace (utf8_chars s))))"
    using length_concat_dropWhile [of is_whitespace "rev (dropWhile is_whitespace (utf8_chars s))"]
    by (simp add: trim_def length_concat_rev)
  also have "\<dots> \<le> length (concat (utf8_chars s))"
    unfolding length_concat_rev by (rule length_concat_dropWhile)
  finally show ?thesis by (simp add: concat_utf8_chars)
qed

section \<open>Debug formatting of strings\<close>

text \<open>
  \<open>format!("{:?}", s)\<close> for a \<open>str\<close>. Which characters outside ASCII are printable is decided
  by the standard library's Unicode tables; their rendering is the parameter \<open>wide\<close>.
\<close>

definition debug_char :: "(string \<Rightarrow> string) \<Rightarrow> string \<Rightarrow> string" where
  "debug_char wide c =
     (case c of
        [b] \<Rightarrow>
          (let n = of_char b :: nat in
           if n = 0 then [CHR 0x5C, CHR ''0'']
           else if n = 9 then [CHR 0x5C, CHR ''t'']
           else if n = 10 then [CHR 0x5C, CHR ''n'']
           else if n = 13 then [CHR 0x5C, CHR ''r'']
           else if n = 34 \<or> n = 92 then [CHR 0x5C, b]
           else if 32 \<le> n \<and> n < 127 then [b]
           else if n < 128 then CHR 0x5C # ''u{'' @ hex n @ ''}''
           else wide c)
      | _ \<Rightarrow> wide c)"

definition debug_str :: "(string \<Rightarrow> string) \<Rightarrow> string \<Rightarrow> string" where
  "debug_str wide s =
     CHR 0x22 # concat (map (debug_char wide) (utf8_chars s)) @ [CHR 0x22]"

definition debug_strs :: "(string \<Rightarrow> string) \<Rightarrow> string list \<Rightarrow> string" where
  "debug_strs wide xs = ''['' @ join '', '' (map (debug_str wide) xs) @ '']''"

end
