(* ===== verification/Net.thy ===== *)
theory Net
  imports Text
begin

text \<open>
  \<open>std::net::IpAddr\<close> and its \<open>Display\<close>, which is how a source address reaches the ipset
  command lines and the audit log.
\<close>

section \<open>Addresses\<close>

datatype ip_addr = V4 "32 word" | V6 "128 word"

definition octets :: "32 word \<Rightarrow> nat list" where
  "octets w = map (\<lambda>i. unat w div 2 ^ (8 * i) mod 256) [3, 2, 1, 0]"

definition segments :: "128 word \<Rightarrow> nat list" where
  "segments w = map (\<lambda>i. unat w div 2 ^ (16 * i) mod 65536) [7, 6, 5, 4, 3, 2, 1, 0]"

definition ipv4_to_string :: "32 word \<Rightarrow> string" where
  "ipv4_to_string w = join ''.'' (map dec (octets w))"

text \<open>
  \<open>Ipv6Addr\<close> prints a mapped IPv4 address with its dotted form and otherwise compresses the
  first of the longest runs of zero segments, when that run has at least two. The scan keeps
  the current run and the longest one, each as (start, length).
\<close>

fun zero_run :: "nat list \<Rightarrow> nat \<Rightarrow> nat \<times> nat \<Rightarrow> nat \<times> nat \<Rightarrow> nat \<times> nat" where
  "zero_run [] i cur best = best"
| "zero_run (s # ss) i cur best =
     (if s = 0 then
        (let cur' = (if snd cur = 0 then (i, 1) else (fst cur, Suc (snd cur)))
         in zero_run ss (Suc i) cur' (if snd cur' > snd best then cur' else best))
      else zero_run ss (Suc i) (0, 0) best)"

definition fmt_segments :: "nat list \<Rightarrow> string" where
  "fmt_segments ss = join '':'' (map hex ss)"

definition ipv6_to_string :: "128 word \<Rightarrow> string" where
  "ipv6_to_string w =
     (let ss = segments w in
      if take 6 ss = [0, 0, 0, 0, 0, 65535] then ''::ffff:'' @ ipv4_to_string (of_nat (unat w mod 2 ^ 32))
      else (case zero_run ss 0 (0, 0) (0, 0) of (start, n) \<Rightarrow>
        if 1 < n then fmt_segments (take start ss) @ ''::'' @ fmt_segments (drop (start + n) ss)
        else fmt_segments ss))"

fun ip_to_string :: "ip_addr \<Rightarrow> string" where
  "ip_to_string (V4 w) = ipv4_to_string w"
| "ip_to_string (V6 w) = ipv6_to_string w"

definition ipv4 :: "nat \<Rightarrow> nat \<Rightarrow> nat \<Rightarrow> nat \<Rightarrow> ip_addr" where
  "ipv4 a b c d = V4 (of_nat (((a * 256 + b) * 256 + c) * 256 + d))"

section \<open>What the text of an address can hold\<close>

definition addr_char :: "char \<Rightarrow> bool" where
  "addr_char c = (is_ascii_hexdigit c \<or> c = CHR ''.'' \<or> c = CHR '':'')"

lemma digit_char_hex: "d < 16 \<Longrightarrow> is_ascii_hexdigit (digit_char d)"
  by (auto simp: is_ascii_hexdigit_def digit_char_def dest!: less_16_cases)

lemma to_base_addr: "2 \<le> b \<Longrightarrow> b \<le> 16 \<Longrightarrow> c \<in> set (to_base b n) \<Longrightarrow> addr_char c"
  using set_to_base [of b n] digit_char_hex by (fastforce simp: addr_char_def)

lemmas dec_addr = to_base_addr [of 10, simplified]
  and hex_addr = to_base_addr [of 16, simplified]

lemma addr_char_literals [simp]:
  "addr_char CHR '':''" "addr_char CHR ''.''" "addr_char CHR ''f''"
  by (simp_all add: addr_char_def is_ascii_hexdigit_def)

lemma set_join: "c \<in> set (join sep xs) \<Longrightarrow> c \<in> set sep \<or> (\<exists>x\<in>set xs. c \<in> set x)"
  by (auto simp: join_def split: list.splits)

lemma ipv4_chars: "c \<in> set (ipv4_to_string w) \<Longrightarrow> addr_char c"
  unfolding ipv4_to_string_def by (drule set_join) (auto intro: dec_addr)

lemma fmt_segments_chars: "c \<in> set (fmt_segments ss) \<Longrightarrow> addr_char c"
  unfolding fmt_segments_def by (drule set_join) (auto intro: hex_addr)

lemma ip_chars: "c \<in> set (ip_to_string ip) \<Longrightarrow> addr_char c"
  by (cases ip)
    (auto simp: ipv6_to_string_def Let_def ipv4_chars dest: fmt_segments_chars
      split: if_splits prod.splits)

section \<open>The text of an IPv4 address determines it\<close>

lemma split_by_append:
  "\<forall>c\<in>set a. \<not> p c \<Longrightarrow> p s \<Longrightarrow> split_by p (a @ s # b) = a # split_by p b"
  by (induction a) auto

lemma split_by_none: "\<forall>c\<in>set a. \<not> p c \<Longrightarrow> split_by p a = [a]"
  by (induction a) auto

lemma split_join:
  assumes "xs \<noteq> []" and "\<forall>x\<in>set xs. \<forall>c\<in>set x. \<not> p c" and "p s"
  shows "split_by p (join [s] xs) = xs"
  using assms(1,2)
proof (induction xs)
  case (Cons x xs)
  show ?case
  proof (cases xs)
    case Nil
    then show ?thesis using Cons by (simp add: join_def split_by_none)
  next
    case (Cons y ys)
    then have "join [s] (x # xs) = x @ s # join [s] xs" by (simp add: join_def)
    then show ?thesis using Cons Cons.prems Cons.IH assms(3)
      by (simp add: split_by_append)
  qed
qed simp

lemma dec_no_dot: "c \<in> set (dec n) \<Longrightarrow> c \<noteq> CHR ''.''"
  using dec_digits [of c n] by (auto simp: is_ascii_digit_def)

lemma bytes_of_nat:
  assumes "n < 4294967296"
  shows "((n div 16777216 mod 256 * 256 + n div 65536 mod 256) * 256 + n div 256 mod 256) * 256
    + n mod 256 = (n :: nat)"
proof -
  have "n div 16777216 < 256" using assms by (simp add: less_mult_imp_div_less)
  moreover have "n div 65536 div 256 = n div 16777216" and "n div 256 div 256 = n div 65536"
    by (simp_all add: div_mult2_eq [symmetric])
  ultimately show ?thesis
    using div_mult_mod_eq [of n 256] div_mult_mod_eq [of "n div 256" 256]
      div_mult_mod_eq [of "n div 65536" 256] by simp
qed

lemma octets_inj: "octets v = octets w \<Longrightarrow> v = w"
proof -
  have sum: "unat (x :: 32 word) =
      ((unat x div 16777216 mod 256 * 256 + unat x div 65536 mod 256) * 256
        + unat x div 256 mod 256) * 256 + unat x mod 256" for x
    by (rule bytes_of_nat [symmetric], rule order_less_le_trans [OF unsigned_less]) simp
  assume "octets v = octets w"
  then have "unat v div 16777216 mod 256 = unat w div 16777216 mod 256"
    and "unat v div 65536 mod 256 = unat w div 65536 mod 256"
    and "unat v div 256 mod 256 = unat w div 256 mod 256"
    and "unat v mod 256 = unat w mod 256"
    by (simp_all add: octets_def)
  then have "unat v = unat w"
    using sum [of v] sum [of w] by metis
  then show ?thesis by (rule unsigned_word_eqI)
qed

lemma ipv4_to_string_inj: "ipv4_to_string v = ipv4_to_string w \<Longrightarrow> v = w"
proof -
  have split: "split_by (\<lambda>c. c = CHR ''.'') (ipv4_to_string x) = map dec (octets x)" for x
    unfolding ipv4_to_string_def
    by (rule split_join) (auto simp: octets_def dest: dec_no_dot)
  assume "ipv4_to_string v = ipv4_to_string w"
  then have "map dec (octets v) = map dec (octets w)"
    using split [of v] split [of w] by simp
  moreover have "inj dec" by (rule injI) simp
  ultimately have "octets v = octets w" using map_injective by blast
  then show ?thesis by (rule octets_inj)
qed

end
