(* ===== verification/Effects.thy ===== *)
theory Effects
  imports Net
begin

text \<open>
  The operating system as the daemon sees it. Every call the sources make to the outside
  (commands, files, clocks, sockets, the audit log) is answered by a record \<open>os\<close> of functions
  of the transcript so far, and is appended to the transcript together with its answer. Such
  a record can behave in any way, so a theorem for all of them holds for every environment.
  The state of a component extends \<open>world\<close> by a record field, so that the operations of one
  component run unchanged inside a larger one.
\<close>

section \<open>Calls and their answers\<close>

datatype error_kind = WouldBlock | TimedOut | OtherKind

datatype io_error = IoError error_kind string

fun error_kind_of :: "io_error \<Rightarrow> error_kind" where
  "error_kind_of (IoError k t) = k"

fun error_text :: "io_error \<Rightarrow> string" where
  "error_text (IoError k t) = t"

text \<open>\<open>std::process::Output\<close>; \<open>out_status\<close> is the \<open>Display\<close> of its exit status.\<close>

record cmd_output =
  out_success :: bool
  out_code :: "int option"
  out_status :: string
  out_stdout :: string
  out_stderr :: string

type_synonym socket_addr = "ip_addr \<times> u16"

datatype socket = UdpSocket u16 | TcpListener u16 | TcpStream nat | IcmpSocket bool

datatype event =
    Exec string "string list" "io_error + cmd_output"
  | ReadFile string "io_error + string"
  | CreateDirAll string "io_error option"
  | OpenAppend string "io_error option"
  | Audit string "io_error option"
  | UnixTime "nat option"
  | ClockRead instant
  | MakeDir string nat "io_error option"
  | RemoveDir string "io_error option"
  | ProcessId nat
  | Print string
  | Open socket string "io_error option"
  | SetNonblocking socket "io_error option"
  | RecvUdp u16 "io_error + (nat \<times> socket_addr)"
  | AcceptTcp u16 "io_error + (nat \<times> socket_addr)"
  | ReadTcp nat "io_error + nat"
  | RecvIcmp "io_error + (nat \<times> socket_addr option)"
  | Sleep duration

type_synonym transcript = "event list"

record os =
  os_exec :: "transcript \<Rightarrow> string \<Rightarrow> string list \<Rightarrow> io_error + cmd_output"
  os_read :: "transcript \<Rightarrow> string \<Rightarrow> io_error + string"
  os_mkdirs :: "transcript \<Rightarrow> string \<Rightarrow> io_error option"
  os_open_append :: "transcript \<Rightarrow> string \<Rightarrow> io_error option"
  os_write :: "transcript \<Rightarrow> string \<Rightarrow> io_error option"
  os_unix :: "transcript \<Rightarrow> nat option"
  os_now :: "transcript \<Rightarrow> instant"
  os_mkdir :: "transcript \<Rightarrow> string \<Rightarrow> nat \<Rightarrow> io_error option"
  os_rmdir :: "transcript \<Rightarrow> string \<Rightarrow> io_error option"
  os_pid :: "transcript \<Rightarrow> nat"
  os_socket :: "transcript \<Rightarrow> socket \<Rightarrow> string \<Rightarrow> io_error option"
  os_nonblocking :: "transcript \<Rightarrow> socket \<Rightarrow> io_error option"
  os_recv_udp :: "transcript \<Rightarrow> u16 \<Rightarrow> io_error + (nat \<times> socket_addr)"
  os_accept :: "transcript \<Rightarrow> u16 \<Rightarrow> io_error + (nat \<times> socket_addr)"
  os_read_tcp :: "transcript \<Rightarrow> nat \<Rightarrow> io_error + nat"
  os_recv_icmp :: "transcript \<Rightarrow> io_error + (nat \<times> socket_addr option)"
  os_debug_wide :: "string \<Rightarrow> string"

text \<open>\<open>Instant::now\<close> never goes back: the documented contract of the monotonic clock.\<close>

definition monotonic :: "os \<Rightarrow> bool" where
  "monotonic os = (\<forall>h es. os_now os h \<le> os_now os (h @ es))"

section \<open>State passing with failures\<close>

record world =
  hist :: transcript

type_synonym ('s, 'a) io = "'s \<Rightarrow> 'a result \<times> 's"

definition ret :: "'a \<Rightarrow> ('s, 'a) io" where
  "ret x = (\<lambda>s. (Inr x, s))"

definition throw :: "failure \<Rightarrow> ('s, 'a) io" where
  "throw e = (\<lambda>s. (Inl e, s))"

definition of_result :: "'a result \<Rightarrow> ('s, 'a) io" where
  "of_result r = (\<lambda>s. (r, s))"

definition bind_io :: "('s, 'a) io \<Rightarrow> ('a \<Rightarrow> ('s, 'b) io) \<Rightarrow> ('s, 'b) io" where
  "bind_io m f = (\<lambda>s. case m s of (Inl e, s') \<Rightarrow> (Inl e, s') | (Inr x, s') \<Rightarrow> f x s')"

definition seq_io :: "('s, 'a) io \<Rightarrow> ('s, 'b) io \<Rightarrow> ('s, 'b) io" where
  "seq_io m k = bind_io m (\<lambda>_. k)"

text \<open>\<open>match r { Ok(x) => .., Err(e) => .. }\<close>: an error becomes a value, a panic does not.\<close>

definition attempt :: "('s, 'a) io \<Rightarrow> ('s, string + 'a) io" where
  "attempt m = (\<lambda>s. case m s of
       (Inl (Err e), s') \<Rightarrow> (Inr (Inl e), s')
     | (Inl (Panic e), s') \<Rightarrow> (Inl (Panic e), s')
     | (Inr x, s') \<Rightarrow> (Inr (Inr x), s'))"

definition gets :: "('s \<Rightarrow> 'a) \<Rightarrow> ('s, 'a) io" where
  "gets f = (\<lambda>s. (Inr (f s), s))"

definition update :: "('s \<Rightarrow> 's) \<Rightarrow> ('s, unit) io" where
  "update f = (\<lambda>s. (Inr (), f s))"

lemmas io_defs = ret_def throw_def of_result_def gets_def update_def

lemma bind_ret [simp]: "bind_io (ret x) f = f x"
  by (simp add: bind_io_def ret_def)

lemma bind_throw [simp]: "bind_io (throw e) f = throw e"
  by (simp add: bind_io_def throw_def)

lemma bind_assoc: "bind_io (bind_io m f) g = bind_io m (\<lambda>x. bind_io (f x) g)"
  by (auto simp: bind_io_def split: prod.splits sum.splits)

lemma bind_io_cases:
  assumes "bind_io m f s = (r, t)"
  obtains (fail) e where "m s = (Inl e, t)" and "r = Inl e"
    | (ok) x s' where "m s = (Inr x, s')" and "f x s' = (r, t)"
  using assms by (auto simp: bind_io_def split: prod.splits sum.splits)

lemma bind_io_Inr:
  assumes "bind_io m f s = (Inr u, t)"
  obtains x s' where "m s = (Inr x, s')" and "f x s' = (Inr u, t)"
  using assms by (auto elim: bind_io_cases)

section \<open>The calls\<close>

definition call :: "(transcript \<Rightarrow> 'r) \<Rightarrow> ('r \<Rightarrow> event) \<Rightarrow> ('z world_scheme, 'r) io" where
  "call ask ev = (\<lambda>w. (Inr (ask (hist w)), w\<lparr>hist := hist w @ [ev (ask (hist w))]\<rparr>))"

definition exec :: "os \<Rightarrow> string \<Rightarrow> string list \<Rightarrow> ('z world_scheme, io_error + cmd_output) io" where
  "exec os p a = call (\<lambda>h. os_exec os h p a) (Exec p a)"

definition instant_now :: "os \<Rightarrow> ('z world_scheme, instant) io" where
  "instant_now os = call (os_now os) ClockRead"

definition unix_time :: "os \<Rightarrow> ('z world_scheme, nat option) io" where
  "unix_time os = call (os_unix os) UnixTime"

definition read_file :: "os \<Rightarrow> string \<Rightarrow> ('z world_scheme, io_error + string) io" where
  "read_file os p = call (\<lambda>h. os_read os h p) (ReadFile p)"

definition write_audit :: "os \<Rightarrow> string \<Rightarrow> ('z world_scheme, io_error option) io" where
  "write_audit os l = call (\<lambda>h. os_write os h l) (Audit l)"

definition println :: "string \<Rightarrow> ('z world_scheme, unit) io" where
  "println l = call (\<lambda>h. ()) (\<lambda>_. Print l)"

text \<open>
  \<open>x.context(msg)?\<close> on an answer of the operating system: the failure shows the context.
\<close>

definition or_fail :: "string \<Rightarrow> io_error + 'a \<Rightarrow> ('s, 'a) io" where
  "or_fail msg r = (case r of Inl e \<Rightarrow> throw (Err msg) | Inr x \<Rightarrow> ret x)"

definition none_or_fail :: "string \<Rightarrow> io_error option \<Rightarrow> ('s, unit) io" where
  "none_or_fail msg r = (case r of Some e \<Rightarrow> throw (Err msg) | None \<Rightarrow> ret ())"

section \<open>What a computation writes to the transcript\<close>

text \<open>
  \<open>emits P m\<close>: \<open>m\<close> only appends to the transcript, and only events that satisfy \<open>P\<close>.
  \<open>frame m\<close>: \<open>m\<close> leaves the rest of the state alone.
\<close>

named_theorems emits_intros

definition emits :: "(event \<Rightarrow> bool) \<Rightarrow> ('z world_scheme, 'a) io \<Rightarrow> bool" where
  "emits P m = (\<forall>w. \<exists>es. hist (snd (m w)) = hist w @ es \<and> list_all P es)"

definition frame :: "('z world_scheme, 'a) io \<Rightarrow> bool" where
  "frame m = (\<forall>w. world.more (snd (m w)) = world.more w)"

lemma emitsD: "emits P m \<Longrightarrow> m w = (r, w') \<Longrightarrow> \<exists>es. hist w' = hist w @ es \<and> list_all P es"
  by (metis emits_def snd_conv)

lemma emits_appends: "emits P m \<Longrightarrow> \<exists>es. hist (snd (m w)) = hist w @ es"
  unfolding emits_def by blast

lemma frameD: "frame m \<Longrightarrow> m w = (r, w') \<Longrightarrow> world.more w' = world.more w"
  by (metis frame_def snd_conv)

lemma emits_mono: "emits P m \<Longrightarrow> (\<And>e. P e \<Longrightarrow> Q e) \<Longrightarrow> emits Q m"
  unfolding emits_def by (metis (mono_tags, lifting) list.pred_mono_strong)

lemma emits_bind_value:
  assumes "emits P m" and "\<And>x w w'. m w = (Inr x, w') \<Longrightarrow> emits P (f x)"
  shows "emits P (bind_io m f)"
  unfolding emits_def
proof
  fix w
  obtain r w' where m: "m w = (r, w')" by (cases "m w")
  from emitsD [OF assms(1) m] obtain es where es: "hist w' = hist w @ es" "list_all P es" by auto
  show "\<exists>es. hist (snd (bind_io m f w)) = hist w @ es \<and> list_all P es"
  proof (cases r)
    case (Inl e)
    with m es show ?thesis by (auto simp: bind_io_def)
  next
    case (Inr x)
    obtain es' where "hist (snd (f x w')) = hist w' @ es'" "list_all P es'"
      using assms(2) m Inr unfolding emits_def by blast
    with m es Inr show ?thesis by (auto simp: bind_io_def)
  qed
qed

lemma emits_bind [emits_intros]: "emits P m \<Longrightarrow> (\<And>x. emits P (f x)) \<Longrightarrow> emits P (bind_io m f)"
  by (rule emits_bind_value)

lemma emits_leaf [emits_intros]:
  "emits P (ret x)" "emits P (throw e)" "emits P (of_result r)" "emits P (gets g)"
  by (simp_all add: emits_def io_defs)

lemma emits_call [emits_intros]: "(\<And>r. P (ev r)) \<Longrightarrow> emits P (call ask ev)"
  by (simp add: emits_def call_def)

lemma emits_seq [emits_intros]: "emits P m \<Longrightarrow> emits P k \<Longrightarrow> emits P (seq_io m k)"
  by (simp add: seq_io_def emits_bind)

lemma emits_attempt [emits_intros]: "emits P m \<Longrightarrow> emits P (attempt m)"
  unfolding emits_def attempt_def
  by (auto split: prod.splits sum.splits failure.splits) (metis snd_conv)+

lemma emits_or_fail [emits_intros]: "emits P (or_fail msg r)" "emits P (none_or_fail msg r')"
  by (auto simp: or_fail_def none_or_fail_def intro: emits_leaf split: sum.splits option.splits)

lemma frame_bind: "frame m \<Longrightarrow> (\<And>x. frame (f x)) \<Longrightarrow> frame (bind_io m f)"
  unfolding frame_def bind_io_def
  by (auto split: prod.splits sum.splits) (metis snd_conv)+

lemma frame_leaf: "frame (ret x)" "frame (throw e)" "frame (of_result r)" "frame (gets g)"
  "frame (call ask ev)"
  by (simp_all add: frame_def io_defs call_def)

lemma frame_seq: "frame m \<Longrightarrow> frame k \<Longrightarrow> frame (seq_io m k)"
  by (simp add: seq_io_def frame_bind)

lemma frame_attempt: "frame m \<Longrightarrow> frame (attempt m)"
  unfolding frame_def attempt_def
  by (auto split: prod.splits sum.splits failure.splits) (metis snd_conv)+

lemma frame_or_fail: "frame (or_fail msg r)" "frame (none_or_fail msg r')"
  by (auto simp: or_fail_def none_or_fail_def intro: frame_leaf split: sum.splits option.splits)

lemmas frame_intros = frame_bind frame_leaf frame_seq frame_attempt frame_or_fail

section \<open>What precedes an event\<close>

text \<open>
  \<open>guards P Q h\<close>: in the transcript \<open>h\<close>, every event that satisfies \<open>P\<close> stands in relation
  \<open>Q\<close> to the transcript before it. \<open>upholds I m\<close>: \<open>m\<close> keeps the property \<open>I\<close> of the state,
  whether it fails or not.
\<close>

definition guards :: "(event \<Rightarrow> bool) \<Rightarrow> (transcript \<Rightarrow> event \<Rightarrow> bool) \<Rightarrow> transcript \<Rightarrow> bool" where
  "guards P Q h = (\<forall>h1 e h2. h = h1 @ e # h2 \<longrightarrow> P e \<longrightarrow> Q h1 e)"

lemma guards_Nil [simp]: "guards P Q []"
  by (simp add: guards_def)

lemma guards_snoc: "guards P Q (h @ [e]) \<longleftrightarrow> guards P Q h \<and> (P e \<longrightarrow> Q h e)"
proof
  assume l: "guards P Q (h @ [e])"
  have "Q h1 x" if "h = h1 @ x # h2" "P x" for h1 x h2
    using l that unfolding guards_def by (metis append_Cons append_assoc)
  moreover have "P e \<longrightarrow> Q h e"
    using l unfolding guards_def by (metis append_Nil)
  ultimately show "guards P Q h \<and> (P e \<longrightarrow> Q h e)"
    by (auto simp: guards_def)
next
  assume r: "guards P Q h \<and> (P e \<longrightarrow> Q h e)"
  have "Q h1 x" if "h @ [e] = h1 @ x # h2" "P x" for h1 x h2
  proof (cases h2 rule: rev_cases)
    case Nil
    then show ?thesis using that r by simp
  next
    case (snoc g y)
    then show ?thesis using that r by (auto simp: guards_def)
  qed
  then show "guards P Q (h @ [e])" by (auto simp: guards_def)
qed

lemma guards_append_none: "guards P Q h \<Longrightarrow> list_all (\<lambda>e. \<not> P e) es \<Longrightarrow> guards P Q (h @ es)"
proof (induction es rule: rev_induct)
  case (snoc e es)
  then show ?case
    using guards_snoc [of P Q "h @ es" e] by simp
qed simp

lemma guardsD: "guards P Q (h1 @ e # h2) \<Longrightarrow> P e \<Longrightarrow> Q h1 e"
  by (simp add: guards_def)

definition upholds :: "('s \<Rightarrow> bool) \<Rightarrow> ('s, 'a) io \<Rightarrow> bool" where
  "upholds I m = (\<forall>s. I s \<longrightarrow> I (snd (m s)))"

lemma upholdsD: "upholds I m \<Longrightarrow> m s = (r, s') \<Longrightarrow> I s \<Longrightarrow> I s'"
  by (metis upholds_def snd_conv)

lemma upholds_guards:
  assumes "emits (\<lambda>e. \<not> P e) m"
  shows "upholds (\<lambda>w. guards P Q (hist w)) m"
  unfolding upholds_def
proof (intro allI impI)
  fix w :: "'a world_scheme"
  assume w: "guards P Q (hist w)"
  obtain es where "hist (snd (m w)) = hist w @ es" "list_all (\<lambda>e. \<not> P e) es"
    using assms unfolding emits_def by blast
  with w show "guards P Q (hist (snd (m w)))" by (simp add: guards_append_none)
qed

lemma upholds_bind: "upholds I m \<Longrightarrow> (\<And>x. upholds I (f x)) \<Longrightarrow> upholds I (bind_io m f)"
  unfolding upholds_def bind_io_def by (fastforce split: prod.splits sum.splits)

lemma upholds_attempt: "upholds I m \<Longrightarrow> upholds I (attempt m)"
  unfolding upholds_def attempt_def by (fastforce split: prod.splits sum.splits failure.splits)

lemma upholds_leaf: "upholds I (ret x)" "upholds I (throw e)" "upholds I (of_result r)" "upholds I (gets g)"
  "upholds I (or_fail msg r')" "upholds I (none_or_fail msg r'')"
  by (auto simp: upholds_def io_defs or_fail_def none_or_fail_def split: sum.splits option.splits)

lemmas upholds_intros = upholds_bind upholds_attempt upholds_leaf

text \<open>
  \<open>triple P m Q E\<close>: from a state in \<open>P\<close>, \<open>m\<close> succeeds with \<open>Q\<close> for its value and state, or
  fails in a state in \<open>E\<close>.
\<close>

definition triple ::
  "('s \<Rightarrow> bool) \<Rightarrow> ('s, 'a) io \<Rightarrow> ('a \<Rightarrow> 's \<Rightarrow> bool) \<Rightarrow> ('s \<Rightarrow> bool) \<Rightarrow> bool" where
  "triple P m Q E =
     (\<forall>s. P s \<longrightarrow> (case fst (m s) of Inl e \<Rightarrow> E (snd (m s)) | Inr x \<Rightarrow> Q x (snd (m s))))"

lemma triple_ok: "triple P m Q E \<Longrightarrow> P s \<Longrightarrow> m s = (Inr x, s') \<Longrightarrow> Q x s'"
  by (auto simp: triple_def dest: spec [of _ s])

lemma triple_fail: "triple P m Q E \<Longrightarrow> P s \<Longrightarrow> m s = (Inl e, s') \<Longrightarrow> E s'"
  by (auto simp: triple_def dest: spec [of _ s])

lemma tripleI:
  assumes "\<And>s x s'. P s \<Longrightarrow> m s = (Inr x, s') \<Longrightarrow> Q x s'"
    and "\<And>s e s'. P s \<Longrightarrow> m s = (Inl e, s') \<Longrightarrow> E s'"
  shows "triple P m Q E"
  unfolding triple_def using assms by (auto split: sum.split) (metis prod.collapse)+

lemma triple_bind:
  assumes "triple P m Q E" and "\<And>x. triple (Q x) (f x) R E"
  shows "triple P (bind_io m f) R E"
proof (rule tripleI)
  fix s x s'
  assume "P s" and "bind_io m f s = (Inr x, s')"
  then show "R x s'"
    using assms by (elim bind_io_Inr) (blast dest: triple_ok)
next
  fix s e s'
  assume "P s" and "bind_io m f s = (Inl e, s')"
  then show "E s'"
    using assms by (elim bind_io_cases) (blast dest: triple_ok triple_fail)+
qed

lemma triple_weaken:
  "triple P m Q E \<Longrightarrow> (\<And>s. P' s \<Longrightarrow> P s) \<Longrightarrow> (\<And>x s. Q x s \<Longrightarrow> Q' x s) \<Longrightarrow> (\<And>s. E s \<Longrightarrow> E' s)
    \<Longrightarrow> triple P' m Q' E'"
  unfolding triple_def by (fastforce split: sum.splits)

lemma triple_ret: "(\<And>s. P s \<Longrightarrow> Q x s) \<Longrightarrow> triple P (ret x) Q E"
  by (simp add: triple_def ret_def)

lemma triple_throw: "(\<And>s. P s \<Longrightarrow> E s) \<Longrightarrow> triple P (throw e) Q E"
  by (simp add: triple_def throw_def)

lemma triple_upholds: "upholds I m \<Longrightarrow> (\<And>s. I s \<Longrightarrow> E s) \<Longrightarrow> triple I m (\<lambda>_. I) E"
  unfolding triple_def upholds_def by (simp split: sum.split)

lemma triple_inv:
  assumes "\<And>s. P s \<Longrightarrow> I (snd (m s))" and "\<And>s. I s \<Longrightarrow> E s"
  shows "triple P m (\<lambda>_. I) E"
  unfolding triple_def using assms by (simp split: sum.split)

lemma triple_if: "(c \<Longrightarrow> triple P m Q E) \<Longrightarrow> (\<not> c \<Longrightarrow> triple P n Q E) \<Longrightarrow> triple P (if c then m else n) Q E"
  by simp

lemma triple_pre: "(\<And>s. P s \<Longrightarrow> triple (\<lambda>t. t = s) m Q E) \<Longrightarrow> triple P m Q E"
  by (simp add: triple_def)

lemma triple_attempt:
  assumes "triple P m Q E"
  shows "triple P (attempt m) (\<lambda>r. case r of Inl e \<Rightarrow> E | Inr x \<Rightarrow> Q x) E"
  using assms unfolding triple_def attempt_def
  by (fastforce split: prod.splits sum.splits failure.splits)

text \<open>A computation that cannot panic.\<close>

definition calm :: "('s, 'a) io \<Rightarrow> bool" where
  "calm m = (\<forall>s e. fst (m s) \<noteq> Inl (Panic e))"

lemma calm_bind: "calm m \<Longrightarrow> (\<And>x. calm (f x)) \<Longrightarrow> calm (bind_io m f)"
  unfolding calm_def bind_io_def by (auto split: prod.splits sum.splits) (metis fst_conv)+

lemma calm_leaf: "calm (ret x)" "calm (throw (Err e))" "calm (gets g)" "calm (call ask ev)"
  "calm (or_fail msg r')" "calm (none_or_fail msg r'')" "calm (of_result (Inr x))"
  "calm (of_result (Inl (Err e)))"
  by (auto simp: calm_def io_defs call_def or_fail_def none_or_fail_def split: sum.splits option.splits)

lemmas calm_intros = calm_bind calm_leaf

section \<open>A quiet environment\<close>

text \<open>
  Every call succeeds, nothing is received, and the clock stands still: a concrete environment
  on which theorems can be applied.
\<close>

definition ok_output :: cmd_output where
  "ok_output = \<lparr> out_success = True, out_code = Some 0, out_status = ''exit status: 0'',
     out_stdout = [], out_stderr = [] \<rparr>"

definition would_block :: io_error where
  "would_block = IoError WouldBlock ''Resource temporarily unavailable (os error 11)''"

definition quiet_os :: os where
  "quiet_os =
     \<lparr> os_exec = \<lambda>h p a. Inr ok_output, os_read = \<lambda>h p. Inr ''text'', os_mkdirs = \<lambda>h p. None,
       os_open_append = \<lambda>h p. None, os_write = \<lambda>h l. None, os_unix = \<lambda>h. Some 1700000000,
       os_now = \<lambda>h. 0, os_mkdir = \<lambda>h d n. None, os_rmdir = \<lambda>h d. None, os_pid = \<lambda>h. 42,
       os_socket = \<lambda>h k a. None, os_nonblocking = \<lambda>h k. None,
       os_recv_udp = \<lambda>h p. Inl would_block, os_accept = \<lambda>h p. Inl would_block,
       os_read_tcp = \<lambda>h s. Inl would_block, os_recv_icmp = \<lambda>h. Inl would_block,
       os_debug_wide = \<lambda>s. s \<rparr>"

end
