(* ===== verification/Config.thy ===== *)
theory Config
  imports Effects
begin

text \<open>
  \<open>src/config.rs\<close>: the configuration structures, the defaults that serde fills in, and
  \<open>Config::validate\<close> with the declarative reading of what it accepts. The TOML parser with
  the derived deserializer is a parameter that yields the fields found in the file, already
  typed and with unknown fields rejected (\<open>deny_unknown_fields\<close>).
\<close>

section \<open>Data\<close>

datatype protocol = Tcp | Udp | Icmp

datatype firewall_backend = Iptables | Ip6tables

datatype address_family = Ipv4 | Ipv6

record knock_step =
  step_protocol :: protocol
  step_port :: "u16 option"
  step_size :: usize

record knock_section =
  sequence :: "knock_step list"

record config =
  listen :: string
  ssh_port :: u16
  ipset_name :: string
  firewall_backend :: firewall_backend
  address_family :: address_family
  sequence_window :: u64
  ip_timeout :: u64
  partial_state_timeout :: u64
  max_partial_states :: usize
  max_payload_size :: usize
  log_level :: string
  log_file :: string
  invalid_burst_limit :: u32
  invalid_refill_per_minute :: u32
  ban_timeout :: u64
  ban_ipset_name :: string
  knock :: knock_section

text \<open>The fields as the file has them: those with a \<open>serde(default)\<close> may be missing.\<close>

record raw_config =
  raw_listen :: string
  raw_ssh_port :: u16
  raw_ipset_name :: string
  raw_firewall_backend :: "firewall_backend option"
  raw_address_family :: "address_family option"
  raw_sequence_window :: "u64 option"
  raw_ip_timeout :: "u64 option"
  raw_partial_state_timeout :: "u64 option"
  raw_max_partial_states :: "usize option"
  raw_max_payload_size :: "usize option"
  raw_log_level :: "string option"
  raw_log_file :: "string option"
  raw_invalid_burst_limit :: "u32 option"
  raw_invalid_refill_per_minute :: "u32 option"
  raw_ban_timeout :: "u64 option"
  raw_ban_ipset_name :: "string option"
  raw_knock :: knock_section

definition or_default :: "'a option \<Rightarrow> 'a \<Rightarrow> 'a" where
  "or_default x d = (case x of None \<Rightarrow> d | Some y \<Rightarrow> y)"

text \<open>The constants of the serde defaults.\<close>

definition default_sequence_window :: u64 where [simp]: "default_sequence_window = 5"
definition default_ip_timeout :: u64 where [simp]: "default_ip_timeout = 10"
definition default_partial_state_timeout :: u64 where [simp]: "default_partial_state_timeout = 10"
definition default_max_partial_states :: usize where [simp]: "default_max_partial_states = 4096"
definition default_max_payload_size :: usize where [simp]: "default_max_payload_size = 512"
definition default_invalid_burst_limit :: u32 where [simp]: "default_invalid_burst_limit = 20"
definition default_invalid_refill_per_minute :: u32 where [simp]: "default_invalid_refill_per_minute = 10"
definition default_ban_timeout :: u64 where [simp]: "default_ban_timeout = 86400"

definition config_of_raw :: "raw_config \<Rightarrow> config" where
  "config_of_raw r =
    \<lparr> listen = raw_listen r,
      ssh_port = raw_ssh_port r,
      ipset_name = raw_ipset_name r,
      firewall_backend = or_default (raw_firewall_backend r) Iptables,
      address_family = or_default (raw_address_family r) Ipv4,
      sequence_window = or_default (raw_sequence_window r) default_sequence_window,
      ip_timeout = or_default (raw_ip_timeout r) default_ip_timeout,
      partial_state_timeout = or_default (raw_partial_state_timeout r) default_partial_state_timeout,
      max_partial_states = or_default (raw_max_partial_states r) default_max_partial_states,
      max_payload_size = or_default (raw_max_payload_size r) default_max_payload_size,
      log_level = or_default (raw_log_level r) ''info'',
      log_file = or_default (raw_log_file r) ''/var/log/sshknockd/sshknockd.log'',
      invalid_burst_limit = or_default (raw_invalid_burst_limit r) default_invalid_burst_limit,
      invalid_refill_per_minute = or_default (raw_invalid_refill_per_minute r) default_invalid_refill_per_minute,
      ban_timeout = or_default (raw_ban_timeout r) default_ban_timeout,
      ban_ipset_name = or_default (raw_ban_ipset_name r) ''sshknockd_ban'',
      knock = raw_knock r \<rparr>"

section \<open>Validation\<close>

definition ipset_char :: "char \<Rightarrow> bool" where
  "ipset_char b =
     (is_ascii_alphanumeric b \<or> b = CHR ''_'' \<or> b = CHR ''.'' \<or> b = CHR '':'' \<or> b = CHR ''-'')"

definition validate_ipset_name :: "string \<Rightarrow> unit result" where
  "validate_ipset_name name =
     (if name = [] \<or> length name > 31
      then Inl (Err ''ipset_name length must be between 1 and 31 characters'')
      else if \<not> list_all ipset_char name
      then Inl (Err ''ipset_name contains invalid characters'')
      else Inr ())"

text \<open>The loop over the steps; \<open>ports\<close> is the vector of the ports seen so far.\<close>

fun validate_steps :: "config \<Rightarrow> u16 list \<Rightarrow> knock_step list \<Rightarrow> unit result" where
  "validate_steps c ports [] = Inr ()"
| "validate_steps c ports (step # steps) =
     (if step_size step = 0 \<or> step_size step > max_payload_size c
      then Inl (Err ''knock step size must be between 1 and max_payload_size'')
      else if step_protocol step = Icmp then
        (if step_port step \<noteq> None then Inl (Err ''icmp knock steps must not define a port'')
         else validate_steps c ports steps)
      else
        and_then (context_opt (step_port step) ''tcp and udp knock steps require a port'') (\<lambda>port.
          if port = 0 then Inl (Err ''tcp and udp knock step ports must be greater than zero'')
          else if port = ssh_port c then Inl (Err ''ssh_port must not overlap knock listener ports'')
          else if List.member ports port
          then Inl (Err ''knock ports must be unique within the active sequence'')
          else validate_steps c (ports @ [port]) steps))"

definition validate :: "config \<Rightarrow> unit result" where
  "validate c =
     (if length (sequence (knock c)) < 3
      then Inl (Err ''knock sequence must contain at least three steps'')
      else if sequence_window c = 0 \<or> sequence_window c > 60
      then Inl (Err ''sequence_window must be between 1 and 60 seconds'')
      else if partial_state_timeout c = 0
      then Inl (Err ''partial_state_timeout must be greater than zero'')
      else if max_partial_states c = 0
      then Inl (Err ''max_partial_states must be greater than zero'')
      else if ip_timeout c = 0
      then Inl (Err ''ip_timeout must be greater than zero'')
      else if max_payload_size c = 0
      then Inl (Err ''max_payload_size must be greater than zero'')
      else
        and_then (validate_ipset_name (ipset_name c)) (\<lambda>_.
        and_then (validate_ipset_name (ban_ipset_name c)) (\<lambda>_.
          if invalid_burst_limit c = 0 \<or> invalid_refill_per_minute c = 0
          then Inl (Err ''invalid rate limit values must be greater than zero'')
          else if ban_timeout c = 0
          then Inl (Err ''ban_timeout must be greater than zero'')
          else validate_steps c [] (sequence (knock c)))))"

text \<open>
  \<open>Config::from_path\<close>. \<open>read_to_string\<close> also fails on a file that is not UTF-8.
\<close>

definition from_path ::
  "os \<Rightarrow> (string \<Rightarrow> raw_config option) \<Rightarrow> string \<Rightarrow> ('z world_scheme, config) io" where
  "from_path os parse path =
     bind_io (read_file os path) (\<lambda>r.
     bind_io (or_fail (''failed to read config file '' @ path) r) (\<lambda>raw.
     if \<not> utf8_valid raw then throw (Err (''failed to read config file '' @ path))
     else (case parse raw of
         None \<Rightarrow> throw (Err ''failed to parse config file'')
       | Some doc \<Rightarrow>
           bind_io (of_result (validate (config_of_raw doc))) (\<lambda>_.
             ret (config_of_raw doc)))))"

section \<open>What is accepted\<close>

definition valid_ipset_name :: "string \<Rightarrow> bool" where
  "valid_ipset_name name =
     (1 \<le> length name \<and> length name \<le> 31 \<and> (\<forall>b\<in>set name. ipset_char b))"

text \<open>The TCP and UDP ports of a sequence, in order.\<close>

definition listener_ports :: "knock_step list \<Rightarrow> u16 list" where
  "listener_ports steps = concat (map (\<lambda>s. if step_protocol s = Icmp then []
     else case step_port s of None \<Rightarrow> [] | Some p \<Rightarrow> [p]) steps)"

definition valid_step :: "config \<Rightarrow> knock_step \<Rightarrow> bool" where
  "valid_step c s =
     (0 < step_size s \<and> step_size s \<le> max_payload_size c
      \<and> (case step_protocol s of
           Icmp \<Rightarrow> step_port s = None
         | _ \<Rightarrow> (\<exists>p. step_port s = Some p \<and> p \<noteq> 0 \<and> p \<noteq> ssh_port c)))"

definition valid_config :: "config \<Rightarrow> bool" where
  "valid_config c =
     (3 \<le> length (sequence (knock c))
      \<and> 1 \<le> sequence_window c \<and> sequence_window c \<le> 60
      \<and> 0 < partial_state_timeout c \<and> 0 < max_partial_states c \<and> 0 < ip_timeout c
      \<and> 0 < max_payload_size c \<and> valid_ipset_name (ipset_name c)
      \<and> valid_ipset_name (ban_ipset_name c) \<and> 0 < invalid_burst_limit c
      \<and> 0 < invalid_refill_per_minute c \<and> 0 < ban_timeout c
      \<and> (\<forall>s\<in>set (sequence (knock c)). valid_step c s)
      \<and> distinct (listener_ports (sequence (knock c))))"

lemma validate_ipset_name_iff: "validate_ipset_name n = Inr () \<longleftrightarrow> valid_ipset_name n"
  by (cases n) (auto simp: validate_ipset_name_def valid_ipset_name_def list_all_iff)

lemma word_ge_1_iff: "(1 :: u64) \<le> w \<longleftrightarrow> w \<noteq> 0"
  by (simp add: word_le_nat_alt Suc_le_eq unat_gt_0)

lemma validate_steps_iff:
  "validate_steps c ports steps = Inr () \<longleftrightarrow>
     (\<forall>s\<in>set steps. valid_step c s) \<and> distinct (listener_ports steps)
     \<and> set ports \<inter> set (listener_ports steps) = {}"
proof (induction steps arbitrary: ports)
  case Nil
  then show ?case by (simp add: listener_ports_def)
next
  case (Cons s steps)
  show ?case
  proof (cases "step_protocol s = Icmp")
    case True
    then show ?thesis
      using Cons by (auto simp: valid_step_def listener_ports_def word_neq_0_conv)
  next
    case False
    then show ?thesis
      using Cons
      by (cases "step_port s"; cases "step_protocol s")
        (auto simp: valid_step_def listener_ports_def word_neq_0_conv)
  qed
qed

lemma validate_iff: "validate c = Inr () \<longleftrightarrow> valid_config c"
  by (auto simp: validate_def valid_config_def and_then_Inr_iff validate_ipset_name_iff
      validate_steps_iff word_neq_0_conv word_ge_1_iff)

lemma from_path_ok:
  assumes "from_path os parse path w = (Inr c, w')"
  shows "valid_config c \<and> (\<exists>raw doc. os_read os (hist w) path = Inr raw \<and> utf8_valid raw
    \<and> parse raw = Some doc \<and> c = config_of_raw doc)"
  using assms
  by (auto simp: from_path_def bind_io_def io_defs read_file_def call_def or_fail_def
      validate_iff split: sum.splits prod.splits if_splits option.splits)

lemma valid_configD:
  assumes "valid_config c"
  shows "3 \<le> length (sequence (knock c))" and "max_partial_states c \<noteq> 0"
    and "ban_timeout c \<noteq> 0" and "ip_timeout c \<noteq> 0" and "valid_ipset_name (ipset_name c)"
    and "valid_ipset_name (ban_ipset_name c)"
    and "\<And>s. s \<in> set (sequence (knock c)) \<Longrightarrow> valid_step c s"
  using assms by (auto simp: valid_config_def)

section \<open>The configuration files of the repository\<close>

text \<open>The packaged \<open>sshknockd.toml\<close>, whose knock ports are the placeholder 0.\<close>

definition udp_step :: "u16 \<Rightarrow> usize \<Rightarrow> knock_step" where
  "udp_step p n = \<lparr> step_protocol = Udp, step_port = Some p, step_size = n \<rparr>"

definition packaged_raw :: raw_config where
  "packaged_raw =
    \<lparr> raw_listen = ''0.0.0.0'', raw_ssh_port = 10022, raw_ipset_name = ''ssh_allow'',
      raw_firewall_backend = Some Iptables, raw_address_family = Some Ipv4,
      raw_sequence_window = Some 5, raw_ip_timeout = Some 10,
      raw_partial_state_timeout = Some 10, raw_max_partial_states = Some 4096,
      raw_max_payload_size = Some 512, raw_log_level = Some ''info'',
      raw_log_file = Some ''/var/log/sshknockd/sshknockd.log'',
      raw_invalid_burst_limit = Some 20, raw_invalid_refill_per_minute = Some 10,
      raw_ban_timeout = Some 86400, raw_ban_ipset_name = Some ''sshknockd_ban'',
      raw_knock = \<lparr> sequence = [udp_step 0 64, udp_step 0 128, udp_step 0 96] \<rparr> \<rparr>"

text \<open>The same with real ports: the fixture of the repository's tests.\<close>

definition example_config :: config where
  "example_config = (config_of_raw packaged_raw)
     \<lparr> knock := \<lparr> sequence = [udp_step 40101 64, udp_step 40102 128, udp_step 40103 96] \<rparr> \<rparr>"

lemmas example_config_simps =
  example_config_def packaged_raw_def config_of_raw_def or_default_def udp_step_def

lemma example_config_valid: "validate example_config = Inr ()"
  by (simp add: validate_def example_config_simps validate_ipset_name_def ipset_char_def
      is_ascii_alphanumeric_def)

section \<open>Properties\<close>

text \<open>
  C11: \<open>Config::validate\<close> accepts exactly the configurations that the manual describes: at least
  three steps, a window of 1 to 60 seconds, positive limits and timeouts, well-formed set names,
  and steps whose sizes fit the payload limit and whose TCP and UDP ports are non-zero,
  pairwise distinct and different from the SSH port, while ICMP steps have no port.
\<close>

theorem validate_accepts_exactly: "validate c = Inr () \<longleftrightarrow> valid_config c"
  by (rule validate_iff)

text \<open>
  C31: whatever the file holds and whatever the TOML parser makes of it, a configuration that
  \<open>Config::from_path\<close> returns is valid, and it is the parsed document with the serde defaults
  filled in.
\<close>

theorem from_path_only_valid:
  "from_path os parse path w = (Inr c, w') \<Longrightarrow>
    valid_config c \<and> (\<exists>raw doc. os_read os (hist w) path = Inr raw \<and> utf8_valid raw
      \<and> parse raw = Some doc \<and> c = config_of_raw doc)"
  by (rule from_path_ok)

definition example_raw :: raw_config where
  "example_raw = packaged_raw
     \<lparr> raw_knock := \<lparr> sequence = [udp_step 40101 64, udp_step 40102 128, udp_step 40103 96] \<rparr> \<rparr>"

lemma example_raw_config: "config_of_raw example_raw = example_config"
  by (simp add: example_raw_def example_config_simps)

lemma from_path_example:
  "from_path quiet_os (\<lambda>_. Some example_raw) ''/etc/sshknockd.toml'' w =
     (Inr example_config, w\<lparr>hist := hist w @ [ReadFile ''/etc/sshknockd.toml'' (Inr ''text'')]\<rparr>)"
  by (simp add: from_path_def read_file_def call_def quiet_os_def bind_io_def or_fail_def io_defs
      utf8_valid_def utf8_next_def utf8_follow_def example_raw_config example_config_valid)

theorem from_path_only_valid_witness: "valid_config example_config"
  using from_path_only_valid [OF from_path_example [of "\<lparr> hist = [] \<rparr>"]] by simp

text \<open>
  The packaged configuration file, with its placeholder ports 0, is refused because of the
  ports: an unedited installation does not start with a published knock sequence.
\<close>

theorem packaged_config_refused:
  "validate (config_of_raw packaged_raw) =
     Inl (Err ''tcp and udp knock step ports must be greater than zero'')"
  by (simp add: validate_def example_config_simps validate_ipset_name_def ipset_char_def
      is_ascii_alphanumeric_def)

text \<open>
  Validation does not compare the two set names: the name of the allow set is also accepted
  as the name of the ban set, for every valid configuration.
\<close>

theorem shared_set_name_accepted:
  "validate c = Inr () \<Longrightarrow> validate (c\<lparr>ban_ipset_name := ipset_name c\<rparr>) = Inr ()"
  unfolding validate_iff by (simp add: valid_config_def valid_step_def cong: protocol.case_cong)

theorem shared_set_name_accepted_witness:
  "validate (example_config\<lparr>ban_ipset_name := ipset_name example_config\<rparr>) = Inr ()"
  by (rule shared_set_name_accepted [OF example_config_valid])

end
