(* ===== verification/Knock.thy ===== *)
theory Knock
  imports Config HashMap
begin

text \<open>
  \<open>src/knock.rs\<close>: the per-source knock sequence tracker, its operations, and the invariant that
  they keep: the table is a map of bounded size, and every partial state is strictly inside the
  sequence with ordered time stamps.
\<close>

section \<open>Data\<close>

record knock_packet =
  source_ip :: ip_addr
  pkt_protocol :: protocol
  pkt_port :: "u16 option"
  payload_size :: usize

record source_state =
  next_step :: nat
  first_seen :: instant
  last_seen :: instant

datatype knock_outcome = Accepted | Progress nat | Rejected | Oversized

record knock_tracker =
  trk_sequence :: "knock_step list"
  trk_window :: duration
  trk_timeout :: duration
  trk_max_states :: usize
  trk_max_payload :: usize
  states :: "(ip_addr, source_state) hm"

definition knock_tracker_new ::
  "knock_step list \<Rightarrow> duration \<Rightarrow> duration \<Rightarrow> usize \<Rightarrow> usize \<Rightarrow> knock_tracker" where
  "knock_tracker_new sq window timeout max_states max_payload =
     \<lparr> trk_sequence = sq, trk_window = window, trk_timeout = timeout,
       trk_max_states = max_states, trk_max_payload = max_payload, states = hm_empty \<rparr>"

definition tracker_len :: "knock_tracker \<Rightarrow> nat" where
  "tracker_len t = hm_len (states t)"

definition tracker_is_empty :: "knock_tracker \<Rightarrow> bool" where
  "tracker_is_empty t = (states t = [])"

section \<open>Operations\<close>

definition live :: "knock_tracker \<Rightarrow> instant \<Rightarrow> source_state \<Rightarrow> bool" where
  "live t now st =
     (duration_since now (last_seen st) \<le> trk_timeout t
      \<and> duration_since now (first_seen st) \<le> trk_window t)"

definition expire :: "knock_tracker \<Rightarrow> instant \<Rightarrow> knock_tracker" where
  "expire t now = t\<lparr>states := hm_retain (\<lambda>_. live t now) (states t)\<rparr>"

definition step_matches :: "knock_step \<Rightarrow> knock_packet \<Rightarrow> bool" where
  "step_matches step p =
     (step_protocol step = pkt_protocol p \<and> step_port step = pkt_port p
      \<and> step_size step = payload_size p)"

definition matches_step :: "knock_tracker \<Rightarrow> nat \<Rightarrow> knock_packet \<Rightarrow> bool" where
  "matches_step t i p =
     (if i < length (trk_sequence t) then step_matches (trk_sequence t ! i) p else False)"

definition start_partial_state ::
  "knock_tracker \<Rightarrow> ip_addr \<Rightarrow> instant \<Rightarrow> knock_outcome \<times> knock_tracker" where
  "start_partial_state t ip now =
     (if \<not> hm_contains (states t) ip \<and> hm_len (states t) \<ge> unat (trk_max_states t)
      then (Rejected, t)
      else (Progress 1, t\<lparr>states :=
        hm_insert ip \<lparr> next_step = 1, first_seen = now, last_seen = now \<rparr> (states t)\<rparr>))"

definition start_or_reject ::
  "knock_tracker \<Rightarrow> knock_packet \<Rightarrow> instant \<Rightarrow> knock_outcome \<times> knock_tracker" where
  "start_or_reject t p now =
     (if matches_step t 0 p then start_partial_state t (source_ip p) now else (Rejected, t))"

definition remove_source :: "knock_tracker \<Rightarrow> ip_addr \<Rightarrow> knock_tracker" where
  "remove_source t ip = t\<lparr>states := hm_remove ip (states t)\<rparr>"

definition process :: "knock_tracker \<Rightarrow> knock_packet \<Rightarrow> instant \<Rightarrow> knock_outcome \<times> knock_tracker" where
  "process t0 p now =
     (let t = expire t0 now; ip = source_ip p in
      if payload_size p > trk_max_payload t then (Oversized, remove_source t ip)
      else
        let expected = (case hm_get (states t) ip of None \<Rightarrow> 0 | Some st \<Rightarrow> next_step st) in
        if expected > 0
          \<and> (case hm_get (states t) ip of
               None \<Rightarrow> False
             | Some st \<Rightarrow> duration_since now (first_seen st) > trk_window t)
        then start_or_reject (remove_source t ip) p now
        else if \<not> matches_step t expected p
        then start_or_reject (remove_source t ip) p now
        else
          let next = expected + 1 in
          if next = length (trk_sequence t) then (Accepted, remove_source t ip)
          else if expected = 0 then start_partial_state t ip now
          else
            let first = (case hm_get (states t) ip of None \<Rightarrow> now | Some st \<Rightarrow> first_seen st) in
            (Progress next, t\<lparr>states :=
              hm_insert ip \<lparr> next_step = next, first_seen = first, last_seen = now \<rparr> (states t)\<rparr>))"

text \<open>A run over packets with their arrival times; the outcomes are in order.\<close>

type_synonym arrival = "knock_packet \<times> instant"

fun run_tracker :: "knock_tracker \<Rightarrow> arrival list \<Rightarrow> knock_outcome list \<times> knock_tracker" where
  "run_tracker t [] = ([], t)"
| "run_tracker t ((p, now) # es) =
     (let (oc, t') = process t p now; (ocs, t'') = run_tracker t' es in (oc # ocs, t''))"

section \<open>Invariant\<close>

definition tracker_ok :: "knock_tracker \<Rightarrow> instant \<Rightarrow> bool" where
  "tracker_ok t now =
     (hm_ok (states t) \<and> hm_len (states t) \<le> unat (trk_max_states t)
      \<and> (\<forall>ip st. hm_get (states t) ip = Some st \<longrightarrow>
           0 < next_step st \<and> next_step st < length (trk_sequence t)
           \<and> first_seen st \<le> last_seen st \<and> last_seen st \<le> now))"

definition same_setup :: "knock_tracker \<Rightarrow> knock_tracker \<Rightarrow> bool" where
  "same_setup t t' = (t' = t\<lparr>states := states t'\<rparr>)"

lemma same_setup_fields:
  assumes "same_setup t t'"
  shows "trk_sequence t' = trk_sequence t" and "trk_window t' = trk_window t"
    and "trk_timeout t' = trk_timeout t" and "trk_max_states t' = trk_max_states t"
    and "trk_max_payload t' = trk_max_payload t"
  using assms by (cases t; cases t'; simp add: same_setup_def)+

lemma hm_get_expire:
  "hm_ok (states t) \<Longrightarrow> hm_get (states (expire t now)) ip =
     (case hm_get (states t) ip of None \<Rightarrow> None | Some st \<Rightarrow> if live t now st then Some st else None)"
  by (simp add: expire_def hm.get_retain)

lemma expire_fields [simp]:
  "trk_sequence (expire t now) = trk_sequence t" "trk_window (expire t now) = trk_window t"
  "trk_timeout (expire t now) = trk_timeout t" "trk_max_states (expire t now) = trk_max_states t"
  "trk_max_payload (expire t now) = trk_max_payload t"
  by (simp_all add: expire_def)

lemma remove_source_simps [simp]:
  "states (remove_source t ip) = hm_remove ip (states t)"
  "trk_sequence (remove_source t ip) = trk_sequence t" "trk_window (remove_source t ip) = trk_window t"
  "trk_timeout (remove_source t ip) = trk_timeout t"
  "trk_max_states (remove_source t ip) = trk_max_states t"
  "trk_max_payload (remove_source t ip) = trk_max_payload t"
  by (simp_all add: remove_source_def)

lemma live_expire [simp]: "live (expire t n) now st = live t now st"
  by (simp add: live_def)

lemma expire_ok: "tracker_ok t T \<Longrightarrow> T \<le> now \<Longrightarrow> tracker_ok (expire t now) now"
  using hm.len_retain_le [of "states t" "\<lambda>_. live t now"]
  by (fastforce simp: tracker_ok_def hm_get_expire expire_def hm.get_retain
      split: option.splits if_splits)

lemma remove_ok: "tracker_ok t now \<Longrightarrow> tracker_ok (remove_source t ip) now"
  using hm.len_remove_le [of "states t" ip] by (auto simp: tracker_ok_def)

lemma start_partial_ok:
  assumes "tracker_ok t now" and "2 \<le> length (trk_sequence t)"
  shows "tracker_ok (snd (start_partial_state t ip now)) now"
  using assms hm.bounded_insert [of "states t" "unat (trk_max_states t)" ip]
  by (auto simp: start_partial_state_def tracker_ok_def)

lemma start_or_reject_ok:
  "tracker_ok t now \<Longrightarrow> 2 \<le> length (trk_sequence t) \<Longrightarrow>
    tracker_ok (snd (start_or_reject t p now)) now"
  by (simp add: start_or_reject_def start_partial_ok)

lemma advance_ok:
  assumes "tracker_ok t now" and "hm_get (states t) ip = Some st"
    and "Suc (next_step st) < length (trk_sequence t)"
  shows "tracker_ok (t\<lparr>states := hm_insert ip
    \<lparr> next_step = Suc (next_step st), first_seen = first_seen st, last_seen = now \<rparr> (states t)\<rparr>) now"
  using assms hm.len_insert_present [of "states t" ip]
  by (fastforce simp: tracker_ok_def)

lemma process_setup: "same_setup t (snd (process t p now))"
  by (simp add: process_def Let_def same_setup_def start_or_reject_def start_partial_state_def
      remove_source_def expire_def split: option.splits)

lemma matches_step_less: "matches_step t i p \<Longrightarrow> i < length (trk_sequence t)"
  by (simp add: matches_step_def split: if_splits)

lemma process_ok:
  assumes ok: "tracker_ok t T" and "T \<le> now" and len: "2 \<le> length (trk_sequence t)"
  shows "tracker_ok (snd (process t p now)) now"
proof -
  let ?t = "expire t now"
  have e: "tracker_ok ?t now" using ok \<open>T \<le> now\<close> by (rule expire_ok)
  have len': "2 \<le> length (trk_sequence ?t)" using len by simp
  note r = remove_ok [OF e, of "source_ip p"]
  note restart = start_or_reject_ok [OF r, of p]
  show ?thesis
  proof (cases "hm_get (states ?t) (source_ip p)")
    case None
    then show ?thesis
      using e r restart len' by (simp add: process_def Let_def start_partial_ok)
  next
    case (Some st)
    have "0 < next_step st" using e Some by (auto simp: tracker_ok_def)
    then show ?thesis
      using e r restart len Some advance_ok [OF e Some] matches_step_less [of ?t "next_step st" p]
      by (auto simp: process_def Let_def)
  qed
qed

lemma new_ok: "tracker_ok (knock_tracker_new sq w to n m) now"
  by (simp add: tracker_ok_def knock_tracker_new_def)

end
