(* ===== verification/KnockSpec.thy ===== *)
theory KnockSpec
  imports Knock
begin

text \<open>
  What the knock tracker promises. \<open>source_step\<close> is the automaton that one source sees; the
  tracker refines it. From the automaton: an accepted source has knocked the whole sequence,
  and a source that knocks it is accepted.
\<close>

section \<open>The automaton of one source\<close>

definition alive :: "knock_tracker \<Rightarrow> instant \<Rightarrow> source_state option \<Rightarrow> source_state option" where
  "alive t now x = (case x of None \<Rightarrow> None | Some st \<Rightarrow> if live t now st then Some st else None)"

definition fresh_state :: "instant \<Rightarrow> source_state" where
  "fresh_state now = \<lparr> next_step = 1, first_seen = now, last_seen = now \<rparr>"

definition table_full :: "knock_tracker \<Rightarrow> instant \<Rightarrow> bool" where
  "table_full t now = (unat (trk_max_states t) \<le> hm_len (states (expire t now)))"

definition source_step ::
  "knock_tracker \<Rightarrow> bool \<Rightarrow> source_state option \<Rightarrow> knock_packet \<Rightarrow> instant
    \<Rightarrow> knock_outcome \<times> source_state option" where
  "source_step t full x p now =
     (if payload_size p > trk_max_payload t then (Oversized, None)
      else (case alive t now x of
          None \<Rightarrow>
            if matches_step t 0 p \<and> \<not> full then (Progress 1, Some (fresh_state now)) else (Rejected, None)
        | Some st \<Rightarrow>
            if matches_step t (next_step st) p then
              (if Suc (next_step st) = length (trk_sequence t) then (Accepted, None)
               else (Progress (Suc (next_step st)),
                 Some \<lparr> next_step = Suc (next_step st), first_seen = first_seen st, last_seen = now \<rparr>))
            else if matches_step t 0 p then (Progress 1, Some (fresh_state now))
            else (Rejected, None)))"

lemma start_partial_eq:
  assumes "hm_get (states t) ip = None"
  shows "start_partial_state t ip now =
    (if unat (trk_max_states t) \<le> hm_len (states t) then (Rejected, t)
     else (Progress 1, t\<lparr>states := hm_insert ip (fresh_state now) (states t)\<rparr>))"
  using assms by (simp add: start_partial_state_def fresh_state_def)

lemma process_refines_aux:
  fixes t :: knock_tracker and p :: knock_packet and now :: instant
  assumes ok: "tracker_ok t T" and T: "T \<le> now" and len: "2 \<le> length (trk_sequence t)"
  defines "x \<equiv> source_step t (table_full t now) (hm_get (states t) (source_ip p)) p now"
  shows "fst (process t p now) = fst x
    \<and> hm_get (states (snd (process t p now))) ip =
        (if ip = source_ip p then snd x else alive t now (hm_get (states t) ip))"
proof -
  let ?t = "expire t now" and ?ip = "source_ip p"
  have e: "tracker_ok ?t now" using ok T by (rule expire_ok)
  have okm: "hm_ok (states t)" "hm_ok (states ?t)" using ok e by (simp_all add: tracker_ok_def)
  have get: "hm_get (states ?t) i = alive t now (hm_get (states t) i)" for i
    by (simp add: hm_get_expire okm alive_def)
  have m: "matches_step ?t i p = matches_step t i p"
    "matches_step (remove_source ?t ?ip) i p = matches_step t i p" for i
    by (simp_all add: matches_step_def)
  show ?thesis
  proof (cases "alive t now (hm_get (states t) ?ip)")
    case None
    then have n: "hm_get (states ?t) ?ip = None" by (simp add: get)
    show ?thesis
      using len None n
      by (simp add: x_def process_def source_step_def Let_def m start_or_reject_def
          start_partial_eq table_full_def get)
  next
    case (Some st)
    then have s: "hm_get (states ?t) ?ip = Some st" by (simp add: get)
    then have pos: "0 < next_step st" using e by (simp add: tracker_ok_def)
    have alive: "live t now st"
      using Some by (auto simp: alive_def split: option.splits if_splits)
    then have win: "\<not> trk_window t < duration_since now (first_seen st)" by (simp add: live_def)
    have room: "\<not> unat (trk_max_states t) \<le> hm_len (hm_remove ?ip (states ?t))"
      using hm.len_remove_present [of "states ?t" ?ip] e s by (simp add: tracker_ok_def)
    show ?thesis
      using Some s pos win room
      by (simp add: x_def process_def source_step_def Let_def m start_or_reject_def
          start_partial_eq get)
  qed
qed

lemmas process_outcome = process_refines_aux [THEN conjunct1]
  and process_get = process_refines_aux [THEN conjunct2]

lemma process_get_other:
  "tracker_ok t T \<Longrightarrow> T \<le> now \<Longrightarrow> 2 \<le> length (trk_sequence t) \<Longrightarrow> ip \<noteq> source_ip p \<Longrightarrow>
    hm_get (states (snd (process t p now))) ip = alive t now (hm_get (states t) ip)"
  by (simp add: process_get)

lemma process_get_own:
  "tracker_ok t T \<Longrightarrow> T \<le> now \<Longrightarrow> 2 \<le> length (trk_sequence t) \<Longrightarrow>
    hm_get (states (snd (process t p now))) (source_ip p) =
      snd (source_step t (table_full t now) (hm_get (states t) (source_ip p)) p now)"
  by (simp add: process_get)

lemma source_step_final:
  "fst (source_step t f x p now) \<in> {Accepted, Rejected, Oversized} \<Longrightarrow> snd (source_step t f x p now) = None"
  by (auto simp: source_step_def split: option.splits if_splits)

section \<open>Runs\<close>

definition of_source :: "ip_addr \<Rightarrow> arrival list \<Rightarrow> arrival list" where
  "of_source ip tr = filter (\<lambda>e. source_ip (fst e) = ip) tr"

definition paced :: "duration \<Rightarrow> instant list \<Rightarrow> bool" where
  "paced d ts = successively (\<lambda>a b. duration_since b a \<le> d) ts"

text \<open>
  The last packets of a source are the whole sequence in order, with no other packet of that
  source in between, inside the sequence window and with no gap above the partial timeout.
\<close>

definition fits :: "knock_step \<Rightarrow> knock_packet \<Rightarrow> bool" where
  "fits s p \<longleftrightarrow>
     (pkt_protocol p, pkt_port p, payload_size p) = (step_protocol s, step_port s, step_size s)"

lemma step_matches_fits: "step_matches s p \<longleftrightarrow> fits s p"
  by (auto simp: step_matches_def fits_def)

lemma list_all2_fits: "list_all2 fits ss ps = list_all2 step_matches ss ps"
  by (simp add: step_matches_fits [abs_def])

definition knocked :: "knock_step list \<Rightarrow> duration \<Rightarrow> duration \<Rightarrow> arrival list \<Rightarrow> bool" where
  "knocked sq window timeout blk =
     (list_all2 fits sq (map fst blk)
      \<and> duration_since (snd (last blk)) (snd (hd blk)) \<le> window
      \<and> paced timeout (map snd blk))"

definition completes ::
  "knock_step list \<Rightarrow> duration \<Rightarrow> duration \<Rightarrow> ip_addr \<Rightarrow> arrival list \<Rightarrow> bool" where
  "completes sq window timeout ip tr =
     (let mine = of_source ip tr in
      knocked sq window timeout (drop (length mine - length sq) mine))"

lemma of_source_snoc:
  "of_source ip (tr @ [(p, now)]) = (if source_ip p = ip then of_source ip tr @ [(p, now)] else of_source ip tr)"
  by (simp add: of_source_def)

lemma of_source_Cons:
  "of_source ip ((p, now) # tr) = (if source_ip p = ip then (p, now) # of_source ip tr else of_source ip tr)"
  by (simp add: of_source_def)

lemma paced_snoc: "ts \<noteq> [] \<Longrightarrow> paced d (ts @ [a]) \<longleftrightarrow> paced d ts \<and> duration_since a (last ts) \<le> d"
  by (auto simp: paced_def successively_append_iff)

text \<open>What a partial state records about the packets of its source.\<close>

definition partial_knock :: "knock_tracker \<Rightarrow> arrival list \<Rightarrow> source_state \<Rightarrow> bool" where
  "partial_knock t mine st = (\<exists>pre blk. mine = pre @ blk \<and> blk \<noteq> [] \<and> length blk = next_step st
     \<and> list_all2 step_matches (take (next_step st) (trk_sequence t)) (map fst blk)
     \<and> first_seen st = snd (hd blk) \<and> last_seen st = snd (last blk)
     \<and> paced (trk_timeout t) (map snd blk))"

definition ghost_ok :: "knock_tracker \<Rightarrow> arrival list \<Rightarrow> bool" where
  "ghost_ok t tr = (\<forall>ip st. hm_get (states t) ip = Some st \<longrightarrow> partial_knock t (of_source ip tr) st)"

lemma partial_fresh:
  assumes "matches_step t 0 p"
  shows "partial_knock t (mine @ [(p, now)]) (fresh_state now)"
proof -
  have "take 1 (trk_sequence t) = [trk_sequence t ! 0]"
    using matches_step_less [OF assms] by (cases "trk_sequence t") simp_all
  with assms show ?thesis
    unfolding partial_knock_def
    by (intro exI [of _ mine] exI [of _ "[(p, now)]"])
      (auto simp: fresh_state_def matches_step_def paced_def split: if_splits)
qed

lemma partial_advance:
  assumes "partial_knock t mine st" and "matches_step t (next_step st) p" and "live t now st"
  shows "\<exists>pre blk. mine @ [(p, now)] = pre @ blk \<and> blk \<noteq> [] \<and> length blk = Suc (next_step st)
     \<and> list_all2 step_matches (take (Suc (next_step st)) (trk_sequence t)) (map fst blk)
     \<and> first_seen st = snd (hd blk) \<and> now = snd (last blk)
     \<and> paced (trk_timeout t) (map snd blk)"
proof -
  from assms(1) obtain pre blk where b: "mine = pre @ blk" "blk \<noteq> []" "length blk = next_step st"
    "list_all2 step_matches (take (next_step st) (trk_sequence t)) (map fst blk)"
    "first_seen st = snd (hd blk)" "last_seen st = snd (last blk)" "paced (trk_timeout t) (map snd blk)"
    unfolding partial_knock_def by blast
  have "step_matches (trk_sequence t ! next_step st) p"
    using assms(2) by (simp add: matches_step_def split: if_splits)
  with b assms show ?thesis
    using list_all2_take_Suc [OF b(4), of p] matches_step_less [OF assms(2)]
    by (intro exI [of _ pre] exI [of _ "blk @ [(p, now)]"])
      (auto simp: paced_snoc last_map live_def)
qed

lemma alive_Some: "alive t now x = Some st \<longleftrightarrow> x = Some st \<and> live t now st"
  by (auto simp: alive_def split: option.splits)

lemma process_ghost:
  assumes ok: "tracker_ok t T" "T \<le> now" "2 \<le> length (trk_sequence t)" and gh: "ghost_ok t tr"
  shows "ghost_ok (snd (process t p now)) (tr @ [(p, now)])"
  unfolding ghost_ok_def
proof (intro allI impI)
  fix ip st
  assume get: "hm_get (states (snd (process t p now))) ip = Some st"
  have "trk_sequence (snd (process t p now)) = trk_sequence t"
    and "trk_timeout (snd (process t p now)) = trk_timeout t"
    using same_setup_fields [OF process_setup] by auto
  then have same: "partial_knock (snd (process t p now)) = partial_knock t"
    by (intro ext) (simp add: partial_knock_def)
  show "partial_knock (snd (process t p now)) (of_source ip (tr @ [(p, now)])) st"
  proof (cases "ip = source_ip p")
    case False
    with get gh show ?thesis
      by (auto simp: process_get_other [OF ok] same of_source_snoc ghost_ok_def alive_Some)
  next
    case True
    with get have "snd (source_step t (table_full t now) (hm_get (states t) ip) p now) = Some st"
      by (simp add: process_get_own [OF ok])
    then consider "matches_step t 0 p" and "st = fresh_state now"
      | s where "hm_get (states t) ip = Some s" "live t now s" "matches_step t (next_step s) p"
        "st = \<lparr> next_step = Suc (next_step s), first_seen = first_seen s, last_seen = now \<rparr>"
      by (auto simp: source_step_def alive_Some split: option.splits if_splits)
    then show ?thesis
    proof cases
      case 1
      then show ?thesis using True by (simp add: same of_source_snoc partial_fresh)
    next
      case 2
      with gh have "partial_knock t (of_source ip tr) s" by (simp add: ghost_ok_def)
      from partial_advance [OF this 2(3,2)] show ?thesis
        using True 2(4) by (simp add: same of_source_snoc partial_knock_def)
    qed
  qed
qed

lemma accepted_completes:
  assumes ok: "tracker_ok t T" "T \<le> now" "2 \<le> length (trk_sequence t)" and gh: "ghost_ok t tr"
    and acc: "fst (process t p now) = Accepted"
  shows "completes (trk_sequence t) (trk_window t) (trk_timeout t) (source_ip p) (tr @ [(p, now)])"
proof -
  let ?ip = "source_ip p"
  from acc have "fst (source_step t (table_full t now) (hm_get (states t) ?ip) p now) = Accepted"
    by (simp add: process_outcome [OF ok])
  then obtain s where s: "hm_get (states t) ?ip = Some s" "live t now s"
    "matches_step t (next_step s) p" "Suc (next_step s) = length (trk_sequence t)"
    by (auto simp: source_step_def alive_Some split: option.splits if_splits)
  with gh have "partial_knock t (of_source ?ip tr) s" by (simp add: ghost_ok_def)
  from partial_advance [OF this s(3,2)] s(4) obtain pre blk where
    b: "of_source ?ip tr @ [(p, now)] = pre @ blk" "length blk = length (trk_sequence t)"
    "list_all2 step_matches (trk_sequence t) (map fst blk)" "first_seen s = snd (hd blk)"
    "now = snd (last blk)" "paced (trk_timeout t) (map snd blk)"
    by auto
  have "drop (length (pre @ blk) - length (trk_sequence t)) (pre @ blk) = blk"
    using b(2) by (rule drop_suffix)
  moreover have "duration_since now (first_seen s) \<le> trk_window t"
    using s(2) by (simp add: live_def)
  ultimately show ?thesis
    using b by (simp add: completes_def knocked_def of_source_snoc Let_def list_all2_fits)
qed

section \<open>Soundness over a run\<close>

lemma run_tracker_snoc:
  "run_tracker t (es @ [(p, now)]) =
     (let t' = snd (run_tracker t es) in
      (fst (run_tracker t es) @ [fst (process t' p now)], snd (process t' p now)))"
  by (induction t es rule: run_tracker.induct) (auto simp: Let_def split: prod.splits)

lemma length_run_tracker [simp]: "length (fst (run_tracker t es)) = length es"
  by (induction t es rule: run_tracker.induct) (auto simp: Let_def split: prod.splits)

lemma run_tracker_Nil_iff: "fst (run_tracker t es) = [] \<longleftrightarrow> es = []"
  by (metis length_0_conv length_run_tracker)

lemma same_setup_trans: "same_setup a b \<Longrightarrow> same_setup b c \<Longrightarrow> same_setup a c"
  by (cases a; cases b; cases c) (simp add: same_setup_def)

lemma run_tracker_setup: "same_setup t (snd (run_tracker t es))"
proof (induction es rule: rev_induct)
  case (snoc e es)
  obtain p now where e: "e = (p, now)" by (cases e)
  have "same_setup (snd (run_tracker t es)) (snd (process (snd (run_tracker t es)) p now))"
    by (rule process_setup)
  then show ?case using snoc same_setup_trans by (simp add: e run_tracker_snoc Let_def)
qed (simp add: same_setup_def)

lemma run_tracker_ok:
  assumes "sorted (map snd es)" and "2 \<le> length sq"
  shows "\<exists>T. tracker_ok (snd (run_tracker (knock_tracker_new sq w to n m) es)) T
      \<and> (\<forall>e\<in>set es. snd e \<le> T) \<and> (es = [] \<longrightarrow> T = 0) \<and> (es \<noteq> [] \<longrightarrow> T = snd (last es))
    \<and> ghost_ok (snd (run_tracker (knock_tracker_new sq w to n m) es)) es"
  using assms
proof (induction es rule: rev_induct)
  case Nil
  then show ?case
    using new_ok [of sq w to n m 0] by (simp add: ghost_ok_def knock_tracker_new_def)
next
  case (snoc e es)
  let ?t = "snd (run_tracker (knock_tracker_new sq w to n m) es)"
  obtain p now where e: "e = (p, now)" by (cases e)
  from snoc obtain T where T: "tracker_ok ?t T" "es \<noteq> [] \<longrightarrow> T = snd (last es)" "es = [] \<longrightarrow> T = 0"
    "ghost_ok ?t es"
    by (auto simp: sorted_append)
  have le: "T \<le> now"
    using T(2,3) snoc.prems(1) by (cases "es = []") (auto simp: e sorted_append)
  have len: "2 \<le> length (trk_sequence ?t)"
    using snoc.prems(2) same_setup_fields [OF run_tracker_setup]
    by (simp add: knock_tracker_new_def)
  have "tracker_ok (snd (process ?t p now)) now" and "ghost_ok (snd (process ?t p now)) (es @ [e])"
    using process_ok [OF T(1) le len] process_ghost [OF T(1) le len T(4)] by (simp_all add: e)
  moreover have "\<forall>e'\<in>set (es @ [e]). snd e' \<le> now"
    using snoc.prems(1) by (auto simp: e sorted_append)
  ultimately show ?case by (auto simp: e run_tracker_snoc Let_def)
qed

lemma run_accepted_completes:
  assumes "sorted (map snd (es @ [(p, now)]))" and "2 \<le> length sq"
    and "last (fst (run_tracker (knock_tracker_new sq w to n m) (es @ [(p, now)]))) = Accepted"
  shows "completes sq w to (source_ip p) (es @ [(p, now)])"
proof -
  let ?t = "snd (run_tracker (knock_tracker_new sq w to n m) es)"
  from assms(1) have "sorted (map snd es)" by (simp add: sorted_append)
  from run_tracker_ok [OF this assms(2)] obtain T where T: "tracker_ok ?t T"
    "es \<noteq> [] \<longrightarrow> T = snd (last es)" "es = [] \<longrightarrow> T = 0" "ghost_ok ?t es" by blast
  have le: "T \<le> now"
    using T(2,3) assms(1) by (cases "es = []") (auto simp: sorted_append)
  have fixed: "trk_sequence ?t = sq" "trk_window ?t = w" "trk_timeout ?t = to"
    using same_setup_fields [OF run_tracker_setup] by (simp_all add: knock_tracker_new_def)
  then have len: "2 \<le> length (trk_sequence ?t)" using assms(2) by simp
  have "fst (process ?t p now) = Accepted"
    using assms(3) by (simp add: run_tracker_snoc Let_def)
  from accepted_completes [OF T(1) le len T(4) this] show ?thesis by (simp add: fixed)
qed

section \<open>Completeness over a run\<close>

lemma of_source_Nil_last: "of_source ip es = [] \<Longrightarrow> es \<noteq> [] \<Longrightarrow> source_ip (fst (last es)) \<noteq> ip"
  by (auto simp: of_source_def filter_empty_conv)

lemma sorted_le_last: "sorted (x # xs) \<Longrightarrow> xs \<noteq> [] \<Longrightarrow> x \<le> (last xs :: nat)"
  by simp

lemma of_source_times:
  assumes "sorted (map snd es)" and "e \<in> set (of_source ip es)" and "\<forall>e\<in>set es. T \<le> snd e"
  shows "T \<le> snd e"
  using assms by (auto simp: of_source_def)

lemma run_completes:
  assumes "tracker_ok t T" and "2 \<le> length (trk_sequence t)"
    and "hm_get (states t) ip = Some st"
    and "list_all2 step_matches (drop (next_step st) (trk_sequence t)) (map fst (of_source ip es))"
    and "sorted (T # map snd es)"
    and "paced (trk_timeout t) (last_seen st # map snd (of_source ip es))"
    and "duration_since (snd (last es)) (first_seen st) \<le> trk_window t"
    and "es \<noteq> []" and "source_ip (fst (last es)) = ip"
    and "\<forall>s\<in>set (trk_sequence t). step_size s \<le> trk_max_payload t"
  shows "last (fst (run_tracker t es)) = Accepted"
  using assms
proof (induction es arbitrary: t T st)
  case (Cons e es)
  obtain p now where e: "e = (p, now)" by (cases e)
  let ?t' = "snd (process t p now)"
  have T: "T \<le> now" using Cons.prems(5) by (simp add: e)
  note ok = Cons.prems(1) T Cons.prems(2)
  have ok': "tracker_ok ?t' now" by (rule process_ok [OF ok])
  note fixed = same_setup_fields [OF process_setup, of t p now]
  have sorted': "sorted (now # map snd es)" using Cons.prems(5) by (simp add: e)
  have last_ge: "now \<le> snd (last (e # es))"
    using sorted' by (cases "es = []") (auto simp: e)
  show ?case
  proof (cases "source_ip p = ip")
    case False
    then have ne: "es \<noteq> []" using Cons.prems(9) by (auto simp: e)
    have mine: "of_source ip (e # es) = of_source ip es" using False by (simp add: e of_source_Cons)
    have "of_source ip es \<noteq> []" using of_source_Nil_last [of ip es] ne Cons.prems(9) by auto
    then obtain a as where a: "of_source ip es = a # as" by (cases "of_source ip es") auto
    have "a \<in> set es" using a by (metis filter_is_subset list.set_intros(1) of_source_def subsetD)
    then have "now \<le> snd a" using sorted' by auto
    moreover have "duration_since (snd a) (last_seen st) \<le> trk_timeout t"
      using Cons.prems(6) by (simp add: mine a paced_def)
    ultimately have "live t now st"
      using Cons.prems(7) last_ge by (auto simp: live_def duration_since_def)
    then have "hm_get (states ?t') ip = Some st"
      using Cons.prems(3) False by (simp add: process_get_other [OF ok] alive_Some)
    then have "last (fst (run_tracker ?t' es)) = Accepted"
      using Cons.IH [OF ok', of st] Cons.prems sorted' ne by (simp add: fixed mine)
    then show ?thesis using ne run_tracker_Nil_iff [of ?t' es]
      by (auto simp: e Let_def split: prod.splits)
  next
    case True
    have mine: "of_source ip (e # es) = (p, now) # of_source ip es" using True by (simp add: e of_source_Cons)
    have "next_step st < length (trk_sequence t)" using Cons.prems(1,3) by (simp add: tracker_ok_def)
    then have drop: "drop (next_step st) (trk_sequence t) =
        (trk_sequence t ! next_step st) # drop (Suc (next_step st)) (trk_sequence t)"
      by (simp add: Cons_nth_drop_Suc)
    have m: "matches_step t (next_step st) p"
      and rest: "list_all2 step_matches (drop (Suc (next_step st)) (trk_sequence t)) (map fst (of_source ip es))"
      using Cons.prems(4) \<open>next_step st < _\<close> by (auto simp: mine drop matches_step_def)
    have lv: "live t now st"
      using Cons.prems(6,7) last_ge by (auto simp: mine paced_def live_def duration_since_def)
    have "step_size (trk_sequence t ! next_step st) \<le> trk_max_payload t"
      using Cons.prems(10) nth_mem [OF \<open>next_step st < _\<close>] by blast
    then have size: "\<not> trk_max_payload t < payload_size p"
      using m by (auto simp: matches_step_def step_matches_def not_less split: if_splits)
    show ?thesis
    proof (cases "Suc (next_step st) = length (trk_sequence t)")
      case True
      then have "of_source ip es = []" using rest by simp
      then have "es = []" using of_source_Nil_last [of ip es] Cons.prems(9) by (cases "es = []") auto
      moreover have "fst (process t p now) = Accepted"
        using True m lv size Cons.prems(3) \<open>source_ip p = ip\<close>
        by (simp add: process_outcome [OF ok] source_step_def alive_def)
      ultimately show ?thesis by (simp add: e Let_def split_beta)
    next
      case False
      let ?s = "\<lparr> next_step = Suc (next_step st), first_seen = first_seen st, last_seen = now \<rparr>"
      have "of_source ip es \<noteq> []" using rest False \<open>next_step st < _\<close> by auto
      then have ne: "es \<noteq> []" by (auto simp: of_source_def)
      have "hm_get (states ?t') ip = Some ?s"
        using m lv size Cons.prems(3) False process_get_own [OF ok, of p] \<open>source_ip p = ip\<close>
        by (simp add: source_step_def alive_def)
      then have "last (fst (run_tracker ?t' es)) = Accepted"
        using Cons.IH [OF ok', of ?s] Cons.prems rest sorted' ne
        by (simp add: fixed mine paced_def)
      then show ?thesis using ne run_tracker_Nil_iff [of ?t' es]
        by (auto simp: e Let_def split: prod.splits)
    qed
  qed
qed simp

section \<open>The second window check\<close>

text \<open>\<open>process\<close> without the check of the window after the expiry of old states.\<close>

definition process_unchecked ::
  "knock_tracker \<Rightarrow> knock_packet \<Rightarrow> instant \<Rightarrow> knock_outcome \<times> knock_tracker" where
  "process_unchecked t0 p now =
     (let t = expire t0 now; ip = source_ip p in
      if payload_size p > trk_max_payload t then (Oversized, remove_source t ip)
      else
        let expected = (case hm_get (states t) ip of None \<Rightarrow> 0 | Some st \<Rightarrow> next_step st) in
        if \<not> matches_step t expected p then start_or_reject (remove_source t ip) p now
        else
          let next = expected + 1 in
          if next = length (trk_sequence t) then (Accepted, remove_source t ip)
          else if expected = 0 then start_partial_state t ip now
          else
            let first = (case hm_get (states t) ip of None \<Rightarrow> now | Some st \<Rightarrow> first_seen st) in
            (Progress next, t\<lparr>states :=
              hm_insert ip \<lparr> next_step = next, first_seen = first, last_seen = now \<rparr> (states t)\<rparr>))"

lemma expired_in_window:
  "hm_ok (states t) \<Longrightarrow> hm_get (states (expire t now)) ip = Some st \<Longrightarrow>
    \<not> duration_since now (first_seen st) > trk_window (expire t now)"
  by (auto simp: hm_get_expire live_def split: option.splits if_splits)

lemma process_unchecked_eq:
  "hm_ok (states t) \<Longrightarrow> process t p now = process_unchecked t p now"
  using expired_in_window [of t now "source_ip p"]
  by (auto simp: process_def process_unchecked_def Let_def split: option.split)

section \<open>Sources do not influence one another\<close>

text \<open>
  As long as the table has room for every source, what a source gets depends on its own
  packets only.
\<close>

definition outcomes_of :: "ip_addr \<Rightarrow> arrival list \<Rightarrow> knock_outcome list \<Rightarrow> knock_outcome list" where
  "outcomes_of ip es ocs = map snd (filter (\<lambda>x. source_ip (fst (fst x)) = ip) (zip es ocs))"

lemma outcomes_of_Cons [simp]: "outcomes_of ip ((p, now) # es) (oc # ocs) =
    (if source_ip p = ip then [oc] else []) @ outcomes_of ip es ocs"
  by (simp add: outcomes_of_def)

definition sources :: "arrival list \<Rightarrow> ip_addr set" where
  "sources es = (\<lambda>e. source_ip (fst e)) ` set es"

lemma alive_later: "alive t T x = alive t T y \<Longrightarrow> T \<le> now \<Longrightarrow> alive t now x = alive t now y"
  by (auto simp: alive_def live_def duration_since_def split: option.splits if_splits)

lemma alive_alive: "alive t now (alive t now x) = alive t now x"
  by (auto simp: alive_def split: option.splits)

lemma source_step_alive: "alive t now x = alive t now y \<Longrightarrow> source_step t f x p now = source_step t f y p now"
  by (simp add: source_step_def)

lemma source_step_setup: "same_setup t t' \<Longrightarrow> source_step t' f x p now = source_step t f x p now"
  using same_setup_fields [of t t']
  by (simp add: source_step_def alive_def live_def matches_step_def split: option.split)

lemma alive_setup: "same_setup t t' \<Longrightarrow> alive t' now x = alive t now x"
  using same_setup_fields [of t t'] by (simp add: alive_def live_def split: option.split)

lemma source_step_room:
  "(alive t now x = None \<Longrightarrow> \<not> f \<and> \<not> f') \<Longrightarrow> source_step t f x p now = source_step t f' x p now"
  by (cases "alive t now x") (simp_all add: source_step_def)

lemma dom_process:
  assumes "tracker_ok t T" "T \<le> now" "2 \<le> length (trk_sequence t)"
  shows "dom (hm_get (states (snd (process t p now)))) \<subseteq> insert (source_ip p) (dom (hm_get (states t)))"
proof
  fix ip
  assume "ip \<in> dom (hm_get (states (snd (process t p now))))"
  then show "ip \<in> insert (source_ip p) (dom (hm_get (states t)))"
    by (cases "ip = source_ip p") (auto simp: process_get_other [OF assms] alive_Some)
qed

lemma has_room:
  assumes "tracker_ok t T" "T \<le> now" and "dom (hm_get (states t)) \<subseteq> S" and "finite S"
    and "card S \<le> unat (trk_max_states t)" and "ip \<in> S"
    and "alive t now (hm_get (states t) ip) = None"
  shows "\<not> table_full t now"
proof -
  have e: "hm_ok (states (expire t now))" and ok: "hm_ok (states t)"
    using expire_ok [OF assms(1,2)] assms(1) by (simp_all add: tracker_ok_def)
  have "dom (hm_get (states (expire t now))) \<subseteq> S - {ip}"
    using assms(3,7) by (auto simp: hm_get_expire [OF ok] alive_def split: option.splits if_splits)
  then have "hm_len (states (expire t now)) \<le> card (S - {ip})"
    unfolding hm.len_card [OF e] by (rule card_mono [rotated]) (use assms(4) in simp)
  also have "\<dots> < card S" using assms(4,6) by (rule card_Diff1_less)
  finally show ?thesis using assms(5) by (simp add: table_full_def)
qed

lemma run_isolated_aux:
  assumes "tracker_ok t T" and "tracker_ok t' T" and "same_setup t t'" and "2 \<le> length (trk_sequence t)"
    and "alive t T (hm_get (states t) ip) = alive t T (hm_get (states t') ip)"
    and "dom (hm_get (states t)) \<subseteq> S" and "dom (hm_get (states t')) \<subseteq> S"
    and "finite S" and "card S \<le> unat (trk_max_states t)" and "sources es \<subseteq> S"
    and "sorted (T # map snd es)"
  shows "outcomes_of ip es (fst (run_tracker t es)) = fst (run_tracker t' (of_source ip es))"
  using assms
proof (induction es arbitrary: t t' T)
  case Nil
  then show ?case by (simp add: outcomes_of_def of_source_def)
next
  case (Cons e es)
  obtain p now where e: "e = (p, now)" by (cases e)
  let ?u = "snd (process t p now)" and ?u' = "snd (process t' p now)"
  have T: "T \<le> now" and s: "sorted (now # map snd es)" using Cons.prems(11) by (simp_all add: e)
  have pS: "source_ip p \<in> S" and rest: "sources es \<subseteq> S" using Cons.prems(10) by (auto simp: sources_def e)
  note ok = Cons.prems(1) T Cons.prems(4)
  have len': "2 \<le> length (trk_sequence t')" using Cons.prems(3,4) same_setup_fields by metis
  note ok' = Cons.prems(2) T len'
  have al: "alive t now (hm_get (states t) ip) = alive t now (hm_get (states t') ip)"
    using alive_later [OF Cons.prems(5) T] .
  have domu: "dom (hm_get (states ?u)) \<subseteq> S" using dom_process [OF ok, of p] Cons.prems(6) pS by blast
  note u = process_ok [OF ok] process_setup [of t p now]
  have lenu: "2 \<le> length (trk_sequence ?u)" and cardu: "card S \<le> unat (trk_max_states ?u)"
    using same_setup_fields [OF u(2)] Cons.prems(4,9) by simp_all
  show ?case
  proof (cases "source_ip p = ip")
    case True
    have room: "alive t now (hm_get (states t) ip) = None \<Longrightarrow> \<not> table_full t now \<and> \<not> table_full t' now"
      using has_room [OF Cons.prems(1) T Cons.prems(6,8,9), of ip] pS True
        has_room [OF Cons.prems(2) T Cons.prems(7,8), of ip] Cons.prems(3,9) al
        same_setup_fields [OF Cons.prems(3)] alive_setup [OF Cons.prems(3)] by simp
    let ?f = "table_full t now" and ?f' = "table_full t' now"
    have "source_step t' ?f' (hm_get (states t') ip) p now = source_step t ?f' (hm_get (states t) ip) p now"
      unfolding source_step_setup [OF Cons.prems(3)] by (rule source_step_alive [OF al [symmetric]])
    also have "\<dots> = source_step t ?f (hm_get (states t) ip) p now"
      using room by (intro source_step_room) simp
    finally have step: "source_step t' ?f' (hm_get (states t') ip) p now
        = source_step t ?f (hm_get (states t) ip) p now" .
    have out: "fst (process t' p now) = fst (process t p now)"
      using step True by (simp add: process_outcome [OF ok] process_outcome [OF ok'])
    have get: "hm_get (states ?u') ip = hm_get (states ?u) ip"
      using step process_get_own [OF ok, of p] process_get_own [OF ok', of p] True by simp
    have "dom (hm_get (states ?u')) \<subseteq> S" using dom_process [OF ok', of p] Cons.prems(7) pS by blast
    moreover have "same_setup ?u ?u'"
      using Cons.prems(3) process_setup [of t' p now] u(2)
      by (cases t; cases t'; cases ?u; cases ?u') (simp add: same_setup_def)
    ultimately have "outcomes_of ip es (fst (run_tracker ?u es)) = fst (run_tracker ?u' (of_source ip es))"
      using Cons.IH [OF u(1) process_ok [OF ok'] _ lenu _ domu _ Cons.prems(8) cardu rest s] get by simp
    then show ?thesis using True out by (simp add: e of_source_Cons Let_def split_beta)
  next
    case False
    have "alive ?u now (hm_get (states ?u) ip) = alive ?u now (hm_get (states t') ip)"
      using al False
      by (simp add: alive_setup [OF u(2)] process_get_other [OF ok] alive_alive)
    moreover have "tracker_ok t' now" using Cons.prems(2) T by (fastforce simp: tracker_ok_def)
    moreover have "same_setup ?u t'"
      using Cons.prems(3) u(2) by (cases t; cases t'; cases ?u) (simp add: same_setup_def)
    ultimately have "outcomes_of ip es (fst (run_tracker ?u es)) = fst (run_tracker t' (of_source ip es))"
      using Cons.IH [OF u(1) _ _ lenu _ domu Cons.prems(7,8) cardu rest s] by simp
    then show ?thesis using False by (simp add: e of_source_Cons Let_def split_beta)
  qed
qed

lemma run_isolated:
  assumes "sorted (map snd es)" and "2 \<le> length sq" and "card (sources es) \<le> unat n"
  shows "outcomes_of ip es (fst (run_tracker (knock_tracker_new sq w to n m) es))
    = fst (run_tracker (knock_tracker_new sq w to n m) (of_source ip es))"
  by (rule run_isolated_aux [where T = 0 and S = "sources es"])
    (use assms new_ok in \<open>auto simp: knock_tracker_new_def same_setup_def sources_def\<close>)

section \<open>A source that knocks from the beginning\<close>

lemma knock_from_start:
  assumes "tracker_ok t T" and "2 \<le> length (trk_sequence t)"
    and "hm_get (states t) (source_ip p) = None" and "\<not> table_full t now"
    and "list_all2 step_matches (trk_sequence t) (map fst (of_source (source_ip p) ((p, now) # es)))"
    and "sorted (T # now # map snd es)"
    and "paced (trk_timeout t) (map snd (of_source (source_ip p) ((p, now) # es)))"
    and "duration_since (snd (last es)) now \<le> trk_window t"
    and "source_ip (fst (last es)) = source_ip p"
    and "\<forall>s\<in>set (trk_sequence t). step_size s \<le> trk_max_payload t"
  shows "last (fst (run_tracker t ((p, now) # es))) = Accepted"
proof -
  let ?u = "snd (process t p now)" and ?mine = "of_source (source_ip p) es"
  have T: "T \<le> now" using assms(6) by simp
  note ok = assms(1) T assms(2)
  note fixed = same_setup_fields [OF process_setup, of t p now]
  obtain s sq where sq: "trk_sequence t = s # sq" using assms(2) by (cases "trk_sequence t") auto
  have m: "matches_step t 0 p" and rest: "list_all2 step_matches sq (map fst ?mine)"
    using assms(5) by (simp_all add: sq matches_step_def of_source_Cons)
  have "step_size s \<le> trk_max_payload t" using assms(10) by (simp add: sq)
  then have size: "\<not> trk_max_payload t < payload_size p"
    using m by (auto simp: matches_step_def step_matches_def sq not_less)
  have step: "hm_get (states ?u) (source_ip p) = Some (fresh_state now)"
    using assms(3,4) m size process_get_own [OF ok, of p] by (simp add: source_step_def alive_def)
  have "?mine \<noteq> []" using rest assms(2) by (auto simp: sq)
  then have ne: "es \<noteq> []" by (auto simp: of_source_def)
  have "last (fst (run_tracker ?u es)) = Accepted"
  proof (rule run_completes [OF process_ok [OF ok] _ step])
    show "list_all2 step_matches (drop (next_step (fresh_state now)) (trk_sequence ?u)) (map fst ?mine)"
      using rest by (simp add: fixed sq fresh_state_def)
    show "paced (trk_timeout ?u) (last_seen (fresh_state now) # map snd ?mine)"
      using assms(7) by (simp add: fixed fresh_state_def of_source_Cons)
    show "duration_since (snd (last es)) (first_seen (fresh_state now)) \<le> trk_window ?u"
      using assms(8) by (simp add: fixed fresh_state_def)
  qed (use assms ne in \<open>simp_all add: fixed\<close>)
  then show ?thesis using ne run_tracker_Nil_iff [of ?u es]
    by (auto simp: Let_def split: prod.splits)
qed

lemma run_tracker_take:
  "i < length es \<Longrightarrow> fst (run_tracker t es) ! i = last (fst (run_tracker t (take (Suc i) es)))"
proof (induction es arbitrary: t i)
  case (Cons e es)
  obtain p now where e: "e = (p, now)" by (cases e)
  let ?u = "snd (process t p now)"
  show ?case
  proof (cases i)
    case (Suc j)
    have "take (Suc j) es \<noteq> []" using Cons.prems Suc by auto
    then have ne: "fst (run_tracker ?u (take (Suc j) es)) \<noteq> []" by (simp add: run_tracker_Nil_iff)
    have "fst (run_tracker ?u es) ! j = last (fst (run_tracker ?u (take (Suc j) es)))"
      using Cons Suc by simp
    with ne show ?thesis by (simp add: e Suc Let_def split_beta)
  qed (simp add: e Let_def split_beta)
qed simp

lemma accepted_at:
  assumes "sorted (map snd es)" and "2 \<le> length sq" and "i < length es"
    and "fst (run_tracker (knock_tracker_new sq w to n m) es) ! i = Accepted"
  shows "completes sq w to (source_ip (fst (es ! i))) (take (Suc i) es)"
proof -
  have split: "take (Suc i) es = take i es @ [(fst (es ! i), snd (es ! i))]"
    using assms(3) by (simp add: take_Suc_conv_app_nth)
  have "sorted (map snd (take (Suc i) es))"
    using assms(1) by (simp add: take_map [symmetric] sorted_wrt_take)
  then show ?thesis
    using run_accepted_completes [of "take i es" "fst (es ! i)" "snd (es ! i)" sq w to n m]
      assms(2,4) run_tracker_take [OF assms(3)] by (simp only: split)
qed

section \<open>Properties\<close>

text \<open>A concrete tracker, that of the example configuration, and concrete knocks.\<close>

definition example_tracker :: knock_tracker where
  "example_tracker = knock_tracker_new (sequence (knock example_config)) (from_secs 5) (from_secs 10) 4096 512"

definition udp_packet :: "ip_addr \<Rightarrow> u16 \<Rightarrow> usize \<Rightarrow> knock_packet" where
  "udp_packet ip port n = \<lparr> source_ip = ip, pkt_protocol = Udp, pkt_port = Some port, payload_size = n \<rparr>"

definition example_knock :: "ip_addr \<Rightarrow> arrival list" where
  "example_knock ip = [(udp_packet ip 40101 64, 10), (udp_packet ip 40102 128, 20), (udp_packet ip 40103 96, 30)]"

lemmas example_simps = example_tracker_def knock_tracker_new_def example_config_simps udp_packet_def
  example_knock_def from_secs_def nanos_per_sec_def

lemma example_run: "run_tracker example_tracker (example_knock ip) = ([Progress 1, Progress 2, Accepted], example_tracker)"
  by (simp add: example_simps process_def expire_def live_def matches_step_def step_matches_def
      start_partial_state_def remove_source_def hm_defs duration_since_def)

text \<open>
  C7: soundness of the tracker. When the tracker accepts a packet, the last packets of its
  source up to and including this one are the complete knock sequence in order, each with the
  protocol, port and payload size of its step, no other packet of the source in between, the
  whole within the sequence window and no two consecutive ones further apart than the partial
  state timeout; for every sequence of packets of any number of sources.
\<close>

theorem accepted_means_knocked:
  "sorted (map snd es) \<Longrightarrow> 2 \<le> length sq \<Longrightarrow> i < length es \<Longrightarrow>
    fst (run_tracker (knock_tracker_new sq w to n m) es) ! i = Accepted \<Longrightarrow>
    completes sq w to (source_ip (fst (es ! i))) (take (Suc i) es)"
  by (rule accepted_at)

theorem accepted_means_knocked_witness:
  "completes (sequence (knock example_config)) (from_secs 5) (from_secs 10) (ipv4 10 0 0 1)
     (example_knock (ipv4 10 0 0 1))"
proof -
  let ?es = "example_knock (ipv4 10 0 0 1)" and ?sq = "sequence (knock example_config)"
  have "completes ?sq (from_secs 5) (from_secs 10) (source_ip (fst (?es ! 2))) (take (Suc 2) ?es)"
  proof (rule accepted_means_knocked [where n = 4096 and m = 512])
    show "fst (run_tracker (knock_tracker_new ?sq (from_secs 5) (from_secs 10) 4096 512) ?es) ! 2 = Accepted"
      using example_run [of "ipv4 10 0 0 1"] by (simp add: example_tracker_def)
  qed (simp_all add: example_simps)
  then show ?thesis by (simp add: example_knock_def udp_packet_def)
qed

text \<open>
  C8: completeness of the tracker. A source without partial state that sends the whole sequence
  in time is accepted with its last packet, whatever the other sources send meanwhile, as long
  as the table has room when it starts.
\<close>

theorem knocking_is_accepted:
  "tracker_ok t T \<Longrightarrow> 2 \<le> length (trk_sequence t) \<Longrightarrow>
    hm_get (states t) (source_ip p) = None \<Longrightarrow> \<not> table_full t now \<Longrightarrow>
    list_all2 fits (trk_sequence t) (map fst (of_source (source_ip p) ((p, now) # es))) \<Longrightarrow>
    sorted (T # now # map snd es) \<Longrightarrow>
    paced (trk_timeout t) (map snd (of_source (source_ip p) ((p, now) # es))) \<Longrightarrow>
    duration_since (snd (last es)) now \<le> trk_window t \<Longrightarrow>
    source_ip (fst (last es)) = source_ip p \<Longrightarrow>
    \<forall>s\<in>set (trk_sequence t). step_size s \<le> trk_max_payload t \<Longrightarrow>
    last (fst (run_tracker t ((p, now) # es))) = Accepted"
  unfolding list_all2_fits by (rule knock_from_start)

theorem knocking_is_accepted_witness:
  "last (fst (run_tracker example_tracker
     [(udp_packet (ipv4 10 0 0 1) 40101 64, 10), (udp_packet (ipv4 10 0 0 2) 40103 7, 15),
      (udp_packet (ipv4 10 0 0 1) 40102 128, 20), (udp_packet (ipv4 10 0 0 1) 40103 96, 30)])) = Accepted"
proof -
  have "tracker_ok example_tracker 0" unfolding example_tracker_def by (rule new_ok)
  then show ?thesis
    by (rule knocking_is_accepted)
      (simp_all add: example_simps of_source_def ipv4_def fits_def paced_def duration_since_def
        table_full_def expire_def hm_defs)
qed

text \<open>
  C10: the tracker refines the automaton of one source. For a packet of a source, the outcome and
  the source's new state are those of the automaton run on the source's own entry and one bit,
  whether the table is full; the entry of every other source only ages.
\<close>

theorem process_refines:
  "tracker_ok t T \<Longrightarrow> T \<le> now \<Longrightarrow> 2 \<le> length (trk_sequence t) \<Longrightarrow>
    fst (process t p now) = fst (source_step t (table_full t now) (hm_get (states t) (source_ip p)) p now)
    \<and> hm_get (states (snd (process t p now))) ip =
        (if ip = source_ip p
         then snd (source_step t (table_full t now) (hm_get (states t) (source_ip p)) p now)
         else alive t now (hm_get (states t) ip))"
  by (rule process_refines_aux)

theorem process_refines_witness:
  "fst (process example_tracker (udp_packet (ipv4 10 0 0 1) 40101 64) 10) = Progress 1"
proof -
  have "tracker_ok example_tracker 0" unfolding example_tracker_def by (rule new_ok)
  from process_refines [OF this, of 10 "udp_packet (ipv4 10 0 0 1) 40101 64"] show ?thesis
    by (simp add: example_simps source_step_def alive_def table_full_def expire_def hm_defs
        matches_step_def step_matches_def)
qed

text \<open>
  C15: after any run, the number of partial states is at most \<open>max_partial_states\<close>, every partial
  state is strictly inside the sequence, and its time stamps are ordered and not in the future.
\<close>

theorem tracker_invariant:
  "sorted (map snd es) \<Longrightarrow> 2 \<le> length sq \<Longrightarrow>
    tracker_len (snd (run_tracker (knock_tracker_new sq w to n m) es)) \<le> unat n
    \<and> tracker_ok (snd (run_tracker (knock_tracker_new sq w to n m) es))
        (if es = [] then 0 else snd (last es))"
  using run_tracker_ok [of es sq w to n m] same_setup_fields(4) [OF run_tracker_setup]
  by (cases "es = []") (auto simp: tracker_ok_def tracker_len_def knock_tracker_new_def)

theorem tracker_invariant_witness:
  "tracker_ok (snd (run_tracker example_tracker (example_knock (ipv4 10 0 0 1)))) 30"
  using tracker_invariant [of "example_knock (ipv4 10 0 0 1)" "sequence (knock example_config)"
      "from_secs 5" "from_secs 10" 4096 512]
  by (simp add: example_simps)

text \<open>
  C13: isolation. While the table has room for every source that sends packets, the outcomes of
  one source are those it would get if it were alone: other sources can neither advance, nor
  reset, nor delay its knock.
\<close>

theorem sources_isolated:
  "sorted (map snd es) \<Longrightarrow> 2 \<le> length sq \<Longrightarrow> card (sources es) \<le> unat n \<Longrightarrow>
    outcomes_of ip es (fst (run_tracker (knock_tracker_new sq w to n m) es))
      = fst (run_tracker (knock_tracker_new sq w to n m) (of_source ip es))"
  by (rule run_isolated)

theorem sources_isolated_witness:
  "outcomes_of (ipv4 10 0 0 1)
     ((udp_packet (ipv4 10 0 0 2) 40101 64, 5) # example_knock (ipv4 10 0 0 1))
     (fst (run_tracker example_tracker
       ((udp_packet (ipv4 10 0 0 2) 40101 64, 5) # example_knock (ipv4 10 0 0 1))))
   = [Progress 1, Progress 2, Accepted]"
proof -
  let ?es = "(udp_packet (ipv4 10 0 0 2) 40101 64, 5) # example_knock (ipv4 10 0 0 1)"
  have "sources ?es = {ipv4 10 0 0 2, ipv4 10 0 0 1}"
    by (simp add: sources_def example_knock_def udp_packet_def)
  then have "card (sources ?es) \<le> unat (4096 :: usize)"
    by (simp add: card_insert_if)
  from sources_isolated [OF _ _ this, of "sequence (knock example_config)" "ipv4 10 0 0 1"
      "from_secs 5" "from_secs 10" 512]
  have "outcomes_of (ipv4 10 0 0 1) ?es (fst (run_tracker example_tracker ?es))
      = fst (run_tracker example_tracker (of_source (ipv4 10 0 0 1) ?es))"
    by (simp add: example_tracker_def) (simp add: example_simps)
  moreover have "of_source (ipv4 10 0 0 1) ?es = example_knock (ipv4 10 0 0 1)"
    by (simp add: of_source_def example_knock_def udp_packet_def ipv4_def)
  ultimately show ?thesis using example_run by simp
qed

text \<open>
  The check in \<open>process\<close> that an advanced source is still inside the window never fires,
  because the expiry at the start of \<open>process\<close> has already removed such a state: the function
  without the check is the same function.
\<close>

theorem window_check_redundant: "hm_ok (states t) \<Longrightarrow> process t p now = process_unchecked t p now"
  by (rule process_unchecked_eq)

theorem window_check_redundant_witness:
  "process example_tracker (udp_packet (ipv4 10 0 0 1) 40101 64) 10
     = process_unchecked example_tracker (udp_packet (ipv4 10 0 0 1) 40101 64) 10"
  by (rule window_check_redundant) (simp add: example_tracker_def knock_tracker_new_def)

end
