(* ===== verification/Firewall.thy ===== *)
theory Firewall
  imports Config
begin

text \<open>
  \<open>src/firewall.rs\<close>: the command runner interface with the system runner, the ipset and
  iptables command lines, the idempotent setup, the preflight check and the two operations
  that the server calls. The trait \<open>CommandRunner\<close> is the locale \<open>command_runner\<close>.
\<close>

section \<open>Commands\<close>

record command_spec =
  program :: string
  args :: "string list"

record command_status =
  cs_success :: bool
  cs_code :: "int option"
  cs_diagnostics :: string

type_synonym 's runner = "command_spec \<Rightarrow> ('s, command_status) io"

text \<open>The provided method \<open>CommandRunner::run\<close>.\<close>

definition run :: "'s runner \<Rightarrow> command_spec \<Rightarrow> ('s, unit) io" where
  "run run_status spec =
     bind_io (run_status spec) (\<lambda>status.
       if \<not> cs_success status then throw (Err (cs_diagnostics status)) else ret ())"

definition command_output_limit_bytes :: nat where
  "command_output_limit_bytes = 4096"

definition bounded_command_output :: "string \<Rightarrow> string" where
  "bounded_command_output bytes =
     (let shown = (if length bytes > command_output_limit_bytes
                   then take command_output_limit_bytes bytes else bytes);
          text = trim (from_utf8_lossy shown)
      in if length bytes > command_output_limit_bytes
         then text @ '' <truncated: showing first '' @ dec command_output_limit_bytes @ '' of ''
           @ dec (length bytes) @ '' bytes>''
         else text)"

definition format_command_failure :: "(string \<Rightarrow> string) \<Rightarrow> command_spec \<Rightarrow> cmd_output \<Rightarrow> string" where
  "format_command_failure wide spec out =
     ''command '' @ program spec @ '' exited unsuccessfully: status='' @ out_status out
     @ '', args='' @ debug_strs wide (args spec)
     @ '', stdout='' @ debug_str wide (bounded_command_output (out_stdout out))
     @ '', stderr='' @ debug_str wide (bounded_command_output (out_stderr out))"

text \<open>\<open>SystemCommandRunner::run_status\<close>.\<close>

definition system_run_status :: "os \<Rightarrow> 'z world_scheme runner" where
  "system_run_status os spec =
     bind_io (exec os (program spec) (args spec)) (\<lambda>r.
     bind_io (or_fail (''failed to execute '' @ program spec) r) (\<lambda>out.
       ret \<lparr> cs_success = out_success out, cs_code = out_code out,
             cs_diagnostics = format_command_failure (os_debug_wide os) spec out \<rparr>))"

section \<open>The firewall\<close>

record firewall =
  fw_ipset_name :: string
  fw_ban_ipset_name :: string
  fw_ip_timeout :: u64
  fw_ban_timeout :: u64
  fw_backend :: firewall_backend
  fw_family :: address_family

definition firewall_new ::
  "string \<Rightarrow> string \<Rightarrow> u64 \<Rightarrow> u64 \<Rightarrow> firewall_backend \<Rightarrow> address_family \<Rightarrow> firewall result" where
  "firewall_new name ban_name ip_to ban_to backend family =
     and_then (validate_ipset_name name) (\<lambda>_.
     and_then (validate_ipset_name ban_name) (\<lambda>_.
       if ip_to = 0 \<or> ban_to = 0 then Inl (Err ''firewall timeouts must be greater than zero'')
       else Inr \<lparr> fw_ipset_name = name, fw_ban_ipset_name = ban_name, fw_ip_timeout = ip_to,
                  fw_ban_timeout = ban_to, fw_backend = backend, fw_family = family \<rparr>))"

definition create_set_command :: "firewall \<Rightarrow> string \<Rightarrow> u64 \<Rightarrow> command_spec" where
  "create_set_command fw name timeout =
     \<lparr> program = ''ipset'',
       args = [''create'', name, ''hash:ip'', ''timeout'', dec (unat timeout)]
         @ (if fw_family fw = Ipv6 then [''family'', ''inet6''] else []) @ [''-exist''] \<rparr>"

definition create_ipset_command :: "firewall \<Rightarrow> command_spec" where
  "create_ipset_command fw = create_set_command fw (fw_ipset_name fw) (fw_ip_timeout fw)"

definition create_ban_ipset_command :: "firewall \<Rightarrow> command_spec" where
  "create_ban_ipset_command fw = create_set_command fw (fw_ban_ipset_name fw) (fw_ban_timeout fw)"

definition firewall_program :: "firewall \<Rightarrow> string" where
  "firewall_program fw = (case fw_backend fw of Iptables \<Rightarrow> ''iptables'' | Ip6tables \<Rightarrow> ''ip6tables'')"

definition iptables_ban_drop_rule_args :: "firewall \<Rightarrow> string list" where
  "iptables_ban_drop_rule_args fw =
     [''-m'', ''set'', ''--match-set'', fw_ban_ipset_name fw, ''src'', ''-j'', ''DROP'']"

definition iptables_allow_rule_args :: "firewall \<Rightarrow> u16 \<Rightarrow> string list" where
  "iptables_allow_rule_args fw port =
     [''-p'', ''tcp'', ''--dport'', dec (unat port), ''-m'', ''set'', ''--match-set'',
      fw_ipset_name fw, ''src'', ''-j'', ''ACCEPT'']"

definition iptables_drop_rule_args :: "firewall \<Rightarrow> u16 \<Rightarrow> string list" where
  "iptables_drop_rule_args fw port = [''-p'', ''tcp'', ''--dport'', dec (unat port), ''-j'', ''DROP'']"

definition iptables_ban_drop_command :: "firewall \<Rightarrow> command_spec" where
  "iptables_ban_drop_command fw = \<lparr> program = firewall_program fw,
     args = [''-I'', ''INPUT'', ''1''] @ iptables_ban_drop_rule_args fw \<rparr>"

definition iptables_ban_drop_check_command :: "firewall \<Rightarrow> command_spec" where
  "iptables_ban_drop_check_command fw = \<lparr> program = firewall_program fw,
     args = [''-C'', ''INPUT''] @ iptables_ban_drop_rule_args fw \<rparr>"

definition iptables_allow_command :: "firewall \<Rightarrow> u16 \<Rightarrow> command_spec" where
  "iptables_allow_command fw port = \<lparr> program = firewall_program fw,
     args = [''-I'', ''INPUT'', ''1''] @ iptables_allow_rule_args fw port \<rparr>"

definition iptables_allow_check_command :: "firewall \<Rightarrow> u16 \<Rightarrow> command_spec" where
  "iptables_allow_check_command fw port = \<lparr> program = firewall_program fw,
     args = [''-C'', ''INPUT''] @ iptables_allow_rule_args fw port \<rparr>"

definition iptables_drop_command :: "firewall \<Rightarrow> u16 \<Rightarrow> command_spec" where
  "iptables_drop_command fw port = \<lparr> program = firewall_program fw,
     args = [''-A'', ''INPUT''] @ iptables_drop_rule_args fw port \<rparr>"

definition iptables_drop_check_command :: "firewall \<Rightarrow> u16 \<Rightarrow> command_spec" where
  "iptables_drop_check_command fw port = \<lparr> program = firewall_program fw,
     args = [''-C'', ''INPUT''] @ iptables_drop_rule_args fw port \<rparr>"

definition add_ip_command :: "firewall \<Rightarrow> ip_addr \<Rightarrow> command_spec" where
  "add_ip_command fw ip = \<lparr> program = ''ipset'',
     args = [''add'', fw_ipset_name fw, ip_to_string ip, ''timeout'',
       dec (unat (fw_ip_timeout fw)), ''-exist''] \<rparr>"

definition ban_ip_command :: "firewall \<Rightarrow> ip_addr \<Rightarrow> command_spec" where
  "ban_ip_command fw ip = \<lparr> program = ''ipset'',
     args = [''add'', fw_ban_ipset_name fw, ip_to_string ip, ''timeout'',
       dec (unat (fw_ban_timeout fw)), ''-exist''] \<rparr>"

definition ensure_iptables_rule ::
  "'s runner \<Rightarrow> command_spec \<Rightarrow> command_spec \<Rightarrow> ('s, unit) io" where
  "ensure_iptables_rule run_status chk apply_cmd =
     bind_io (run_status chk) (\<lambda>status.
       if cs_success status then ret ()
       else if cs_code status = Some 1 then run run_status apply_cmd
       else throw (Err (cs_diagnostics status)))"

definition fw_setup :: "firewall \<Rightarrow> 's runner \<Rightarrow> u16 \<Rightarrow> ('s, unit) io" where
  "fw_setup fw run_status port =
     bind_io (run run_status (create_ipset_command fw)) (\<lambda>_.
     bind_io (run run_status (create_ban_ipset_command fw)) (\<lambda>_.
     bind_io (ensure_iptables_rule run_status
       (iptables_allow_check_command fw port) (iptables_allow_command fw port)) (\<lambda>_.
     bind_io (ensure_iptables_rule run_status
       (iptables_drop_check_command fw port) (iptables_drop_command fw port)) (\<lambda>_.
     ensure_iptables_rule run_status
       (iptables_ban_drop_check_command fw) (iptables_ban_drop_command fw)))))"

definition add_ip :: "firewall \<Rightarrow> 's runner \<Rightarrow> ip_addr \<Rightarrow> ('s, unit) io" where
  "add_ip fw run_status ip = run run_status (add_ip_command fw ip)"

definition ban_ip :: "firewall \<Rightarrow> 's runner \<Rightarrow> ip_addr \<Rightarrow> ('s, unit) io" where
  "ban_ip fw run_status ip = run run_status (ban_ip_command fw ip)"

definition preflight :: "firewall \<Rightarrow> 's runner \<Rightarrow> ('s, unit) io" where
  "preflight fw run_status =
     bind_io (run run_status \<lparr> program = ''ipset'', args = [''list'', fw_ipset_name fw] \<rparr>) (\<lambda>_.
     bind_io (run run_status \<lparr> program = ''ipset'', args = [''list'', fw_ban_ipset_name fw] \<rparr>) (\<lambda>_.
     run run_status \<lparr> program = firewall_program fw, args = [''-S''] \<rparr>))"

end
