(* ===== verification/NetSpec.thy ===== *)
theory NetSpec
  imports Net
begin

text \<open>
  The text of an address determines the address: no two sources have the same command lines. For
  IPv6 the text is read back, with the compressed run of zero segments filled in.
\<close>

section \<open>Runs of zero segments\<close>

definition zeros_at :: "nat list \<Rightarrow> nat \<times> nat \<Rightarrow> bool" where
  "zeros_at ss r = (fst r + snd r \<le> length ss \<and> take (snd r) (drop (fst r) ss) = replicate (snd r) 0)"

lemma zeros_at_empty [simp]: "zeros_at ss (0, 0)"
  by (simp add: zeros_at_def)

lemma zero_run_zeros:
  assumes "zeros_at (pre @ ss) best" and "snd cur \<noteq> 0 \<Longrightarrow> fst cur + snd cur = length pre"
    and "zeros_at (pre @ ss) cur"
  shows "zeros_at (pre @ ss) (zero_run ss (length pre) cur best)"
  using assms
proof (induction ss arbitrary: pre cur best)
  case (Cons s ss)
  let ?cur' = "if snd cur = 0 then (length pre, 1) else (fst cur, Suc (snd cur))"
  have app: "pre @ s # ss = (pre @ [s]) @ ss" and len: "Suc (length pre) = length (pre @ [s])" by simp_all
  show ?case
  proof (cases "s = 0")
    case True
    have z: "zeros_at (pre @ s # ss) ?cur'"
    proof (cases "snd cur = 0")
      case True
      then show ?thesis using \<open>s = 0\<close> by (simp add: zeros_at_def)
    next
      case False
      then have "fst cur + snd cur = length pre" using Cons.prems(2) by simp
      moreover have "take (Suc n) (drop i (pre @ s # ss)) = take n (drop i (pre @ s # ss)) @ [s]"
        if "i + n = length pre" for i n
        using that [symmetric] by (simp add: take_Suc_conv_app_nth nth_append)
      ultimately show ?thesis
        using Cons.prems(3) False \<open>s = 0\<close> by (simp add: zeros_at_def replicate_append_same)
    qed
    then have "zeros_at ((pre @ [s]) @ ss) (zero_run ss (length (pre @ [s])) ?cur'
        (if snd ?cur' > snd best then ?cur' else best))"
      using Cons.prems(1,2) by (intro Cons.IH) (auto simp: app [symmetric])
    then show ?thesis using True by (simp add: Let_def)
  next
    case False
    have "zeros_at ((pre @ [s]) @ ss) (zero_run ss (length (pre @ [s])) (0, 0) best)"
      using Cons.prems(1) by (intro Cons.IH) (simp_all add: app [symmetric])
    then show ?thesis using False by simp
  qed
qed simp

lemma zero_run_fill:
  assumes "zero_run ss 0 (0, 0) (0, 0) = (start, n)"
  shows "ss = take start ss @ replicate n 0 @ drop (start + n) ss" and "start + n \<le> length ss"
proof -
  have "zeros_at ss (start, n)" using zero_run_zeros [of "[]" ss "(0, 0)" "(0, 0)"] assms by simp
  then have z: "start + n \<le> length ss" "take n (drop start ss) = replicate n 0"
    by (simp_all add: zeros_at_def)
  have "ss = take start ss @ take n (drop start ss) @ drop n (drop start ss)"
    by (simp only: append_take_drop_id)
  then show "ss = take start ss @ replicate n 0 @ drop (start + n) ss"
    by (simp add: z(2) add.commute)
  show "start + n \<le> length ss" by (rule z(1))
qed

section \<open>Reading an IPv6 text back\<close>

definition read_segments :: "string \<Rightarrow> nat list" where
  "read_segments s =
     (let parts = split_by (\<lambda>c. c = CHR '':'') s;
          pre = takeWhile (\<lambda>p. p \<noteq> []) parts; post = takeWhile (\<lambda>p. p \<noteq> []) (rev parts)
      in if length pre = length parts then map (from_base 16) parts
         else map (from_base 16) pre @ replicate (8 - length pre - length post) 0
           @ map (from_base 16) (rev post))"

lemma hex_no_colon: "c \<in> set (hex n) \<Longrightarrow> c \<noteq> CHR '':'' \<and> c \<noteq> CHR ''.''"
proof -
  assume "c \<in> set (hex n)"
  then obtain d where "d < 16" "c = digit_char d" using set_to_base [of 16 n] by auto
  then have "is_ascii_hexdigit c" using digit_char_hex by simp
  then show ?thesis by (auto simp: is_ascii_hexdigit_def Let_def)
qed

lemma from_hex [simp]: "from_base 16 (hex n) = n"
  by (simp add: from_to_base)

lemma from_hex_map: "map (from_base 16 \<circ> hex) ss = ss"
  by (simp add: comp_def)

definition parts_of :: "nat list \<Rightarrow> string list" where
  "parts_of ss = (if ss = [] then [[]] else map hex ss)"

lemma split_segments: "split_by (\<lambda>c. c = CHR '':'') (fmt_segments ss) = parts_of ss"
proof (cases "ss = []")
  case False
  then show ?thesis unfolding fmt_segments_def parts_of_def
    by (simp add: split_join hex_no_colon)
qed (simp add: fmt_segments_def parts_of_def join_def)

lemma split_by_append_none:
  "p s \<Longrightarrow> split_by p (a @ s # b) = split_by p a @ split_by p b"
proof (induction a)
  case (Cons x a)
  have "split_by p a \<noteq> []" by (cases a) (auto split: list.split)
  then show ?case using Cons by (auto split: list.splits)
qed simp

lemma takeWhile_parts: "takeWhile (\<lambda>p. p \<noteq> []) (parts_of ss @ [] # rest) = map hex ss"
  "takeWhile (\<lambda>p. p \<noteq> []) (rev (parts_of ss) @ [] # rest) = rev (map hex ss)"
  by (auto simp: parts_of_def takeWhile_append rev_map takeWhile_eq_all_conv [THEN iffD2])

lemma read_fmt: "length ss \<noteq> 0 \<Longrightarrow> read_segments (fmt_segments ss) = ss"
proof -
  assume "length ss \<noteq> 0"
  then have p: "split_by (\<lambda>c. c = CHR '':'') (fmt_segments ss) = map hex ss"
    unfolding split_segments by (simp add: parts_of_def)
  have t: "takeWhile (\<lambda>p. p \<noteq> []) (map hex ss) = map hex ss" by (simp add: takeWhile_eq_all_conv)
  show ?thesis unfolding read_segments_def p Let_def t by (simp add: from_hex_map)
qed

lemma read_compressed:
  assumes "length a + n + length b = 8"
  shows "read_segments (fmt_segments a @ ''::'' @ fmt_segments b) = a @ replicate n 0 @ b"
proof -
  let ?p = "\<lambda>c. c = CHR '':''"
  have "split_by ?p (fmt_segments a @ CHR '':'' # [] @ CHR '':'' # fmt_segments b)
      = parts_of a @ split_by ?p [] @ parts_of b"
    by (simp only: split_by_append_none split_segments)
  then have parts: "split_by ?p (fmt_segments a @ ''::'' @ fmt_segments b) = parts_of a @ [] # parts_of b"
    by simp
  have "length (map hex a) \<noteq> length (parts_of a @ [] # parts_of b)"
    by (simp add: parts_of_def)
  moreover have "8 - length a - length b = n" using assms by simp
  ultimately show ?thesis
    unfolding read_segments_def parts Let_def
    unfolding rev_append rev.simps(2) append_assoc append.simps takeWhile_parts
    by (simp add: from_hex_map rev_map)
qed

definition mapped :: "128 word \<Rightarrow> bool" where
  "mapped w = (take 6 (segments w) = [0, 0, 0, 0, 0, 65535])"

lemma length_segments [simp]: "length (segments w) = 8"
  by (simp add: segments_def)

lemma read_ipv6: "\<not> mapped w \<Longrightarrow> read_segments (ipv6_to_string w) = segments w"
proof -
  assume "\<not> mapped w"
  obtain start n where z: "zero_run (segments w) 0 (0, 0) (0, 0) = (start, n)" by fastforce
  have len: "length (take start (segments w)) + n + length (drop (start + n) (segments w)) = 8"
    using zero_run_fill(2) [OF z] by simp
  have fill: "take start (segments w) @ replicate n 0 @ drop (start + n) (segments w) = segments w"
    using zero_run_fill(1) [OF z] by simp
  show ?thesis
    using \<open>\<not> mapped w\<close> read_compressed [OF len] read_fmt [of "segments w"]
    by (simp add: ipv6_to_string_def mapped_def z Let_def fill)
qed

section \<open>Texts determine addresses\<close>

lemma word_agree:
  fixes v w :: "128 word"
  assumes "\<And>i. i < 8 \<Longrightarrow> k \<le> i \<Longrightarrow> unat v div 2 ^ (16 * i) mod 65536 = unat w div 2 ^ (16 * i) mod 65536"
    and "unat v mod 2 ^ (16 * k) = unat w mod 2 ^ (16 * k)"
  shows "v = w"
proof (rule bit_word_eqI)
  fix n :: nat
  assume n128: "n < LENGTH(128)"
  then have n: "n div 16 < 8" by simp
  show "bit v n = bit w n"
  proof (cases "k \<le> n div 16")
    case True
    have seg: "bit x n = bit (unat x div 2 ^ (16 * (n div 16)) mod 65536) (n mod 16)" for x :: "128 word"
    proof -
      have "bit (take_bit 16 (drop_bit (16 * (n div 16)) (unat x))) (n mod 16) = bit x n"
        using n128 by (simp add: bit_take_bit_iff bit_drop_bit_eq bit_unsigned_iff)
      then show ?thesis by (simp add: take_bit_eq_mod drop_bit_eq_div)
    qed
    show ?thesis unfolding seg [of v] seg [of w] assms(1) [OF n True] ..
  next
    case False
    then have "n < 16 * k" by (simp add: not_le less_mult_imp_div_less div_less_iff_less_mult)
    then have low: "bit x n = bit (unat x mod 2 ^ (16 * k)) n" for x :: "128 word"
      using n128 by (simp flip: take_bit_eq_mod add: bit_take_bit_iff bit_unsigned_iff)
    show ?thesis unfolding low [of v] low [of w] assms(2) ..
  qed
qed

lemma segments_nth:
  assumes "i < 8"
  shows "segments w ! (7 - i) = unat w div 2 ^ (16 * i) mod 65536"
proof -
  have "[7, 6, 5, 4, 3, 2, 1, 0] = rev [0..<8 :: nat]" by (simp add: upt_rec)
  then have s: "segments w = map (\<lambda>i. unat w div 2 ^ (16 * i) mod 65536) (rev [0..<8])"
    unfolding segments_def by simp
  have "7 - i < length [0..<8 :: nat]" and "8 - Suc (7 - i) = i" using assms by auto
  then have r: "rev [0..<8 :: nat] ! (7 - i) = i" using assms by (simp only: rev_nth length_upt diff_zero nth_upt)
  have "segments w ! (7 - i) = unat w div 2 ^ (16 * rev [0..<8] ! (7 - i)) mod 65536"
    unfolding s using assms by (intro nth_map) simp
  then show ?thesis unfolding r .
qed

lemma segments_inj: "segments v = segments w \<Longrightarrow> v = w"
  by (rule word_agree [of 0]) (simp_all flip: segments_nth)

lemma mapped_inj:
  assumes "mapped v" and "mapped w"
    and "(of_nat (unat v mod 2 ^ 32) :: 32 word) = of_nat (unat w mod 2 ^ 32)"
  shows "v = w"
proof (rule word_agree [of 2])
  show "unat v div 2 ^ (16 * i) mod 65536 = unat w div 2 ^ (16 * i) mod 65536" if "i < 8" "2 \<le> i" for i
  proof -
    have "take 6 (segments v) ! (7 - i) = take 6 (segments w) ! (7 - i)"
      using assms(1,2) by (simp add: mapped_def)
    then have "segments v ! (7 - i) = segments w ! (7 - i)" using that by simp
    then show ?thesis using that(1) by (simp only: segments_nth)
  qed
  show "unat v mod 2 ^ (16 * 2) = unat w mod 2 ^ (16 * 2)"
    using assms(3) by (simp add: word_of_nat_eq_iff take_bit_eq_mod)
qed

lemma no_colon: "c \<in> set (ipv4_to_string w) \<Longrightarrow> c \<noteq> CHR '':''"
  unfolding ipv4_to_string_def using dec_digits by (drule_tac set_join) (fastforce simp: is_ascii_digit_def)

lemma ipv6_has_colon: "CHR '':'' \<in> set (ipv6_to_string w)"
proof -
  have "CHR '':'' \<in> set (fmt_segments ss)" if "length ss = 8" for ss
    using that by (cases ss rule: list.exhaust; cases "tl ss") (auto simp: fmt_segments_def join_def)
  then show ?thesis
    by (cases "zero_run (segments w) 0 (0, 0) (0, 0)") (auto simp: ipv6_to_string_def Let_def)
qed

lemma mapped_has_dot: "mapped w \<longleftrightarrow> CHR ''.'' \<in> set (ipv6_to_string w)"
proof -
  have "CHR ''.'' \<notin> set (fmt_segments ss)" for ss
  proof
    assume "CHR ''.'' \<in> set (fmt_segments ss)"
    then obtain n where "CHR ''.'' \<in> set (hex n)"
      unfolding fmt_segments_def by (auto dest!: set_join)
    then show False using hex_no_colon by blast
  qed
  then have "CHR ''.'' \<notin> set (ipv6_to_string w)" if "\<not> mapped w"
    using that by (cases "zero_run (segments w) 0 (0, 0) (0, 0)") (auto simp: ipv6_to_string_def mapped_def Let_def)
  moreover have "CHR ''.'' \<in> set (ipv4_to_string x)" for x
    by (simp add: ipv4_to_string_def octets_def join_def)
  ultimately show ?thesis by (auto simp: ipv6_to_string_def mapped_def Let_def)
qed

lemma ipv6_to_string_inj:
  assumes "ipv6_to_string v = ipv6_to_string w"
  shows "v = w"
proof (cases "mapped v")
  case True
  then have "mapped w" using assms by (simp add: mapped_has_dot)
  then show ?thesis
    using True assms by (intro mapped_inj) (auto simp: ipv6_to_string_def mapped_def intro: ipv4_to_string_inj)
next
  case False
  then have "\<not> mapped w" using assms by (simp add: mapped_has_dot)
  then show ?thesis
    using False assms read_ipv6 [of v] read_ipv6 [of w] by (intro segments_inj) simp
qed

lemma ip_to_string_inj: "ip_to_string a = ip_to_string b \<longleftrightarrow> a = b"
  using no_colon ipv6_has_colon ipv4_to_string_inj ipv6_to_string_inj
  by (cases a; cases b) (auto, metis+)

end
