(* ===== verification/FirewallSpec.thy ===== *)
theory FirewallSpec
  imports Firewall NetSpec
begin

text \<open>
  The contract of a command runner, what the firewall operations execute through any runner
  that keeps it, and what setup makes of the INPUT chain of a kernel that answers rule checks
  as iptables documents.
\<close>

section \<open>The contract of a runner\<close>

definition executed :: "transcript \<Rightarrow> command_spec list" where
  "executed h = concat (map (\<lambda>e. case e of
     Exec p a r \<Rightarrow> [\<lparr> program = p, args = a \<rparr>] | _ \<Rightarrow> []) h)"

lemma executed_append [simp]: "executed (h @ es) = executed h @ executed es"
  by (simp add: executed_def)

lemma executed_Exec [simp]: "executed [Exec (program c) (args c) r] = [c]"
  by (simp add: executed_def)

text \<open>
  \<open>executes L m\<close>: \<open>m\<close> runs the commands of a list in \<open>L\<close>, in order, and all of them unless
  it fails.
\<close>

definition executes :: "command_spec list set \<Rightarrow> ('z world_scheme, 'a) io \<Rightarrow> bool" where
  "executes L m = (\<forall>w. \<exists>cs\<in>L. \<exists>k. executed (hist (snd (m w))) = executed (hist w) @ take k cs
     \<and> (\<forall>x. fst (m w) = Inr x \<longrightarrow> k = length cs))"

definition appends :: "'a list set \<Rightarrow> 'a list set \<Rightarrow> 'a list set" where
  "appends L M = (\<lambda>(a, b). a @ b) ` (L \<times> M)"

lemma in_appends: "cs \<in> appends L M \<longleftrightarrow> (\<exists>a b. a \<in> L \<and> b \<in> M \<and> cs = a @ b)"
  by (auto simp: appends_def)

lemma in_appends_setup:
  "cs \<in> appends {[a]} (appends {[b]} (appends A (appends B C))) \<Longrightarrow>
    \<exists>x\<in>A. \<exists>y\<in>B. \<exists>z\<in>C. cs = [a, b] @ x @ y @ z"
proof -
  assume "cs \<in> appends {[a]} (appends {[b]} (appends A (appends B C)))"
  then obtain x y z where "x \<in> A" "y \<in> B" "z \<in> C" "cs = [a] @ [b] @ x @ y @ z"
    unfolding in_appends by blast
  then show ?thesis by (intro bexI [of _ x] bexI [of _ y] bexI [of _ z]) simp_all
qed

lemma appends_not_empty: "L \<noteq> {} \<Longrightarrow> M \<noteq> {} \<Longrightarrow> appends L M \<noteq> {}"
  by (simp add: appends_def)

lemma executes_bind:
  assumes "executes L m" and "\<And>x. executes M (f x)" and "M \<noteq> {}"
  shows "executes (appends L M) (bind_io m f)"
  unfolding executes_def
proof
  fix w
  obtain r w' where m: "m w = (r, w')" by (cases "m w")
  from assms(1) obtain a i where a: "a \<in> L" "executed (hist w') = executed (hist w) @ take i a"
    "\<forall>x. r = Inr x \<longrightarrow> i = length a"
    unfolding executes_def using m by (metis fst_conv snd_conv)
  show "\<exists>cs\<in>appends L M. \<exists>k. executed (hist (snd (bind_io m f w))) = executed (hist w) @ take k cs
     \<and> (\<forall>x. fst (bind_io m f w) = Inr x \<longrightarrow> k = length cs)"
  proof (cases r)
    case (Inl e)
    obtain b where "b \<in> M" using assms(3) by blast
    with a have "a @ b \<in> appends L M" by (auto simp: appends_def)
    then show ?thesis
      using m a Inl by (intro bexI [of _ "a @ b"] exI [of _ "min i (length a)"]) (auto simp: bind_io_def min_def)
  next
    case (Inr x)
    obtain b j where b: "b \<in> M" "executed (hist (snd (f x w'))) = executed (hist w') @ take j b"
      "\<forall>y. fst (f x w') = Inr y \<longrightarrow> j = length b"
      using assms(2) [of x] unfolding executes_def by blast
    with a have "a @ b \<in> appends L M" by (auto simp: appends_def)
    then show ?thesis
      using m a b Inr by (intro bexI [of _ "a @ b"] exI [of _ "length a + j"]) (auto simp: bind_io_def)
  qed
qed

definition setup_commands :: "firewall \<Rightarrow> u16 \<Rightarrow> bool \<Rightarrow> bool \<Rightarrow> bool \<Rightarrow> command_spec list" where
  "setup_commands fw port allow_present drop_present ban_present =
     [create_ipset_command fw, create_ban_ipset_command fw]
     @ iptables_allow_check_command fw port # (if allow_present then [] else [iptables_allow_command fw port])
     @ iptables_drop_check_command fw port # (if drop_present then [] else [iptables_drop_command fw port])
     @ iptables_ban_drop_check_command fw # (if ban_present then [] else [iptables_ban_drop_command fw])"

text \<open>Runs exactly one command, and touches nothing but the transcript.\<close>

locale command_runner =
  fixes run_status :: "'z world_scheme runner"
  assumes one_exec: "\<exists>r. hist (snd (run_status c w)) = hist w @ [Exec (program c) (args c) r]"
    and frame_status: "frame (run_status c)"
begin

lemma emits_status: "emits (\<lambda>e. \<exists>r. e = Exec (program c) (args c) r) (run_status c)"
  unfolding emits_def
proof
  fix w
  obtain r where "hist (snd (run_status c w)) = hist w @ [Exec (program c) (args c) r]"
    using one_exec by blast
  then show "\<exists>es. hist (snd (run_status c w)) = hist w @ es
      \<and> list_all (\<lambda>e. \<exists>r. e = Exec (program c) (args c) r) es"
    by (intro exI [of _ "[Exec (program c) (args c) r]"]) auto
qed

lemma emits_run: "emits (\<lambda>e. \<exists>r. e = Exec (program c) (args c) r) (run run_status c)"
  unfolding run_def
  by (rule emits_bind [OF emits_status]) (simp add: emits_leaf)

lemma frame_run: "frame (run run_status c)"
  by (auto simp: run_def intro!: frame_intros frame_status)

lemma executed_status: "executed (hist (snd (run_status c w))) = executed (hist w) @ [c]"
proof -
  obtain r where "hist (snd (run_status c w)) = hist w @ [Exec (program c) (args c) r]"
    using one_exec by blast
  then show ?thesis by simp
qed

lemma run_hist: "hist (snd (run run_status c w)) = hist (snd (run_status c w))"
  by (simp add: run_def bind_io_def io_defs split: prod.splits sum.splits)

lemma executed_run: "executed (hist (snd (run run_status c w))) = executed (hist w) @ [c]"
  by (simp add: run_hist executed_status)

lemma executes_run: "executes {[c]} (run run_status c)"
  unfolding executes_def by (auto simp: executed_run intro!: exI [of _ 1])

lemma executes_ensure: "executes {[chk], [chk, app]} (ensure_iptables_rule run_status chk app)"
  unfolding executes_def
proof
  fix w
  obtain r w1 where 1: "run_status chk w = (r, w1)" by (cases "run_status chk w")
  then have "executed (hist w1) = executed (hist w) @ [chk]"
    using executed_status [of chk w] by simp
  then show "\<exists>cs\<in>{[chk], [chk, app]}. \<exists>k.
      executed (hist (snd (ensure_iptables_rule run_status chk app w))) = executed (hist w) @ take k cs
      \<and> (\<forall>x. fst (ensure_iptables_rule run_status chk app w) = Inr x \<longrightarrow> k = length cs)"
    using 1 executed_run [of app w1]
    by (cases r)
      (auto simp: ensure_iptables_rule_def bind_io_def io_defs intro: exI [of _ 1] exI [of _ 2])
qed

lemma frame_ensure: "frame (ensure_iptables_rule run_status chk app)"
  by (auto simp: ensure_iptables_rule_def intro!: frame_intros frame_status frame_run)

lemma setup_executes:
  "\<exists>a d b k. executed (hist (snd (fw_setup fw run_status port w)))
      = executed (hist w) @ take k (setup_commands fw port a d b)
    \<and> (\<forall>x. fst (fw_setup fw run_status port w) = Inr x \<longrightarrow> k = length (setup_commands fw port a d b))"
proof -
  let ?L = "appends {[create_ipset_command fw]} (appends {[create_ban_ipset_command fw]}
    (appends {[iptables_allow_check_command fw port],
        [iptables_allow_check_command fw port, iptables_allow_command fw port]}
      (appends {[iptables_drop_check_command fw port],
          [iptables_drop_check_command fw port, iptables_drop_command fw port]}
        {[iptables_ban_drop_check_command fw],
          [iptables_ban_drop_check_command fw, iptables_ban_drop_command fw]})))"
  have "executes ?L (fw_setup fw run_status port)"
    unfolding fw_setup_def
    by (intro executes_bind executes_run executes_ensure appends_not_empty) simp_all
  then obtain cs k where cs: "cs \<in> ?L"
    "executed (hist (snd (fw_setup fw run_status port w))) = executed (hist w) @ take k cs"
    "\<forall>x. fst (fw_setup fw run_status port w) = Inr x \<longrightarrow> k = length cs"
    unfolding executes_def by blast
  have flag: "\<exists>p. xs = c # (if p then [] else [i])" if "xs \<in> {[c], [c, i]}" for xs and c i :: command_spec
    using that by (auto intro: exI [of _ True] exI [of _ False])
  from in_appends_setup [OF cs(1)] obtain xa xd xb where
    x: "xa \<in> {[iptables_allow_check_command fw port],
        [iptables_allow_check_command fw port, iptables_allow_command fw port]}"
      "xd \<in> {[iptables_drop_check_command fw port],
        [iptables_drop_check_command fw port, iptables_drop_command fw port]}"
      "xb \<in> {[iptables_ban_drop_check_command fw],
        [iptables_ban_drop_check_command fw, iptables_ban_drop_command fw]}"
    and "cs = [create_ipset_command fw, create_ban_ipset_command fw] @ xa @ xd @ xb"
    by (elim bexE) (rule that)
  moreover obtain a d b where
    "xa = iptables_allow_check_command fw port # (if a then [] else [iptables_allow_command fw port])"
    "xd = iptables_drop_check_command fw port # (if d then [] else [iptables_drop_command fw port])"
    "xb = iptables_ban_drop_check_command fw # (if b then [] else [iptables_ban_drop_command fw])"
    using flag [OF x(1)] flag [OF x(2)] flag [OF x(3)] by blast
  ultimately have "cs = setup_commands fw port a d b" by (simp add: setup_commands_def)
  with cs(2,3) show ?thesis by blast
qed

lemma preflight_executes:
  "\<exists>k. executed (hist (snd (preflight fw run_status w))) = executed (hist w) @ take k
      [\<lparr> program = ''ipset'', args = [''list'', fw_ipset_name fw] \<rparr>,
       \<lparr> program = ''ipset'', args = [''list'', fw_ban_ipset_name fw] \<rparr>,
       \<lparr> program = firewall_program fw, args = [''-S''] \<rparr>]
    \<and> (\<forall>x. fst (preflight fw run_status w) = Inr x \<longrightarrow> k = 3)"
proof -
  have "executes (appends {[\<lparr> program = ''ipset'', args = [''list'', fw_ipset_name fw] \<rparr>]}
      (appends {[\<lparr> program = ''ipset'', args = [''list'', fw_ban_ipset_name fw] \<rparr>]}
        {[\<lparr> program = firewall_program fw, args = [''-S''] \<rparr>]})) (preflight fw run_status)"
    unfolding preflight_def by (intro executes_bind executes_run) (auto simp: appends_def)
  then show ?thesis by (auto simp: executes_def appends_def numeral_3_eq_3)
qed

end

interpretation sys: command_runner "system_run_status os"
proof unfold_locales
  fix c and w :: "'a world_scheme"
  show "\<exists>r. hist (snd (system_run_status os c w)) = hist w @ [Exec (program c) (args c) r]"
    by (auto simp: system_run_status_def exec_def call_def bind_io_def or_fail_def io_defs
        split: sum.splits)
  show "frame (system_run_status os c :: ('a world_scheme, command_status) io)"
    by (auto simp: system_run_status_def exec_def intro!: frame_intros)
qed

section \<open>The INPUT chain\<close>

text \<open>
  What the executed iptables commands make of the chain: insertion at the head, appending at
  the end; a failed command changes nothing. \<open>faithful_netfilter\<close> is the documented behaviour
  of the check \<open>iptables -C\<close>: success when the rule is in the chain and status 1 otherwise.
\<close>

type_synonym rule = "string list"

definition chain_step :: "string \<Rightarrow> rule list \<Rightarrow> event \<Rightarrow> rule list" where
  "chain_step prog c e = (case e of
       Exec p a (Inr out) \<Rightarrow>
         if p = prog \<and> out_success out then
           if take 3 a = [''-I'', ''INPUT'', ''1''] then drop 3 a # c
           else if take 2 a = [''-A'', ''INPUT''] then c @ [drop 2 a] else c
         else c
     | _ \<Rightarrow> c)"

definition chain_of :: "string \<Rightarrow> rule list \<Rightarrow> transcript \<Rightarrow> rule list" where
  "chain_of prog c0 h = foldl (chain_step prog) c0 h"

definition faithful_netfilter :: "string \<Rightarrow> rule list \<Rightarrow> os \<Rightarrow> bool" where
  "faithful_netfilter prog c0 os = (\<forall>h a. \<exists>out. os_exec os h prog ([''-C'', ''INPUT''] @ a) = Inr out
     \<and> (if a \<in> set (chain_of prog c0 h) then out_success out
        else \<not> out_success out \<and> out_code out = Some 1))"

definition ensure_rule :: "rule \<Rightarrow> (rule list \<Rightarrow> rule list) \<Rightarrow> rule list \<Rightarrow> rule list" where
  "ensure_rule r ins c = (if r \<in> set c then c else ins c)"

definition chain_after_setup :: "firewall \<Rightarrow> u16 \<Rightarrow> rule list \<Rightarrow> rule list" where
  "chain_after_setup fw port c =
     ensure_rule (iptables_ban_drop_rule_args fw) (\<lambda>c. iptables_ban_drop_rule_args fw # c)
       (ensure_rule (iptables_drop_rule_args fw port) (\<lambda>c. c @ [iptables_drop_rule_args fw port])
         (ensure_rule (iptables_allow_rule_args fw port)
           (\<lambda>c. iptables_allow_rule_args fw port # c) c))"

lemma chain_of_snoc: "chain_of prog c0 (h @ [e]) = chain_step prog (chain_of prog c0 h) e"
  by (simp add: chain_of_def)

lemma system_status_unfold:
  "system_run_status os c w = (case os_exec os (hist w) (program c) (args c) of
       Inl e \<Rightarrow> (Inl (Err (''failed to execute '' @ program c)),
         w\<lparr>hist := hist w @ [Exec (program c) (args c) (Inl e)]\<rparr>)
     | Inr out \<Rightarrow> (Inr \<lparr> cs_success = out_success out, cs_code = out_code out,
           cs_diagnostics = format_command_failure (os_debug_wide os) c out \<rparr>,
         w\<lparr>hist := hist w @ [Exec (program c) (args c) (Inr out)]\<rparr>))"
  by (simp add: system_run_status_def exec_def call_def bind_io_def or_fail_def io_defs split: sum.splits)

lemma chain_run:
  assumes "run (system_run_status os) c w = (Inr (), w')"
  shows "\<exists>out. out_success out \<and> chain_of prog c0 (hist w') =
    chain_step prog (chain_of prog c0 (hist w)) (Exec (program c) (args c) (Inr out))"
  using assms
  by (auto simp: run_def bind_io_def io_defs system_status_unfold chain_of_snoc
      split: sum.splits if_splits)

lemma chain_ensure:
  assumes "faithful_netfilter prog c0 os" and "program chk = prog" and "args chk = [''-C'', ''INPUT''] @ r"
    and "ensure_iptables_rule (system_run_status os) chk app w = (Inr (), w')"
    and "\<And>c out. out_success out \<Longrightarrow> chain_step prog c (Exec (program app) (args app) (Inr out)) = ins c"
  shows "chain_of prog c0 (hist w') = ensure_rule r ins (chain_of prog c0 (hist w))"
proof -
  obtain out where out: "os_exec os (hist w) prog ([''-C'', ''INPUT''] @ r) = Inr out"
    "if r \<in> set (chain_of prog c0 (hist w)) then out_success out
        else \<not> out_success out \<and> out_code out = Some 1"
    using assms(1) unfolding faithful_netfilter_def by blast
  let ?w1 = "w\<lparr>hist := hist w @ [Exec prog ([''-C'', ''INPUT''] @ r) (Inr out)]\<rparr>"
  have 1: "chain_of prog c0 (hist ?w1) = chain_of prog c0 (hist w)"
    by (simp add: chain_of_snoc chain_step_def)
  show ?thesis
  proof (cases "r \<in> set (chain_of prog c0 (hist w))")
    case True
    then show ?thesis
      using assms out 1
      by (auto simp: ensure_iptables_rule_def bind_io_def io_defs system_status_unfold ensure_rule_def)
  next
    case False
    then have "run (system_run_status os) app ?w1 = (Inr (), w')"
      using assms out
      by (auto simp: ensure_iptables_rule_def bind_io_def io_defs system_status_unfold)
    from chain_run [OF this, of prog c0] show ?thesis
      using False assms(5) 1 by (auto simp: ensure_rule_def)
  qed
qed

lemma setup_chain_aux:
  assumes "faithful_netfilter (firewall_program fw) c0 os"
    and "fw_setup fw (system_run_status os) port w = (Inr (), w')"
  shows "chain_of (firewall_program fw) c0 (hist w') =
    chain_after_setup fw port (chain_of (firewall_program fw) c0 (hist w))"
proof -
  let ?p = "firewall_program fw" and ?rs = "system_run_status os"
  let ?chain = "\<lambda>w. chain_of ?p c0 (hist w)"
  have neq: "''ipset'' \<noteq> ?p" by (simp add: firewall_program_def split: firewall_backend.split)
  from assms(2) obtain w1 w2 w3 w4 where
    s: "run ?rs (create_ipset_command fw) w = (Inr (), w1)"
      "run ?rs (create_ban_ipset_command fw) w1 = (Inr (), w2)"
      "ensure_iptables_rule ?rs (iptables_allow_check_command fw port) (iptables_allow_command fw port) w2
        = (Inr (), w3)"
      "ensure_iptables_rule ?rs (iptables_drop_check_command fw port) (iptables_drop_command fw port) w3
        = (Inr (), w4)"
      "ensure_iptables_rule ?rs (iptables_ban_drop_check_command fw) (iptables_ban_drop_command fw) w4
        = (Inr (), w')"
    by (auto simp: fw_setup_def elim!: bind_io_cases)
  have "?chain w2 = ?chain w"
    using chain_run [OF s(1), of ?p c0] chain_run [OF s(2), of ?p c0] neq
    by (auto simp: chain_step_def create_ipset_command_def create_ban_ipset_command_def create_set_command_def)
  moreover have "?chain w3 = ensure_rule (iptables_allow_rule_args fw port)
      (\<lambda>c. iptables_allow_rule_args fw port # c) (?chain w2)"
    by (rule chain_ensure [OF assms(1) _ _ s(3)])
      (simp_all add: iptables_allow_check_command_def iptables_allow_command_def chain_step_def)
  moreover have "?chain w4 = ensure_rule (iptables_drop_rule_args fw port)
      (\<lambda>c. c @ [iptables_drop_rule_args fw port]) (?chain w3)"
    by (rule chain_ensure [OF assms(1) _ _ s(4)])
      (simp_all add: iptables_drop_check_command_def iptables_drop_command_def chain_step_def)
  moreover have "?chain w' = ensure_rule (iptables_ban_drop_rule_args fw)
      (\<lambda>c. iptables_ban_drop_rule_args fw # c) (?chain w4)"
    by (rule chain_ensure [OF assms(1) _ _ s(5)])
      (simp_all add: iptables_ban_drop_check_command_def iptables_ban_drop_command_def chain_step_def)
  ultimately show ?thesis by (simp add: chain_after_setup_def)
qed

lemma chain_after_setup_again:
  "chain_after_setup fw port (chain_after_setup fw port c) = chain_after_setup fw port c"
  by (auto simp: chain_after_setup_def ensure_rule_def)

text \<open>
  The verdict of a chain: that of the first rule that decides. \<open>d r\<close> is what the rule \<open>r\<close> decides
  on the packet, and \<open>None\<close> when \<open>r\<close> does not match or its target lets the packet go on to the next
  rule, as \<open>LOG\<close> does, or a jump to a chain that returns.
\<close>

fun chain_verdict :: "(rule \<Rightarrow> string option) \<Rightarrow> rule list \<Rightarrow> string option" where
  "chain_verdict d [] = None"
| "chain_verdict d (r # rs) = (case d r of None \<Rightarrow> chain_verdict d rs | Some v \<Rightarrow> Some v)"

lemma chain_verdict_append:
  "chain_verdict d (a @ b) = (case chain_verdict d a of None \<Rightarrow> chain_verdict d b | Some v \<Rightarrow> Some v)"
  by (induction a) (auto split: option.split)

text \<open>
  A packet at the INPUT chain, and when a rule matches it, read off the rule's arguments as
  iptables documents them; \<open>sets\<close> holds the members of every ipset.
\<close>

record in_packet =
  in_src :: ip_addr
  in_tcp :: bool
  in_dport :: u16

fun rule_matches :: "(string \<Rightarrow> ip_addr set) \<Rightarrow> in_packet \<Rightarrow> rule \<Rightarrow> bool" where
  "rule_matches sets pkt (k # v # r) =
     (if k = ''-p'' then v = ''tcp'' \<and> in_tcp pkt \<and> rule_matches sets pkt r
      else if k = ''--dport'' then v = dec (unat (in_dport pkt)) \<and> rule_matches sets pkt r
      else if k = ''-m'' then v = ''set'' \<and> rule_matches sets pkt r
      else if k = ''--match-set'' then
        (case r of [] \<Rightarrow> False
         | d # r' \<Rightarrow> d = ''src'' \<and> in_src pkt \<in> sets v \<and> rule_matches sets pkt r')
      else k = ''-j'' \<and> r = [])"
| "rule_matches sets pkt r = False"

text \<open>What a rule with a target that decides, \<open>ACCEPT\<close> or \<open>DROP\<close>, decides.\<close>

definition rule_verdict :: "(string \<Rightarrow> ip_addr set) \<Rightarrow> in_packet \<Rightarrow> rule \<Rightarrow> string option" where
  "rule_verdict sets pkt r = (if rule_matches sets pkt r then Some (last r) else None)"

definition to_port :: "in_packet \<Rightarrow> u16 \<Rightarrow> bool" where
  "to_port pkt port = (in_tcp pkt \<and> in_dport pkt = port)"

lemma rules_match:
  "rule_matches sets pkt (iptables_ban_drop_rule_args fw) \<longleftrightarrow> in_src pkt \<in> sets (fw_ban_ipset_name fw)"
  "rule_matches sets pkt (iptables_allow_rule_args fw port) \<longleftrightarrow>
     to_port pkt port \<and> in_src pkt \<in> sets (fw_ipset_name fw)"
  "rule_matches sets pkt (iptables_drop_rule_args fw port) \<longleftrightarrow> to_port pkt port"
  by (auto simp: iptables_ban_drop_rule_args_def iptables_allow_rule_args_def iptables_drop_rule_args_def
      to_port_def word_unat_eq_iff)

definition setup_rules :: "firewall \<Rightarrow> u16 \<Rightarrow> rule set" where
  "setup_rules fw port =
     {iptables_ban_drop_rule_args fw, iptables_allow_rule_args fw port, iptables_drop_rule_args fw port}"

lemma setup_rule_verdicts:
  "rule_verdict sets pkt (iptables_ban_drop_rule_args fw)
     = (if in_src pkt \<in> sets (fw_ban_ipset_name fw) then Some ''DROP'' else None)"
  "rule_verdict sets pkt (iptables_allow_rule_args fw port)
     = (if to_port pkt port \<and> in_src pkt \<in> sets (fw_ipset_name fw) then Some ''ACCEPT'' else None)"
  "rule_verdict sets pkt (iptables_drop_rule_args fw port) = (if to_port pkt port then Some ''DROP'' else None)"
  by (simp_all add: rule_verdict_def rules_match)
    (simp_all add: iptables_ban_drop_rule_args_def iptables_allow_rule_args_def iptables_drop_rule_args_def)

lemma chain_after_setup_fresh:
  assumes "setup_rules fw port \<inter> set c = {}"
  shows "chain_after_setup fw port c
    = iptables_ban_drop_rule_args fw # iptables_allow_rule_args fw port # c @ [iptables_drop_rule_args fw port]"
  using assms by (auto simp: chain_after_setup_def ensure_rule_def setup_rules_def)
    (simp_all add: iptables_ban_drop_rule_args_def iptables_allow_rule_args_def iptables_drop_rule_args_def)

section \<open>Properties\<close>

definition example_firewall :: firewall where
  "example_firewall = \<lparr> fw_ipset_name = ''ssh_allow'', fw_ban_ipset_name = ''sshknockd_ban'',
     fw_ip_timeout = 10, fw_ban_timeout = 86400, fw_backend = Iptables, fw_family = Ipv4 \<rparr>"

lemma example_firewall_new:
  "firewall_new ''ssh_allow'' ''sshknockd_ban'' 10 86400 Iptables Ipv4 = Inr example_firewall"
  by (simp add: firewall_new_def example_firewall_def validate_ipset_name_def ipset_char_def
      is_ascii_alphanumeric_def)

lemmas run_simps = system_status_unfold run_def bind_io_def io_defs quiet_os_def ok_output_def

lemma quiet_run: "run (system_run_status quiet_os) c w =
    (Inr (), w\<lparr>hist := hist w @ [Exec (program c) (args c) (Inr ok_output)]\<rparr>)"
  by (simp add: run_simps)

lemma quiet_ensure: "ensure_iptables_rule (system_run_status quiet_os) c a w =
    (Inr (), w\<lparr>hist := hist w @ [Exec (program c) (args c) (Inr ok_output)]\<rparr>)"
  by (simp add: run_simps ensure_iptables_rule_def)

lemma quiet_setup: "fst (fw_setup fw (system_run_status quiet_os) port w) = Inr ()"
  by (simp add: fw_setup_def bind_io_def quiet_run quiet_ensure)

text \<open>
  \<open>Firewall::setup\<close> runs, in order, the creation of the two sets and then for the allow, the
  drop and the ban rule a check followed by the insertion only where it is needed; when a
  command fails it stops there, and when it succeeds it has run all of them.
\<close>

theorem setup_runs_in_order:
  "\<exists>allow_present drop_present ban_present k.
     executed (hist (snd (fw_setup fw (system_run_status os) port w)))
       = executed (hist w) @ take k (setup_commands fw port allow_present drop_present ban_present)
     \<and> (\<forall>x. fst (fw_setup fw (system_run_status os) port w) = Inr x \<longrightarrow>
          k = length (setup_commands fw port allow_present drop_present ban_present))"
  by (rule sys.setup_executes)

theorem setup_runs_in_order_witness:
  "\<exists>a d b. executed (hist (snd (fw_setup example_firewall (system_run_status quiet_os) 10022 \<lparr> hist = [] \<rparr>)))
     = setup_commands example_firewall 10022 a d b"
proof -
  let ?m = "fw_setup example_firewall (system_run_status quiet_os) 10022 \<lparr> hist = [] \<rparr>"
  from setup_runs_in_order [of example_firewall quiet_os 10022 "\<lparr> hist = [] \<rparr>"] obtain a d b k where
    "executed (hist (snd ?m)) = take k (setup_commands example_firewall 10022 a d b)"
    "\<forall>x. fst ?m = Inr x \<longrightarrow> k = length (setup_commands example_firewall 10022 a d b)"
    by (auto simp: executed_def)
  moreover have "fst ?m = Inr ()" by (rule quiet_setup)
  ultimately have "executed (hist (snd ?m)) = setup_commands example_firewall 10022 a d b" by simp
  then show ?thesis by blast
qed

text \<open>
  C23: on a system where \<open>iptables -C\<close> reports the presence of a rule and a successful \<open>-I\<close> or
  \<open>-A\<close> inserts it, a successful setup leaves an INPUT chain in which each of the three rules has
  been put in its place unless it was already in the chain, and all other rules are unchanged.
\<close>

theorem setup_chain:
  "faithful_netfilter (firewall_program fw) c0 os \<Longrightarrow>
    fw_setup fw (system_run_status os) port w = (Inr (), w') \<Longrightarrow>
    chain_of (firewall_program fw) c0 (hist w') =
      chain_after_setup fw port (chain_of (firewall_program fw) c0 (hist w))"
  by (rule setup_chain_aux)

text \<open>A kernel that answers checks from its own chain; it never fails.\<close>

definition netfilter_os :: "string \<Rightarrow> rule list \<Rightarrow> os" where
  "netfilter_os prog c0 = quiet_os\<lparr> os_exec := \<lambda>h p a. Inr
     (if p = prog \<and> take 2 a = [''-C'', ''INPUT''] \<and> drop 2 a \<notin> set (chain_of prog c0 h)
      then ok_output\<lparr> out_success := False, out_code := Some 1 \<rparr> else ok_output) \<rparr>"

lemma netfilter_faithful: "faithful_netfilter prog c0 (netfilter_os prog c0)"
  by (simp add: faithful_netfilter_def netfilter_os_def ok_output_def)

lemma netfilter_setup_ok:
  "fst (fw_setup fw (system_run_status (netfilter_os prog c0)) port w) = Inr ()"
proof -
  have run: "take 1 (args c) \<noteq> [''-C''] \<Longrightarrow> fst (run (system_run_status (netfilter_os prog c0)) c w) = Inr ()" for c w
    by (cases "args c") (auto simp: run_def system_status_unfold bind_io_def io_defs netfilter_os_def ok_output_def)
  have ens: "take 1 (args app) \<noteq> [''-C''] \<Longrightarrow>
      fst (ensure_iptables_rule (system_run_status (netfilter_os prog c0)) chk app w) = Inr ()" for chk app w
    using run [of app] by (auto simp: ensure_iptables_rule_def system_status_unfold bind_io_def io_defs
        netfilter_os_def ok_output_def)
  have step: "fst m = Inr () \<Longrightarrow> (\<And>w'. fst (k w') = Inr ()) \<Longrightarrow>
      fst (case m of (Inl e, s') \<Rightarrow> (Inl e, s') | (Inr x, s') \<Rightarrow> k s') = Inr ()" for m k
    by (auto split: prod.split sum.split)
  show ?thesis
    unfolding fw_setup_def bind_io_def
    by (intro step run ens) (simp_all add: create_ipset_command_def create_ban_ipset_command_def
        create_set_command_def iptables_allow_command_def iptables_drop_command_def
        iptables_ban_drop_command_def)
qed

theorem setup_chain_witness:
  "chain_of ''iptables'' [] (hist (snd (fw_setup example_firewall
       (system_run_status (netfilter_os ''iptables'' [])) 10022 \<lparr> hist = [] \<rparr>)))
     = [iptables_ban_drop_rule_args example_firewall, iptables_allow_rule_args example_firewall 10022,
        iptables_drop_rule_args example_firewall 10022]"
proof -
  let ?os = "netfilter_os ''iptables'' []"
  have p: "firewall_program example_firewall = ''iptables''"
    by (simp add: firewall_program_def example_firewall_def)
  obtain w' where w: "fw_setup example_firewall (system_run_status ?os) 10022 \<lparr> hist = [] \<rparr> = (Inr (), w')"
    using netfilter_setup_ok [of example_firewall "''iptables''" "[]" 10022 "\<lparr> hist = [] \<rparr>"]
    by (cases "fw_setup example_firewall (system_run_status ?os) 10022 \<lparr> hist = [] \<rparr>") auto
  from setup_chain [OF _ w, of "[]"] netfilter_faithful [of "''iptables''" "[]"] show ?thesis
    by (simp add: p w chain_of_def chain_after_setup_def ensure_rule_def iptables_ban_drop_rule_args_def
        iptables_allow_rule_args_def iptables_drop_rule_args_def)
qed

text \<open>
  C36: setup is idempotent: on a system with faithful checks, a second successful setup leaves the
  INPUT chain as the first one made it.
\<close>

theorem setup_idempotent:
  "faithful_netfilter (firewall_program fw) c0 os \<Longrightarrow>
    fw_setup fw (system_run_status os) port w = (Inr (), w1) \<Longrightarrow>
    fw_setup fw (system_run_status os) port w1 = (Inr (), w2) \<Longrightarrow>
    chain_of (firewall_program fw) c0 (hist w2) = chain_of (firewall_program fw) c0 (hist w1)"
  by (simp add: setup_chain_aux chain_after_setup_again)

lemma netfilter_setup_runs:
  "\<exists>w'. fw_setup fw (system_run_status (netfilter_os prog c0)) port w = (Inr (), w')"
  using netfilter_setup_ok [of fw prog c0 port w]
  by (cases "fw_setup fw (system_run_status (netfilter_os prog c0)) port w") auto

theorem setup_idempotent_witness:
  "\<exists>w1 w2. fw_setup example_firewall (system_run_status (netfilter_os ''iptables'' [])) 10022 \<lparr> hist = [] \<rparr> = (Inr (), w1)
    \<and> fw_setup example_firewall (system_run_status (netfilter_os ''iptables'' [])) 10022 w1 = (Inr (), w2)
    \<and> chain_of ''iptables'' [] (hist w2) = chain_of ''iptables'' [] (hist w1)"
proof -
  let ?os = "netfilter_os ''iptables'' []"
  have p: "firewall_program example_firewall = ''iptables''"
    by (simp add: firewall_program_def example_firewall_def)
  obtain w1 where 1: "fw_setup example_firewall (system_run_status ?os) 10022 \<lparr> hist = [] \<rparr> = (Inr (), w1)"
    using netfilter_setup_runs by blast
  obtain w2 where 2: "fw_setup example_firewall (system_run_status ?os) 10022 w1 = (Inr (), w2)"
    using netfilter_setup_runs by blast
  from setup_idempotent [OF _ 1 2, of "[]"] 1 2 show ?thesis
    by (auto simp: p netfilter_faithful)
qed

text \<open>
  C12: what the firewall decides after a successful setup, on a system with faithful checks whose
  INPUT chain held none of the three rules, for any packet and any contents of the sets. A source
  in the ban set is dropped on every port, a source in the allow set is accepted on the SSH port,
  and any other packet is first judged by the old rules, whose decisions \<open>d\<close> may be anything,
  non-terminating targets included, and, where they do not decide, dropped on the SSH port. So
  the drop of other traffic to the SSH port holds only as far as no old rule accepts it: the drop
  rule is appended behind them.
\<close>

theorem setup_verdict:
  "faithful_netfilter (firewall_program fw) c0 os \<Longrightarrow>
    fw_setup fw (system_run_status os) port w = (Inr (), w') \<Longrightarrow>
    chain_of (firewall_program fw) c0 (hist w) = c \<Longrightarrow> setup_rules fw port \<inter> set c = {} \<Longrightarrow>
    \<forall>r\<in>setup_rules fw port. d r = rule_verdict sets pkt r \<Longrightarrow>
    chain_verdict d (chain_of (firewall_program fw) c0 (hist w')) =
      (if in_src pkt \<in> sets (fw_ban_ipset_name fw) then Some ''DROP''
       else if to_port pkt port \<and> in_src pkt \<in> sets (fw_ipset_name fw) then Some ''ACCEPT''
       else case chain_verdict d c of
           Some v \<Rightarrow> Some v
         | None \<Rightarrow> if to_port pkt port then Some ''DROP'' else None)"
  by (simp add: setup_chain_aux chain_after_setup_fresh)
    (simp add: setup_rules_def setup_rule_verdicts chain_verdict_append split: option.split)

text \<open>The packet of an allowed, unbanned source on the SSH port.\<close>

theorem setup_verdict_witness:
  "chain_verdict (rule_verdict (\<lambda>s. if s = ''ssh_allow'' then {ipv4 10 0 0 1} else {})
        \<lparr> in_src = ipv4 10 0 0 1, in_tcp = True, in_dport = 10022 \<rparr>)
     (chain_of ''iptables'' [] (hist (snd (fw_setup example_firewall
       (system_run_status (netfilter_os ''iptables'' [])) 10022 \<lparr> hist = [] \<rparr>)))) = Some ''ACCEPT''"
proof -
  let ?os = "netfilter_os ''iptables'' []"
  let ?sets = "\<lambda>s. if s = ''ssh_allow'' then {ipv4 10 0 0 1} else {}"
  let ?pkt = "\<lparr> in_src = ipv4 10 0 0 1, in_tcp = True, in_dport = 10022 \<rparr>"
  have p: "firewall_program example_firewall = ''iptables''"
    by (simp add: firewall_program_def example_firewall_def)
  obtain w' where w: "fw_setup example_firewall (system_run_status ?os) 10022 \<lparr> hist = [] \<rparr> = (Inr (), w')"
    using netfilter_setup_runs by blast
  have n: "fw_ipset_name example_firewall = ''ssh_allow''" "fw_ban_ipset_name example_firewall = ''sshknockd_ban''"
    by (simp_all add: example_firewall_def)
  from setup_verdict [OF _ w, of "[]" "[]" "rule_verdict ?sets ?pkt" ?sets ?pkt]
    netfilter_faithful [of "''iptables''" "[]"]
  show ?thesis
    by (simp add: p w n chain_of_def to_port_def)
qed

text \<open>
  On a host whose chain accepts the SSH port already, setup leaves the port open to every source.
\<close>

theorem earlier_accept_rule_wins:
  assumes "c = [[''-p'', ''tcp'', ''--dport'', dec (unat port), ''-j'', ''ACCEPT'']]"
    and "to_port pkt port" and "in_src pkt \<notin> sets (fw_ban_ipset_name fw)"
  shows "chain_verdict (rule_verdict sets pkt) (chain_after_setup fw port c) = Some ''ACCEPT''"
proof -
  have "setup_rules fw port \<inter> set c = {}"
    by (auto simp: assms(1) setup_rules_def iptables_ban_drop_rule_args_def iptables_allow_rule_args_def
        iptables_drop_rule_args_def)
  moreover have "rule_verdict sets pkt (hd c) = Some ''ACCEPT''"
    using assms(2) by (simp add: assms(1) rule_verdict_def to_port_def)
  ultimately show ?thesis
    using assms(2,3) by (simp add: chain_after_setup_fresh setup_rule_verdicts) (simp add: assms(1))
qed

text \<open>
  When setup finds the ban rule in the chain but not the allow rule, for instance after the
  SSH port was changed, it puts the allow rule in front of the ban rule, and a source in both
  sets is accepted.
\<close>

theorem setup_may_put_allow_before_ban:
  "chain_after_setup fw port [iptables_ban_drop_rule_args fw] =
     [iptables_allow_rule_args fw port, iptables_ban_drop_rule_args fw, iptables_drop_rule_args fw port]"
  by (simp add: chain_after_setup_def ensure_rule_def iptables_ban_drop_rule_args_def
      iptables_allow_rule_args_def iptables_drop_rule_args_def)

text \<open>Arguments without white space, quotes or any character that a shell treats specially.\<close>

definition safe_arg :: "string \<Rightarrow> bool" where
  "safe_arg a = (a \<noteq> [] \<and> list_all ipset_char a)"

definition preflight_commands :: "firewall \<Rightarrow> command_spec list" where
  "preflight_commands fw =
     [\<lparr> program = ''ipset'', args = [''list'', fw_ipset_name fw] \<rparr>,
      \<lparr> program = ''ipset'', args = [''list'', fw_ban_ipset_name fw] \<rparr>,
      \<lparr> program = firewall_program fw, args = [''-S''] \<rparr>]"

lemma safe_dec: "safe_arg (dec n)"
proof -
  have "ipset_char ch" if "ch \<in> set (dec n)" for ch
    using dec_digits [OF that] by (auto simp: ipset_char_def is_ascii_digit_def is_ascii_alphanumeric_def Let_def)
  then show ?thesis by (simp add: safe_arg_def list_all_iff)
qed

lemma join_not_Nil: "xs \<noteq> [] \<Longrightarrow> hd xs \<noteq> [] \<Longrightarrow> join sep xs \<noteq> []"
  by (cases xs) (simp_all add: join_def)

lemma ipv4_not_Nil: "ipv4_to_string w \<noteq> []"
  unfolding ipv4_to_string_def by (rule join_not_Nil) (simp_all add: octets_def)

lemma ip_to_string_not_Nil: "ip_to_string ip \<noteq> []"
proof (cases ip)
  case (V6 w)
  have "fmt_segments (segments w) \<noteq> []"
    unfolding fmt_segments_def by (rule join_not_Nil) (simp_all add: segments_def)
  then show ?thesis using V6 by (simp add: ipv6_to_string_def Let_def split: prod.split)
qed (simp add: ipv4_not_Nil)

lemma safe_ip: "safe_arg (ip_to_string ip)"
proof -
  have "ipset_char ch" if "ch \<in> set (ip_to_string ip)" for ch
    using ip_chars [OF that]
    by (auto simp: addr_char_def ipset_char_def is_ascii_hexdigit_def is_ascii_alphanumeric_def Let_def)
  then show ?thesis by (simp add: safe_arg_def list_all_iff ip_to_string_not_Nil)
qed

lemma safe_name: "valid_ipset_name n \<Longrightarrow> safe_arg n"
  by (auto simp: valid_ipset_name_def safe_arg_def list_all_iff)

lemma safe_literals [simp]:
  "safe_arg ''create''" "safe_arg ''hash:ip''" "safe_arg ''timeout''" "safe_arg ''family''"
  "safe_arg ''inet6''" "safe_arg ''-exist''" "safe_arg ''add''" "safe_arg ''list''" "safe_arg ''-S''"
  "safe_arg ''-I''" "safe_arg ''-A''" "safe_arg ''-C''" "safe_arg ''INPUT''" "safe_arg ''1''"
  "safe_arg ''-m''" "safe_arg ''set''" "safe_arg ''--match-set''" "safe_arg ''src''" "safe_arg ''-j''"
  "safe_arg ''DROP''" "safe_arg ''ACCEPT''" "safe_arg ''-p''" "safe_arg ''tcp''" "safe_arg ''--dport''"
  by (simp_all add: safe_arg_def ipset_char_def is_ascii_alphanumeric_def)

lemmas command_defs = create_ipset_command_def create_ban_ipset_command_def create_set_command_def
  iptables_allow_command_def iptables_drop_command_def iptables_ban_drop_command_def
  iptables_allow_check_command_def iptables_drop_check_command_def iptables_ban_drop_check_command_def
  iptables_allow_rule_args_def iptables_drop_rule_args_def iptables_ban_drop_rule_args_def
  add_ip_command_def ban_ip_command_def preflight_commands_def setup_commands_def

definition plain_command :: "event \<Rightarrow> bool" where
  "plain_command e = (\<exists>p a r. e = Exec p a r \<and> p \<in> {''ipset'', ''iptables'', ''ip6tables''} \<and> list_all safe_arg a)"

lemma emits_plain_run:
  assumes "program c \<in> {''ipset'', ''iptables'', ''ip6tables''}" and "list_all safe_arg (args c)"
  shows "emits plain_command (run (system_run_status os) c)" and "emits plain_command (system_run_status os c)"
  using assms
  by (auto simp: plain_command_def intro!: emits_mono [OF sys.emits_run] emits_mono [OF sys.emits_status])

lemma emits_plain_ensure:
  assumes "program chk \<in> {''ipset'', ''iptables'', ''ip6tables''}" and "list_all safe_arg (args chk)"
    and "program app \<in> {''ipset'', ''iptables'', ''ip6tables''}" and "list_all safe_arg (args app)"
  shows "emits plain_command (ensure_iptables_rule (system_run_status os) chk app)"
  unfolding ensure_iptables_rule_def
  by (auto intro!: emits_bind [OF emits_plain_run(2) [OF assms(1,2)]] emits_plain_run(1) [OF assms(3,4)] emits_leaf)

lemma firewall_program_cases: "firewall_program fw \<in> {''ipset'', ''iptables'', ''ip6tables''}"
  by (simp add: firewall_program_def split: firewall_backend.split)

lemma firewall_emits_plain:
  assumes "safe_arg (fw_ipset_name fw)" and "safe_arg (fw_ban_ipset_name fw)"
  shows "emits plain_command (fw_setup fw (system_run_status os) port)"
    and "emits plain_command (preflight fw (system_run_status os))"
    and "emits plain_command (add_ip fw (system_run_status os) ip)"
    and "emits plain_command (ban_ip fw (system_run_status os) ip)"
proof -
  note cmds = command_defs safe_dec safe_ip assms firewall_program_cases [simplified]
  show "emits plain_command (fw_setup fw (system_run_status os) port)"
    unfolding fw_setup_def by (intro emits_bind emits_plain_run(1) emits_plain_ensure) (auto simp: cmds)
  show "emits plain_command (preflight fw (system_run_status os))"
    unfolding preflight_def by (intro emits_bind emits_plain_run(1)) (auto simp: cmds)
  show "emits plain_command (add_ip fw (system_run_status os) ip)"
    unfolding add_ip_def by (rule emits_plain_run(1)) (simp_all add: cmds)
  show "emits plain_command (ban_ip fw (system_run_status os) ip)"
    unfolding ban_ip_def by (rule emits_plain_run(1)) (simp_all add: cmds)
qed

text \<open>
  C32: whatever the commands answer, every call that set-up, the preflight check, allowing an
  address or banning an address make on a firewall built by \<open>Firewall::new\<close> is a run of ipset,
  iptables or ip6tables, and each of its arguments is non-empty and made of ASCII letters, digits and the
  characters \<open>_ . : -\<close>.
\<close>

theorem firewall_arguments_plain:
  "firewall_new n b i t backend family = Inr fw \<Longrightarrow>
    f \<in> {fw_setup fw (system_run_status os) port, preflight fw (system_run_status os),
      add_ip fw (system_run_status os) ip, ban_ip fw (system_run_status os) ip} \<Longrightarrow>
    \<exists>es. hist (snd (f w)) = hist w @ es \<and>
      (\<forall>e\<in>set es. \<exists>p a r. e = Exec p a r \<and> p \<in> {''ipset'', ''iptables'', ''ip6tables''} \<and> list_all safe_arg a)"
proof -
  assume "firewall_new n b i t backend family = Inr fw"
  then have "safe_arg (fw_ipset_name fw)" and "safe_arg (fw_ban_ipset_name fw)"
    by (auto simp: firewall_new_def and_then_Inr_iff validate_ipset_name_iff safe_name split: if_splits)
  note plain = firewall_emits_plain [OF this]
  assume "f \<in> {fw_setup fw (system_run_status os) port, preflight fw (system_run_status os),
      add_ip fw (system_run_status os) ip, ban_ip fw (system_run_status os) ip}"
  then have "emits plain_command f" using plain by auto
  then show ?thesis by (auto simp: emits_def plain_command_def list_all_iff)
qed

theorem firewall_arguments_plain_witness:
  "\<exists>es. hist (snd (ban_ip example_firewall (system_run_status quiet_os) (ipv4 10 0 0 1) \<lparr> hist = [] \<rparr>)) = es
    \<and> (\<forall>e\<in>set es. \<exists>p a r. e = Exec p a r \<and> list_all safe_arg a)"
  using firewall_arguments_plain [OF example_firewall_new,
    where f = "ban_ip example_firewall (system_run_status quiet_os) (ipv4 10 0 0 1)" and os = quiet_os
      and port = 22 and ip = "ipv4 10 0 0 1" and w = "\<lparr> hist = [] \<rparr>"]
  by auto

text \<open>
  A set name may start with a dash, so that it reaches \<open>ipset\<close> as an option: \<open>-exist\<close> is
  accepted, and the set is then created by \<open>ipset create -exist hash:ip ..\<close>.
\<close>

theorem option_like_set_name:
  "validate_ipset_name ''-exist'' = Inr ()
    \<and> take 3 (args (create_ipset_command (example_firewall\<lparr>fw_ipset_name := ''-exist''\<rparr>)))
        = [''create'', ''-exist'', ''hash:ip'']"
  by (simp add: validate_ipset_name_def ipset_char_def is_ascii_alphanumeric_def
      create_ipset_command_def create_set_command_def)

text \<open>
  The preflight check only lists: it runs the two set listings and the rule listing in this
  order, stops at the first that fails, and succeeds only when all three did.
\<close>

theorem preflight_lists:
  "\<exists>k. executed (hist (snd (preflight fw (system_run_status os) w)))
         = executed (hist w) @ take k (preflight_commands fw)
    \<and> (\<forall>x. fst (preflight fw (system_run_status os) w) = Inr x \<longrightarrow> k = 3)"
  unfolding preflight_commands_def by (rule sys.preflight_executes)

theorem preflight_lists_witness:
  "executed (hist (snd (preflight example_firewall (system_run_status quiet_os) \<lparr> hist = [] \<rparr>)))
     = preflight_commands example_firewall"
proof -
  let ?m = "preflight example_firewall (system_run_status quiet_os) \<lparr> hist = [] \<rparr>"
  from preflight_lists [of example_firewall quiet_os "\<lparr> hist = [] \<rparr>"] obtain k where
    "executed (hist (snd ?m)) = take k (preflight_commands example_firewall)"
    "\<forall>x. fst ?m = Inr x \<longrightarrow> k = 3" by (auto simp: executed_def)
  moreover have "fst ?m = Inr ()" by (simp add: preflight_def bind_io_def quiet_run)
  ultimately show ?thesis by (simp add: preflight_commands_def)
qed

lemma add_ip_command_inj: "add_ip_command fw a = add_ip_command fw b \<longleftrightarrow> a = b"
  by (simp add: add_ip_command_def ip_to_string_inj)

lemma ban_ip_command_inj: "ban_ip_command fw a = ban_ip_command fw b \<longleftrightarrow> a = b"
  by (simp add: ban_ip_command_def ip_to_string_inj)

lemma add_not_ban: "fw_ipset_name fw \<noteq> fw_ban_ipset_name fw \<Longrightarrow> add_ip_command fw a \<noteq> ban_ip_command fw b"
  by (simp add: add_ip_command_def ban_ip_command_def)

text \<open>
  The commands identify the source: two IPv4 or IPv6 addresses have the same allow command, or
  the same ban command, only when they are the same address, so that no source is allowed or
  banned in place of another, although IPv6 texts are compressed.
\<close>

theorem ip_commands_injective:
  "(add_ip_command fw a = add_ip_command fw b \<longleftrightarrow> a = b)
    \<and> (ban_ip_command fw a = ban_ip_command fw b \<longleftrightarrow> a = b)"
  by (simp add: add_ip_command_inj ban_ip_command_inj)

text \<open>
  Whatever a failing command prints, at most 12 KiB of each stream reach an error message:
  4096 bytes, which the lossy decoding can triple, and a note of at most 80 bytes.
\<close>

theorem command_output_bounded:
  "length bytes < 2 ^ 64 \<Longrightarrow> length (bounded_command_output bytes) \<le> 3 * 4096 + 80"
proof -
  assume n: "length bytes < 2 ^ 64"
  have bound: "length (trim (from_utf8_lossy s)) \<le> 3 * length s" for s
    using length_trim [of "from_utf8_lossy s"] length_from_utf8_lossy [of s] by linarith
  have "(2 :: nat) ^ 64 \<le> 10 ^ 20" and "(4096 :: nat) < 10 ^ 4" by simp_all
  then have "length (dec (length bytes)) \<le> 20" and "length (dec 4096) \<le> 4"
    using n by (auto intro!: length_to_base)
  moreover have "length (trim (from_utf8_lossy (take 4096 bytes))) \<le> 3 * 4096"
    using bound [of "take 4096 bytes"] by simp
  ultimately show ?thesis
    using bound [of bytes]
    by (auto simp: bounded_command_output_def command_output_limit_bytes_def Let_def)
qed

theorem command_output_bounded_witness:
  "length (bounded_command_output (replicate 5000 CHR ''x'')) \<le> 12368"
  using command_output_bounded [of "replicate 5000 CHR ''x''"] by simp

end
