(* ===== verification/Logger.thy ===== *)
theory Logger
  imports Effects
begin

text \<open>
  \<open>src/logger.rs\<close>: the append-only audit log. A line is written with one call; a partial
  write is a failed write.
\<close>

record audit_logger =
  log_path :: string
  lock_poisoned :: bool

text \<open>
  \<open>Path::parent\<close>: trailing separators and trailing \<open>.\<close> components do not count, and the root
  and the empty path have no parent.
\<close>

fun strip_tail :: "string \<Rightarrow> string" where
  "strip_tail (c # s) =
     (if c = CHR ''/'' then strip_tail s
      else (case s of
          [] \<Rightarrow> [c]
        | d # t \<Rightarrow> if c = CHR ''.'' \<and> d = CHR ''/'' then strip_tail t else c # s))"
| "strip_tail [] = []"

definition path_parent :: "string \<Rightarrow> string option" where
  "path_parent path =
     (let body = strip_tail (rev path) in
      if body = [] then None
      else
        let dir = dropWhile (\<lambda>c. c \<noteq> CHR ''/'') body in
        Some (if dir \<noteq> [] \<and> strip_tail dir = [] then ''/'' else rev (strip_tail dir)))"

definition logger_new :: "os \<Rightarrow> string \<Rightarrow> ('z world_scheme, audit_logger) io" where
  "logger_new os path =
     bind_io (case path_parent path of
         None \<Rightarrow> ret ()
       | Some parent \<Rightarrow>
           bind_io (call (\<lambda>h. os_mkdirs os h parent) (CreateDirAll parent))
             (none_or_fail (''failed to create log directory '' @ parent))) (\<lambda>_.
     bind_io (call (\<lambda>h. os_open_append os h path) (OpenAppend path)) (\<lambda>r.
     bind_io (none_or_fail (''failed to open audit log '' @ path) r) (\<lambda>_.
       ret \<lparr> log_path = path, lock_poisoned = False \<rparr>)))"

definition audit_line :: "nat \<Rightarrow> string \<Rightarrow> string \<Rightarrow> string" where
  "audit_line ts event message = ''ts='' @ dec ts @ '' event='' @ event @ '' '' @ message @ [CHR 0x0A]"

definition log :: "os \<Rightarrow> audit_logger \<Rightarrow> string \<Rightarrow> string \<Rightarrow> ('z world_scheme, unit) io" where
  "log os lg event message =
     bind_io (unix_time os) (\<lambda>t.
       let timestamp = (case t of None \<Rightarrow> 0 | Some s \<Rightarrow> s) in
       if lock_poisoned lg
       then throw (Err (''failed to lock audit log: poisoned lock: another task failed inside''))
       else
         bind_io (write_audit os (audit_line timestamp event message))
           (none_or_fail ''failed to write audit log event''))"

definition logs :: "string \<Rightarrow> string \<Rightarrow> event \<Rightarrow> bool" where
  "logs event message e = (case e of
       Audit l r \<Rightarrow> (\<exists>ts. l = audit_line ts event message)
     | UnixTime t \<Rightarrow> True
     | _ \<Rightarrow> False)"

lemma emits_log: "emits (logs event message) (log os lg event message)"
  unfolding log_def unix_time_def write_audit_def Let_def
  by (auto simp: logs_def intro!: emits_intros) blast

lemma emits_log_weak: "(\<And>e. logs event message e \<Longrightarrow> P e) \<Longrightarrow> emits P (log os lg event message)"
  by (rule emits_mono [OF emits_log])

lemma frame_log: "frame (log os lg event message)"
  by (auto simp: log_def unix_time_def write_audit_def Let_def intro!: frame_intros)

end
