(* ===== verification/Server.thy ===== *)
theory Server
  imports KnockSpec RateLimit FirewallSpec Logger
begin

text \<open>
  \<open>src/server.rs\<close> without its poll loop: the server's state, its construction, the ban table
  and the handling of one packet.
\<close>

section \<open>State\<close>

record server =
  srv_config :: config
  srv_tracker :: knock_tracker
  srv_firewall :: firewall
  srv_logger :: audit_logger
  source_limiter :: "ip_addr limiter"
  packet_telemetry_limiter :: "string limiter"
  banned_sources :: "(ip_addr, instant) hm"

record machine = world +
  srv :: server

definition server_of :: "config \<Rightarrow> firewall \<Rightarrow> audit_logger \<Rightarrow> server" where
  "server_of c fw lg =
     \<lparr> srv_config = c,
       srv_tracker = knock_tracker_new (sequence (knock c)) (from_secs (sequence_window c))
         (from_secs (partial_state_timeout c)) (max_partial_states c) (max_payload_size c),
       srv_firewall = fw,
       srv_logger = lg,
       source_limiter =
         limiter_new (invalid_burst_limit c) (invalid_refill_per_minute c) (from_secs 60),
       packet_telemetry_limiter =
         limiter_new (saturating_mul (invalid_burst_limit c) 10)
           (saturating_mul (invalid_refill_per_minute c) 10) (from_secs 60),
       banned_sources = hm_empty \<rparr>"

text \<open>\<open>Server::new\<close>.\<close>

definition server_new :: "os \<Rightarrow> config \<Rightarrow> ('z world_scheme, server) io" where
  "server_new os c =
     bind_io (of_result (firewall_new (ipset_name c) (ban_ipset_name c) (ip_timeout c)
       (ban_timeout c) (firewall_backend c) (address_family c))) (\<lambda>fw.
     bind_io (logger_new os (log_file c)) (\<lambda>lg.
       ret (server_of c fw lg)))"

section \<open>The ban table\<close>

definition expire_banned_sources :: "server \<Rightarrow> instant \<Rightarrow> server" where
  "expire_banned_sources s now =
     s\<lparr>banned_sources := hm_retain (\<lambda>_ expires_at. expires_at > now) (banned_sources s)\<rparr>"

definition is_source_banned :: "server \<Rightarrow> ip_addr \<Rightarrow> instant \<Rightarrow> bool \<times> server" where
  "is_source_banned s0 ip now =
     (let s = expire_banned_sources s0 now in (hm_contains (banned_sources s) ip, s))"

definition remember_banned_source :: "server \<Rightarrow> ip_addr \<Rightarrow> instant \<Rightarrow> server result" where
  "remember_banned_source s0 ip now =
     (let s = expire_banned_sources s0 now in
      if hm_len (banned_sources s) \<ge> unat (max_partial_states (srv_config s))
        \<and> \<not> hm_contains (banned_sources s) ip
      then Inr s
      else (case instant_checked_add now (from_secs (ban_timeout (srv_config s))) of
          None \<Rightarrow> Inl (Panic ''overflow when adding duration to instant'')
        | Some expires_at \<Rightarrow>
            Inr (s\<lparr>banned_sources := hm_insert ip expires_at (banned_sources s)\<rparr>)))"

section \<open>Telemetry\<close>

definition packet_telemetry_enabled :: "server \<Rightarrow> bool" where
  "packet_telemetry_enabled s =
     (eq_ignore_ascii_case (log_level (srv_config s)) ''debug''
      \<or> eq_ignore_ascii_case (log_level (srv_config s)) ''trace'')"

fun redacted_outcome :: "knock_outcome \<Rightarrow> string" where
  "redacted_outcome Accepted = ''accepted''"
| "redacted_outcome (Progress n) = ''progress''"
| "redacted_outcome Rejected = ''rejected''"
| "redacted_outcome Oversized = ''oversized''"

text \<open>Operations on the server inside the machine.\<close>

definition with_srv :: "(server \<Rightarrow> 'a \<times> server) \<Rightarrow> (machine, 'a) io" where
  "with_srv f = (\<lambda>m. (Inr (fst (f (srv m))), m\<lparr>srv := snd (f (srv m))\<rparr>))"

definition try_srv :: "(server \<Rightarrow> server result) \<Rightarrow> (machine, unit) io" where
  "try_srv f = (\<lambda>m. case f (srv m) of Inl e \<Rightarrow> (Inl e, m) | Inr s \<Rightarrow> (Inr (), m\<lparr>srv := s\<rparr>))"

definition server_log :: "os \<Rightarrow> string \<Rightarrow> string \<Rightarrow> (machine, unit) io" where
  "server_log os event message = bind_io (gets (\<lambda>m. srv_logger (srv m))) (\<lambda>lg. log os lg event message)"

definition telemetry_allow :: "instant \<Rightarrow> server \<Rightarrow> bool \<times> server" where
  "telemetry_allow now s =
     (if \<not> packet_telemetry_enabled s then (False, s)
      else (case allow (packet_telemetry_limiter s) ''packet'' now of
        (ok, l) \<Rightarrow> (ok, s\<lparr>packet_telemetry_limiter := l\<rparr>)))"

definition log_packet_telemetry ::
  "os \<Rightarrow> ip_addr \<Rightarrow> knock_outcome \<Rightarrow> instant \<Rightarrow> (machine, unit) io" where
  "log_packet_telemetry os ip outcome now =
     bind_io (with_srv (telemetry_allow now)) (\<lambda>ok.
       if \<not> ok then ret ()
       else
         bind_io (server_log os ''packet_seen''
           (''source_ip='' @ ip_to_string ip @ '' observed=true'')) (\<lambda>_.
         server_log os ''knock_outcome''
           (''source_ip='' @ ip_to_string ip @ '' outcome='' @ redacted_outcome outcome)))"

section \<open>One packet\<close>

definition track :: "knock_packet \<Rightarrow> instant \<Rightarrow> server \<Rightarrow> knock_outcome \<times> server" where
  "track p now s = (case process (srv_tracker s) p now of (oc, t) \<Rightarrow> (oc, s\<lparr>srv_tracker := t\<rparr>))"

text \<open>
  The condition \<open>matches!(outcome, Rejected | Oversized) && !allow(source)\<close>: the limiter is
  asked, and charged, for invalid packets only.
\<close>

definition over_limit :: "knock_outcome \<Rightarrow> ip_addr \<Rightarrow> instant \<Rightarrow> server \<Rightarrow> bool \<times> server" where
  "over_limit oc ip now s =
     (if oc = Rejected \<or> oc = Oversized then
        (case allow (source_limiter s) ip now of (ok, l) \<Rightarrow> (\<not> ok, s\<lparr>source_limiter := l\<rparr>))
      else (False, s))"

definition process_packet ::
  "os \<Rightarrow> machine runner \<Rightarrow> socket_addr \<Rightarrow> protocol \<Rightarrow> u16 option \<Rightarrow> usize \<Rightarrow> (machine, unit) io" where
  "process_packet os runner addr proto port len =
     (let ip = fst addr in
      bind_io (instant_now os) (\<lambda>now.
      bind_io (with_srv (\<lambda>s. is_source_banned s ip now)) (\<lambda>banned.
      if banned then ret ()
      else
        bind_io (with_srv (track
          \<lparr> source_ip = ip, pkt_protocol = proto, pkt_port = port, payload_size = len \<rparr> now)) (\<lambda>outcome.
        bind_io (with_srv (over_limit outcome ip now)) (\<lambda>over.
        bind_io (gets srv) (\<lambda>s.
        if over then
          bind_io (try_srv (\<lambda>s. remember_banned_source s ip now)) (\<lambda>_.
          bind_io (attempt (ban_ip (srv_firewall s) runner ip)) (\<lambda>r.
          case r of
            Inr _ \<Rightarrow> server_log os ''rate_limit_ban''
              (''source_ip='' @ ip_to_string ip @ '' ban_timeout_seconds=''
                @ dec (unat (ban_timeout (srv_config s))))
          | Inl e \<Rightarrow> server_log os ''firewall_ban_failed''
              (''source_ip='' @ ip_to_string ip @ '' error='' @ e)))
        else
          bind_io (log_packet_telemetry os ip outcome now) (\<lambda>_.
          if outcome = Accepted then
            bind_io (attempt (add_ip (srv_firewall s) runner ip)) (\<lambda>r.
            case r of
              Inl e \<Rightarrow>
                bind_io (server_log os ''firewall_allow_failed''
                  (''source_ip='' @ ip_to_string ip @ '' error='' @ e)) (\<lambda>_. throw (Err e))
            | Inr _ \<Rightarrow> server_log os ''ssh_allow''
                (''source_ip='' @ ip_to_string ip @ '' allow_timeout_seconds=''
                  @ dec (unat (ip_timeout (srv_config s)))))
          else ret ())))))))"

end
