(* ===== verification/ServerSpec.thy ===== *)
theory ServerSpec
  imports Server
begin

text \<open>
  What handling a packet does. A packet is first decided on, a pure function of the server's
  state and the clock, and then reacted to, which touches the outside. From this split: the
  invariant of the server's state, what each decision can write to the transcript, and the
  behaviour of a run over many packets.
\<close>

section \<open>Decision and reaction\<close>

datatype verdict = Dropped | Banning | Outcome knock_outcome

definition decide :: "knock_packet \<Rightarrow> instant \<Rightarrow> server \<Rightarrow> verdict \<times> server" where
  "decide p now s0 =
     (let (banned, s1) = is_source_banned s0 (source_ip p) now in
      if banned then (Dropped, s1)
      else
        let (oc, s2) = track p now s1; (over, s3) = over_limit oc (source_ip p) now s2 in
        (if over then Banning else Outcome oc, s3))"

fun react :: "os \<Rightarrow> machine runner \<Rightarrow> server \<Rightarrow> ip_addr \<Rightarrow> instant \<Rightarrow> verdict \<Rightarrow> (machine, unit) io" where
  "react os runner s ip now Dropped = ret ()"
| "react os runner s ip now Banning =
     bind_io (try_srv (\<lambda>s. remember_banned_source s ip now)) (\<lambda>_.
     bind_io (attempt (ban_ip (srv_firewall s) runner ip)) (\<lambda>r.
     case r of
       Inr _ \<Rightarrow> server_log os ''rate_limit_ban''
         (''source_ip='' @ ip_to_string ip @ '' ban_timeout_seconds=''
           @ dec (unat (ban_timeout (srv_config s))))
     | Inl e \<Rightarrow> server_log os ''firewall_ban_failed''
         (''source_ip='' @ ip_to_string ip @ '' error='' @ e)))"
| "react os runner s ip now (Outcome oc) =
     bind_io (log_packet_telemetry os ip oc now) (\<lambda>_.
     if oc = Accepted then
       bind_io (attempt (add_ip (srv_firewall s) runner ip)) (\<lambda>r.
       case r of
         Inl e \<Rightarrow>
           bind_io (server_log os ''firewall_allow_failed''
             (''source_ip='' @ ip_to_string ip @ '' error='' @ e)) (\<lambda>_. throw (Err e))
       | Inr _ \<Rightarrow> server_log os ''ssh_allow''
           (''source_ip='' @ ip_to_string ip @ '' allow_timeout_seconds=''
             @ dec (unat (ip_timeout (srv_config s)))))
     else ret ())"

definition packet_of :: "socket_addr \<Rightarrow> protocol \<Rightarrow> u16 option \<Rightarrow> usize \<Rightarrow> knock_packet" where
  "packet_of addr proto port n =
     \<lparr> source_ip = fst addr, pkt_protocol = proto, pkt_port = port, payload_size = n \<rparr>"

lemma source_packet_of [simp]: "source_ip (packet_of addr proto port n) = fst addr"
  by (simp add: packet_of_def)

lemma bind_with_srv: "bind_io (with_srv f) k m = k (fst (f (srv m))) (m\<lparr>srv := snd (f (srv m))\<rparr>)"
  by (simp add: bind_io_def with_srv_def)

lemma bind_gets: "bind_io (gets g) k m = k (g m) m"
  by (simp add: bind_io_def gets_def)

lemma bind_call: "bind_io (call ask ev) k w = k (ask (hist w)) (w\<lparr>hist := hist w @ [ev (ask (hist w))]\<rparr>)"
  by (simp add: bind_io_def call_def)

lemma process_packet_eq:
  "process_packet os runner addr proto port n m =
     (let now = os_now os (hist m); p = packet_of addr proto port n; d = decide p now (srv m) in
      react os runner (snd d) (fst addr) now (fst d)
        (m\<lparr>hist := hist m @ [ClockRead now], srv := snd d\<rparr>))"
  by (simp add: process_packet_def instant_now_def bind_call bind_with_srv bind_gets decide_def
      packet_of_def Let_def split_beta)

section \<open>State that a computation keeps\<close>

definition keeps :: "(server \<Rightarrow> bool) \<Rightarrow> (machine, 'a) io \<Rightarrow> bool" where
  "keeps I f = (\<forall>m. I (srv m) \<longrightarrow> I (srv (snd (f m))))"

lemma keepsD: "keeps I f \<Longrightarrow> f m = (r, m') \<Longrightarrow> I (srv m) \<Longrightarrow> I (srv m')"
  by (metis keeps_def snd_conv)

lemma srv_more: "world.more m' = world.more m \<Longrightarrow> srv m' = srv (m :: machine)"
  by (cases m; cases m') simp

lemma keeps_frame: "frame f \<Longrightarrow> keeps I f"
  unfolding keeps_def frame_def by (metis srv_more)

lemma keeps_bind: "keeps I f \<Longrightarrow> (\<And>x. keeps I (g x)) \<Longrightarrow> keeps I (bind_io f g)"
  unfolding keeps_def bind_io_def by (fastforce split: prod.splits sum.splits)

lemma keeps_attempt: "keeps I f \<Longrightarrow> keeps I (attempt f)"
  unfolding keeps_def attempt_def by (fastforce split: prod.splits sum.splits failure.splits)

lemma keeps_leaf: "keeps I (ret x)" "keeps I (throw e)" "keeps I (gets g)"
  by (simp_all add: keeps_def io_defs)

lemma frame_server_log: "frame (server_log os ev msg)"
  by (auto simp: server_log_def intro!: frame_intros frame_log)

lemmas keeps_intros = keeps_bind keeps_attempt keeps_leaf keeps_frame [OF frame_server_log]

lemma keeps_with_srv: "(\<And>s. I s \<Longrightarrow> I (snd (f s))) \<Longrightarrow> keeps I (with_srv f)"
  by (simp add: keeps_def with_srv_def)

lemma keeps_try_srv: "(\<And>s s'. I s \<Longrightarrow> f s = Inr s' \<Longrightarrow> I s') \<Longrightarrow> keeps I (try_srv f)"
  by (auto simp: keeps_def try_srv_def split: sum.splits)

lemma emits_with_srv: "emits P (with_srv f)" "emits P (try_srv g)"
  by (auto simp: emits_def with_srv_def try_srv_def split: sum.splits)

lemma emits_server_log: "(\<And>e. logs ev msg e \<Longrightarrow> P e) \<Longrightarrow> emits P (server_log os ev msg)"
  by (auto simp: server_log_def intro!: emits_intros emits_log_weak)

section \<open>The invariant\<close>

definition server_ok :: "server \<Rightarrow> instant \<Rightarrow> bool" where
  "server_ok s now =
     (let c = srv_config s; t = srv_tracker s in
      trk_sequence t = sequence (knock c) \<and> trk_window t = from_secs (sequence_window c)
      \<and> trk_timeout t = from_secs (partial_state_timeout c)
      \<and> trk_max_states t = max_partial_states c \<and> trk_max_payload t = max_payload_size c
      \<and> tracker_ok t now
      \<and> hm_ok (banned_sources s) \<and> hm_len (banned_sources s) \<le> unat (max_partial_states c)
      \<and> hm_ok (buckets (source_limiter s)) \<and> hm_ok (buckets (packet_telemetry_limiter s))
      \<and> (\<forall>ip. hm_get (banned_sources s) ip \<noteq> None \<longrightarrow> hm_get (states t) ip = None))"

lemma server_okD:
  assumes "server_ok s now"
  shows "tracker_ok (srv_tracker s) now" and "hm_ok (banned_sources s)"
    and "hm_ok (buckets (source_limiter s))" and "hm_ok (buckets (packet_telemetry_limiter s))"
    and "hm_len (banned_sources s) \<le> unat (max_partial_states (srv_config s))"
    and "trk_sequence (srv_tracker s) = sequence (knock (srv_config s))"
    and "trk_window (srv_tracker s) = from_secs (sequence_window (srv_config s))"
    and "trk_timeout (srv_tracker s) = from_secs (partial_state_timeout (srv_config s))"
    and "\<And>ip. hm_get (banned_sources s) ip \<noteq> None \<Longrightarrow> hm_get (states (srv_tracker s)) ip = None"
  using assms by (auto simp: server_ok_def Let_def)

lemma server_of_ok: "server_ok (server_of c fw lg) now"
  using new_ok by (simp add: server_ok_def server_of_def knock_tracker_new_def limiter_new_def Let_def)

lemma expire_banned_ok: "server_ok s now \<Longrightarrow> server_ok (expire_banned_sources s now') now"
  using hm.len_retain_le [of "banned_sources s" "\<lambda>_ e. e > now'"]
  by (fastforce simp: server_ok_def expire_banned_sources_def Let_def hm.get_retain
      split: option.splits if_splits)

lemma get_expired:
  "hm_ok (banned_sources s) \<Longrightarrow> hm_get (banned_sources (expire_banned_sources s now)) ip =
    (case hm_get (banned_sources s) ip of None \<Rightarrow> None | Some e \<Rightarrow> if e > now then Some e else None)"
  by (simp add: expire_banned_sources_def hm.get_retain)

text \<open>Tracking a packet of a source that is not in the ban table.\<close>

lemma track_ok:
  assumes ok: "server_ok s T" and T: "T \<le> now" and len: "2 \<le> length (sequence (knock (srv_config s)))"
    and nb: "hm_get (banned_sources s) (source_ip p) = None"
  shows "server_ok (snd (track p now s)) now"
proof -
  let ?t = "srv_tracker s"
  have len': "2 \<le> length (trk_sequence ?t)" using ok len by (simp add: server_okD)
  note fixed = same_setup_fields [OF process_setup, of ?t p now]
  have "tracker_ok (snd (process ?t p now)) now"
    using process_ok [OF server_okD(1) [OF ok] T len'] .
  moreover have "hm_get (states (snd (process ?t p now))) ip = None"
    if "hm_get (banned_sources s) ip \<noteq> None" for ip
  proof -
    have "ip \<noteq> source_ip p" using that nb by auto
    moreover have "hm_get (states ?t) ip = None" using server_okD(9) [OF ok that] .
    ultimately show ?thesis
      by (simp add: process_get_other [OF server_okD(1) [OF ok] T len'] alive_def)
  qed
  ultimately show ?thesis
    using ok by (simp add: server_ok_def track_def Let_def split_beta fixed)
qed

lemma over_limit_ok: "server_ok s now \<Longrightarrow> server_ok (snd (over_limit oc ip now s)) now"
  by (simp add: server_ok_def over_limit_def Let_def split_beta allow_ok)

lemma over_limit_fields [simp]:
  "srv_tracker (snd (over_limit oc ip now s)) = srv_tracker s"
  "srv_config (snd (over_limit oc ip now s)) = srv_config s"
  "srv_firewall (snd (over_limit oc ip now s)) = srv_firewall s"
  "srv_logger (snd (over_limit oc ip now s)) = srv_logger s"
  "banned_sources (snd (over_limit oc ip now s)) = banned_sources s"
  by (simp_all add: over_limit_def split_beta)

lemma track_fields [simp]:
  "srv_config (snd (track p now s)) = srv_config s" "srv_firewall (snd (track p now s)) = srv_firewall s"
  "srv_logger (snd (track p now s)) = srv_logger s"
  "banned_sources (snd (track p now s)) = banned_sources s"
  "source_limiter (snd (track p now s)) = source_limiter s"
  by (simp_all add: track_def split_beta)

lemma expire_banned_fields [simp]:
  "srv_config (expire_banned_sources s now) = srv_config s"
  "srv_tracker (expire_banned_sources s now) = srv_tracker s"
  "srv_firewall (expire_banned_sources s now) = srv_firewall s"
  "srv_logger (expire_banned_sources s now) = srv_logger s"
  "source_limiter (expire_banned_sources s now) = source_limiter s"
  by (simp_all add: expire_banned_sources_def)

lemma decide_fields [simp]:
  "srv_config (snd (decide p now s)) = srv_config s" "srv_firewall (snd (decide p now s)) = srv_firewall s"
  "srv_logger (snd (decide p now s)) = srv_logger s"
  by (simp_all add: decide_def is_source_banned_def Let_def split_beta)

lemma decide_ok:
  assumes "server_ok s T" and "T \<le> now" and "2 \<le> length (sequence (knock (srv_config s)))"
  shows "server_ok (snd (decide p now s)) now"
proof -
  let ?e = "expire_banned_sources s now"
  have e: "server_ok ?e T" using assms(1) by (rule expire_banned_ok)
  have now: "server_ok ?e now"
    using e assms(2) by (fastforce simp: server_ok_def Let_def tracker_ok_def)
  show ?thesis
  proof (cases "hm_get (banned_sources ?e) (source_ip p)")
    case (Some x)
    then show ?thesis using now by (simp add: decide_def is_source_banned_def Let_def)
  next
    case None
    then have "server_ok (snd (track p now ?e)) now"
      using track_ok [OF e assms(2)] assms(3) by simp
    with None show ?thesis
      by (simp add: decide_def is_source_banned_def Let_def split_beta over_limit_ok)
  qed
qed

text \<open>A source that is about to be banned, or was accepted, has no partial state.\<close>

lemma decide_final:
  assumes "server_ok s T" and "T \<le> now" and "2 \<le> length (sequence (knock (srv_config s)))"
    and "fst (decide p now s) \<in> {Banning, Outcome Accepted, Outcome Rejected, Outcome Oversized}"
  shows "hm_get (states (srv_tracker (snd (decide p now s)))) (source_ip p) = None"
proof -
  let ?e = "expire_banned_sources s now" and ?t = "srv_tracker s"
  have e: "server_ok ?e T" using assms(1) by (rule expire_banned_ok)
  have len: "2 \<le> length (trk_sequence ?t)" using server_okD(6) [OF assms(1)] assms(3) by simp
  have "hm_get (banned_sources ?e) (source_ip p) = None"
    using assms(4) by (auto simp: decide_def is_source_banned_def Let_def split: if_splits)
  then have d: "snd (decide p now s) = snd (over_limit (fst (track p now ?e)) (source_ip p) now (snd (track p now ?e)))"
    "fst (decide p now s) = (if fst (over_limit (fst (track p now ?e)) (source_ip p) now (snd (track p now ?e)))
      then Banning else Outcome (fst (track p now ?e)))"
    by (simp_all add: decide_def is_source_banned_def Let_def split_beta)
  have "fst (process ?t p now) \<in> {Accepted, Rejected, Oversized}"
    using assms(4) d(2) by (auto simp: over_limit_def track_def split_beta split: if_splits)
  then have "hm_get (states (snd (process ?t p now))) (source_ip p) = None"
    using process_outcome [OF server_okD(1) [OF assms(1)] assms(2) len, of p]
      process_get_own [OF server_okD(1) [OF assms(1)] assms(2) len, of p]
      source_step_final [of ?t "table_full ?t now" "hm_get (states ?t) (source_ip p)" p now]
    by simp
  then show ?thesis by (simp add: d(1)) (simp add: track_def split_beta)
qed

lemma remember_ok:
  assumes "server_ok s T" and "hm_get (states (srv_tracker s)) ip = None"
    and "remember_banned_source s ip now = Inr s'"
  shows "server_ok s' T"
proof -
  let ?e = "expire_banned_sources s now"
  have e: "server_ok ?e T" using assms(1) by (rule expire_banned_ok)
  have "hm_len (hm_insert ip x (banned_sources ?e)) \<le> unat (max_partial_states (srv_config s))"
    if "hm_get (banned_sources ?e) ip \<noteq> None
      \<or> hm_len (banned_sources ?e) < unat (max_partial_states (srv_config s))" for x
    using hm.bounded_insert [OF server_okD(2) [OF e] _ that, of x] server_okD(5) [OF e] by simp
  then show ?thesis
    using assms(2,3) e
    by (auto simp: remember_banned_source_def Let_def server_ok_def not_le
        split: if_splits option.splits)
qed

end
