(* ===== verification/ServerRuns.thy ===== *)
theory ServerRuns
  imports ServerSpec
begin

text \<open>
  Runs of the server over many packets, through any command runner that keeps the runner
  contract: the invariant, what can be written to the transcript, and the link from an
  executed allow command back to the knocked sequence.
\<close>

section \<open>What a reaction writes\<close>

definition runs :: "command_spec \<Rightarrow> event \<Rightarrow> bool" where
  "runs c e = (\<exists>r. e = Exec (program c) (args c) r)"

definition ban_message :: "server \<Rightarrow> ip_addr \<Rightarrow> string" where
  "ban_message s ip = ''source_ip='' @ ip_to_string ip @ '' ban_timeout_seconds=''
     @ dec (unat (ban_timeout (srv_config s)))"

definition allow_message :: "server \<Rightarrow> ip_addr \<Rightarrow> string" where
  "allow_message s ip = ''source_ip='' @ ip_to_string ip @ '' allow_timeout_seconds=''
     @ dec (unat (ip_timeout (srv_config s)))"

definition error_message :: "ip_addr \<Rightarrow> string \<Rightarrow> string" where
  "error_message ip e = ''source_ip='' @ ip_to_string ip @ '' error='' @ e"

definition telemetry_event :: "ip_addr \<Rightarrow> knock_outcome \<Rightarrow> event \<Rightarrow> bool" where
  "telemetry_event ip oc e =
     (logs ''packet_seen'' (''source_ip='' @ ip_to_string ip @ '' observed=true'') e
      \<or> logs ''knock_outcome'' (''source_ip='' @ ip_to_string ip @ '' outcome='' @ redacted_outcome oc) e)"

definition reaction_event :: "server \<Rightarrow> ip_addr \<Rightarrow> verdict \<Rightarrow> event \<Rightarrow> bool" where
  "reaction_event s ip v e = (case v of
       Dropped \<Rightarrow> False
     | Banning \<Rightarrow> runs (ban_ip_command (srv_firewall s) ip) e
         \<or> logs ''rate_limit_ban'' (ban_message s ip) e
         \<or> (\<exists>err. logs ''firewall_ban_failed'' (error_message ip err) e)
     | Outcome oc \<Rightarrow> telemetry_event ip oc e
         \<or> oc = Accepted \<and> (runs (add_ip_command (srv_firewall s) ip) e
             \<or> logs ''ssh_allow'' (allow_message s ip) e
             \<or> (\<exists>err. logs ''firewall_allow_failed'' (error_message ip err) e)))"

lemma emits_telemetry: "emits (telemetry_event ip oc) (log_packet_telemetry os ip oc now)"
  unfolding log_packet_telemetry_def
  by (auto simp: telemetry_event_def intro!: emits_bind emits_with_srv emits_leaf emits_server_log)

text \<open>The part of the server's state that reactions never change.\<close>

definition same_core :: "server \<Rightarrow> server \<Rightarrow> bool" where
  "same_core s s' = (srv_config s' = srv_config s \<and> srv_firewall s' = srv_firewall s
     \<and> srv_tracker s' = srv_tracker s \<and> source_limiter s' = source_limiter s
     \<and> srv_logger s' = srv_logger s)"

definition core_ok :: "server \<Rightarrow> instant \<Rightarrow> server \<Rightarrow> bool" where
  "core_ok s now s' = (same_core s s' \<and> server_ok s' now)"

lemma telemetry_allow_keeps: "core_ok s now s' \<Longrightarrow> core_ok s now (snd (telemetry_allow t s'))"
  by (auto simp: core_ok_def same_core_def telemetry_allow_def server_ok_def Let_def allow_ok
      split: prod.splits) (metis allow_ok snd_conv)

lemma remember_fields:
  "remember_banned_source s ip now = Inr s' \<Longrightarrow> same_core s s'"
  by (auto simp: remember_banned_source_def Let_def same_core_def split: if_splits option.splits)

lemma remember_keeps:
  assumes "hm_get (states (srv_tracker s)) ip = None" and "core_ok s now s1"
    and "remember_banned_source s1 ip t = Inr s2"
  shows "core_ok s now s2"
  using assms remember_ok [of s1 now ip t s2] remember_fields [OF assms(3)]
  by (simp add: core_ok_def same_core_def)

section \<open>Handling one packet through a runner\<close>

locale machine_runner = command_runner run_status for run_status :: "machine runner"
begin

lemma emits_runs: "emits (runs c) (run run_status c)"
  using emits_run by (simp add: runs_def [abs_def])

lemma emits_react: "emits (reaction_event s ip v) (react os run_status s ip now v)"
proof (cases v)
  case Dropped
  then show ?thesis by (simp add: emits_leaf)
next
  case Banning
  then show ?thesis
    by (auto simp: reaction_event_def ban_ip_def ban_message_def error_message_def
        intro!: emits_bind emits_with_srv emits_attempt emits_server_log
          emits_mono [OF emits_runs] split: sum.splits)
next
  case (Outcome oc)
  show ?thesis
    unfolding Outcome react.simps
    by (auto simp: reaction_event_def add_ip_def allow_message_def error_message_def
        intro!: emits_bind emits_leaf emits_attempt emits_server_log
          emits_mono [OF emits_telemetry] emits_mono [OF emits_runs] split: sum.splits)
qed

lemma keeps_run: "keeps I (run run_status c)"
  by (rule keeps_frame [OF frame_run])

lemma keeps_react:
  assumes "v = Banning \<Longrightarrow> hm_get (states (srv_tracker s)) ip = None"
  shows "keeps (core_ok s now) (react os run_status s' ip t v)"
proof (cases v)
  case Dropped
  then show ?thesis by (simp add: keeps_leaf)
next
  case Banning
  then show ?thesis
    using assms remember_keeps [of s ip]
    by (auto simp: ban_ip_def intro!: keeps_intros keeps_try_srv keeps_run split: sum.splits)
next
  case (Outcome oc)
  show ?thesis
    unfolding Outcome react.simps log_packet_telemetry_def add_ip_def
    by (auto intro!: keeps_intros keeps_with_srv telemetry_allow_keeps keeps_run split: sum.splits)
qed

lemma process_packet_step:
  assumes ok: "server_ok (srv m) T" and T: "T \<le> os_now os (hist m)"
    and len: "2 \<le> length (sequence (knock (srv_config (srv m))))"
    and step: "process_packet os run_status addr proto port n m = (r, m')"
  defines "now \<equiv> os_now os (hist m)"
  defines "d \<equiv> decide (packet_of addr proto port n) now (srv m)"
  shows "core_ok (snd d) now (srv m')"
    and "\<exists>es. hist m' = hist m @ ClockRead now # es \<and> list_all (reaction_event (srv m) (fst addr) (fst d)) es"
proof -
  let ?m1 = "m\<lparr>hist := hist m @ [ClockRead now], srv := snd d\<rparr>"
  have react: "react os run_status (snd d) (fst addr) now (fst d) ?m1 = (r, m')"
    using step by (simp add: process_packet_eq Let_def now_def d_def)
  have dok: "server_ok (snd d) now"
    using decide_ok [OF ok T len] by (simp add: d_def now_def)
  have "fst d = Banning \<Longrightarrow> hm_get (states (srv_tracker (snd d))) (fst addr) = None"
    using decide_final [OF ok T len, of "packet_of addr proto port n"] by (simp add: d_def now_def)
  from keepsD [OF keeps_react [OF this] react, of now] dok show "core_ok (snd d) now (srv m')"
    by (simp add: core_ok_def same_core_def)
  from emitsD [OF emits_react react] obtain es where
    "hist m' = hist ?m1 @ es" "list_all (reaction_event (snd d) (fst addr) (fst d)) es" by blast
  moreover have "reaction_event (snd d) = reaction_event (srv m)"
    by (intro ext) (simp add: reaction_event_def d_def ban_message_def allow_message_def split: verdict.split)
  ultimately show "\<exists>es. hist m' = hist m @ ClockRead now # es
      \<and> list_all (reaction_event (srv m) (fst addr) (fst d)) es"
    by (intro exI [of _ es]) simp
qed

end

section \<open>Runs\<close>

type_synonym datagram = "socket_addr \<times> protocol \<times> u16 option \<times> usize"

fun packet_in :: "datagram \<Rightarrow> knock_packet" where
  "packet_in (addr, proto, port, n) = packet_of addr proto port n"

fun process_datagram :: "os \<Rightarrow> machine runner \<Rightarrow> datagram \<Rightarrow> (machine, unit) io" where
  "process_datagram os runner (addr, proto, port, n) = process_packet os runner addr proto port n"

fun serve :: "os \<Rightarrow> machine runner \<Rightarrow> datagram list \<Rightarrow> (machine, unit) io" where
  "serve os runner [] = ret ()"
| "serve os runner (d # ds) = bind_io (process_datagram os runner d) (\<lambda>_. serve os runner ds)"

text \<open>The packets a run handles, each with the clock reading it was handled at.\<close>

fun arrivals :: "os \<Rightarrow> machine runner \<Rightarrow> datagram list \<Rightarrow> machine \<Rightarrow> arrival list" where
  "arrivals os runner [] m = []"
| "arrivals os runner (d # ds) m = (packet_in d, os_now os (hist m)) #
     (case process_datagram os runner d m of
        (Inr _, m') \<Rightarrow> arrivals os runner ds m'
      | (Inl _, m') \<Rightarrow> [])"

text \<open>
  A machine between two packets: the invariant holds at some time not after the next clock
  reading, and the partial states record what the handled packets \<open>tr\<close> were.
\<close>

definition between :: "os \<Rightarrow> config \<Rightarrow> arrival list \<Rightarrow> machine \<Rightarrow> bool" where
  "between os c tr m = (srv_config (srv m) = c
     \<and> (\<exists>T. server_ok (srv m) T \<and> T \<le> os_now os (hist m)) \<and> ghost_ok (srv_tracker (srv m)) tr)"

lemma decide_ghost:
  assumes ok: "server_ok s T" "T \<le> now" "2 \<le> length (sequence (knock (srv_config s)))"
    and gh: "ghost_ok (srv_tracker s) tr"
  shows "ghost_ok (srv_tracker (snd (decide p now s))) (tr @ [(p, now)])"
    and "fst (decide p now s) = Outcome Accepted \<Longrightarrow>
      completes (sequence (knock (srv_config s))) (from_secs (sequence_window (srv_config s)))
        (from_secs (partial_state_timeout (srv_config s))) (source_ip p) (tr @ [(p, now)])"
proof -
  let ?e = "expire_banned_sources s now" and ?t = "srv_tracker s"
  have len: "2 \<le> length (trk_sequence ?t)" using server_okD(6) [OF ok(1)] ok(3) by simp
  note tok = server_okD(1) [OF ok(1)] ok(2) len
  have d: "decide p now s = (if hm_get (banned_sources ?e) (source_ip p) \<noteq> None then (Dropped, ?e)
     else let (over, s3) = over_limit (fst (track p now ?e)) (source_ip p) now (snd (track p now ?e)) in
       (if over then Banning else Outcome (fst (track p now ?e)), s3))"
    by (simp add: decide_def is_source_banned_def Let_def split_beta)
  show "ghost_ok (srv_tracker (snd (decide p now s))) (tr @ [(p, now)])"
  proof (cases "hm_get (banned_sources ?e) (source_ip p)")
    case None
    then have "srv_tracker (snd (decide p now s)) = snd (process ?t p now)"
      by (simp add: d split_beta) (simp add: track_def split_beta)
    then show ?thesis using process_ghost [OF tok gh] by simp
  next
    case (Some x)
    then have "hm_get (banned_sources s) (source_ip p) \<noteq> None"
      by (auto simp: get_expired server_okD(2) [OF ok(1)] split: option.splits)
    then have "hm_get (states ?t) (source_ip p) = None" by (rule server_okD(9) [OF ok(1)])
    then show ?thesis
      using gh Some by (auto simp: d ghost_ok_def of_source_snoc)
  qed
  assume "fst (decide p now s) = Outcome Accepted"
  then have "fst (process ?t p now) = Accepted"
    by (auto simp: d track_def split_beta split: if_splits)
  from accepted_completes [OF tok gh this] show "completes (sequence (knock (srv_config s)))
      (from_secs (sequence_window (srv_config s))) (from_secs (partial_state_timeout (srv_config s)))
      (source_ip p) (tr @ [(p, now)])"
    by (simp add: server_okD(6-8) [OF ok(1)])
qed

definition allow_event :: "server \<Rightarrow> event \<Rightarrow> bool" where
  "allow_event s e = (\<exists>rest r. e = Exec ''ipset'' (''add'' # fw_ipset_name (srv_firewall s) # rest) r)"

lemma reaction_allow:
  assumes "reaction_event s ip v e" and "allow_event s e"
    and "fw_ipset_name (srv_firewall s) \<noteq> fw_ban_ipset_name (srv_firewall s)"
  shows "v = Outcome Accepted \<and> runs (add_ip_command (srv_firewall s) ip) e"
  using assms
  by (auto simp: reaction_event_def allow_event_def runs_def ban_ip_command_def telemetry_event_def
      logs_def split: verdict.splits)

context machine_runner begin

lemma between_step:
  assumes mono: "monotonic os" and len: "2 \<le> length (sequence (knock c))"
    and bt: "between os c tr m" and step: "process_datagram os run_status d m = (r, m')"
  shows "between os c (tr @ [(packet_in d, os_now os (hist m))]) m'"
    and "srv_firewall (srv m') = srv_firewall (srv m)"
    and "\<exists>v es. hist m' = hist m @ ClockRead (os_now os (hist m)) # es
      \<and> list_all (reaction_event (srv m) (source_ip (packet_in d)) v) es
      \<and> (v = Outcome Accepted \<longrightarrow> completes (sequence (knock c)) (from_secs (sequence_window c))
           (from_secs (partial_state_timeout c)) (source_ip (packet_in d))
           (tr @ [(packet_in d, os_now os (hist m))]))"
proof -
  obtain addr proto port n where d: "d = (addr, proto, port, n)" by (cases d)
  let ?now = "os_now os (hist m)" and ?p = "packet_of addr proto port n"
  from bt obtain T where ok: "server_ok (srv m) T" "T \<le> ?now" and c: "srv_config (srv m) = c"
    and gh: "ghost_ok (srv_tracker (srv m)) tr"
    by (auto simp: between_def)
  have len': "2 \<le> length (sequence (knock (srv_config (srv m))))" using len c by simp
  have st: "process_packet os run_status addr proto port n m = (r, m')" using step d by simp
  note s = process_packet_step [OF ok len' st]
  note g = decide_ghost [OF ok len' gh, of ?p]
  obtain es where es: "hist m' = hist m @ ClockRead ?now # es"
    "list_all (reaction_event (srv m) (fst addr) (fst (decide ?p ?now (srv m)))) es"
    using s(2) by blast
  have "?now \<le> os_now os (hist m')"
    using mono unfolding es(1) monotonic_def by blast
  with s(1) g(1) c show "between os c (tr @ [(packet_in d, ?now)]) m'"
    by (auto simp: between_def core_ok_def same_core_def d)
  show "srv_firewall (srv m') = srv_firewall (srv m)"
    using s(1) by (simp add: core_ok_def same_core_def)
  show "\<exists>v es. hist m' = hist m @ ClockRead ?now # es
      \<and> list_all (reaction_event (srv m) (source_ip (packet_in d)) v) es
      \<and> (v = Outcome Accepted \<longrightarrow> completes (sequence (knock c)) (from_secs (sequence_window c))
           (from_secs (partial_state_timeout c)) (source_ip (packet_in d)) (tr @ [(packet_in d, ?now)]))"
    using es g(2) by (auto simp: d c)
qed

lemma emits_any: "emits (\<lambda>_. True) (run_status x)"
  by (rule emits_mono [OF emits_status]) simp

lemma process_appends: "\<exists>es. hist (snd (process_datagram os run_status d m)) = hist m @ es"
proof -
  obtain addr proto port n where d: "d = (addr, proto, port, n)" by (cases d)
  let ?now = "os_now os (hist m)"
  let ?d = "decide (packet_of addr proto port n) ?now (srv m)"
  let ?m = "m\<lparr>hist := hist m @ [ClockRead ?now], srv := snd ?d\<rparr>"
  have "\<exists>es. hist (snd (react os run_status (snd ?d) (fst addr) ?now (fst ?d) ?m)) = hist ?m @ es"
    by (rule emits_appends [OF emits_react])
  then show ?thesis by (auto simp: d process_packet_eq Let_def)
qed

lemma serve_appends: "serve os run_status ds m = (r, m') \<Longrightarrow> \<exists>es. hist m' = hist m @ es"
proof (induction ds arbitrary: m)
  case Nil
  then show ?case by (simp add: ret_def)
next
  case (Cons d ds)
  obtain r1 m1 where 1: "process_datagram os run_status d m = (r1, m1)"
    by (cases "process_datagram os run_status d m")
  then obtain es where "hist m1 = hist m @ es" using process_appends [of os d m] by auto
  with Cons 1 show ?case
    by (cases r1) (fastforce simp: bind_io_def)+
qed

lemma serve_between:
  assumes "monotonic os" and "2 \<le> length (sequence (knock c))"
    and "between os c tr m" and "serve os run_status ds m = (r, m')"
  shows "\<exists>tr'. between os c (tr @ tr') m'"
  using assms(3,4)
proof (induction ds arbitrary: tr m)
  case Nil
  then show ?case by (auto simp: ret_def intro: exI [of _ "[]"])
next
  case (Cons d ds)
  obtain r1 m1 where 1: "process_datagram os run_status d m = (r1, m1)"
    by (cases "process_datagram os run_status d m")
  note b = between_step(1) [OF assms(1,2) Cons.prems(1) 1]
  show ?case
  proof (cases r1)
    case (Inl e)
    then show ?thesis using Cons.prems(2) 1 b by (auto simp: bind_io_def)
  next
    case (Inr u)
    then have "serve os run_status ds m1 = (r, m')" using Cons.prems(2) 1 by (simp add: bind_io_def)
    from Cons.IH [OF b this] show ?thesis by auto
  qed
qed

lemma serve_allow_sound:
  assumes "monotonic os" and "2 \<le> length (sequence (knock c))" and "between os c tr m"
    and "fw_ipset_name (srv_firewall (srv m)) \<noteq> fw_ban_ipset_name (srv_firewall (srv m))"
    and "serve os run_status ds m = (r, m')"
    and "e \<in> set (drop (length (hist m)) (hist m'))" and "allow_event (srv m) e"
  shows "\<exists>ip k. runs (add_ip_command (srv_firewall (srv m)) ip) e
    \<and> completes (sequence (knock c)) (from_secs (sequence_window c)) (from_secs (partial_state_timeout c))
        ip (tr @ take k (arrivals os run_status ds m))"
  using assms(3-7)
proof (induction ds arbitrary: tr m)
  case Nil
  then show ?case by (simp add: ret_def)
next
  case (Cons d ds)
  let ?now = "os_now os (hist m)" and ?p = "packet_in d" and ?fw = "srv_firewall (srv m)"
  let ?C = "completes (sequence (knock c)) (from_secs (sequence_window c)) (from_secs (partial_state_timeout c))"
  obtain r1 m1 where 1: "process_datagram os run_status d m = (r1, m1)"
    by (cases "process_datagram os run_status d m")
  note b = between_step [OF assms(1,2) Cons.prems(1) 1]
  from b(3) obtain v es where es: "hist m1 = hist m @ ClockRead ?now # es"
    "list_all (reaction_event (srv m) (source_ip ?p) v) es"
    "v = Outcome Accepted \<longrightarrow> ?C (source_ip ?p) (tr @ [(?p, ?now)])" by blast
  have here: ?case if "e \<in> set (ClockRead ?now # es)"
  proof -
    have "e \<in> set es" using that Cons.prems(5) by (auto simp: allow_event_def)
    then have "reaction_event (srv m) (source_ip ?p) v e" using es(2) by (simp add: list_all_iff)
    from reaction_allow [OF this Cons.prems(5,2)] es(3) show ?thesis
      by (intro exI [of _ "source_ip ?p"] exI [of _ 1]) simp
  qed
  show ?case
  proof (cases r1)
    case (Inl x)
    then have "m' = m1" using Cons.prems(3) 1 by (simp add: bind_io_def)
    then show ?thesis using Cons.prems(4) es(1) here by simp
  next
    case (Inr u)
    then have rest: "serve os run_status ds m1 = (r, m')" using Cons.prems(3) 1 by (simp add: bind_io_def)
    have arr: "arrivals os run_status (d # ds) m = (?p, ?now) # arrivals os run_status ds m1"
      using 1 Inr by simp
    obtain es' where es': "hist m' = hist m1 @ es'"
      using serve_appends [OF rest] by blast
    from Cons.prems(4) have "e \<in> set (ClockRead ?now # es) \<or> e \<in> set (drop (length (hist m1)) (hist m'))"
      by (simp add: es' es(1))
    then show ?thesis
    proof
      assume "e \<in> set (drop (length (hist m1)) (hist m'))"
      from Cons.IH [OF b(1) _ rest this] Cons.prems(2,5) b(2) obtain ip k where
        "runs (add_ip_command ?fw ip) e" "?C ip (tr @ (?p, ?now) # take k (arrivals os run_status ds m1))"
        by (auto simp: allow_event_def)
      then show ?thesis unfolding arr by (intro exI [of _ ip] exI [of _ "Suc k"]) simp
    qed (rule here)
  qed
qed

end

interpretation msys: machine_runner "system_run_status os"
  by unfold_locales

section \<open>Single packets\<close>

definition log_works :: "os \<Rightarrow> machine \<Rightarrow> bool" where
  "log_works os m = ((\<forall>h l. os_write os h l = None) \<and> \<not> lock_poisoned (srv_logger (srv m)))"

lemma server_log_ok: "log_works os m \<Longrightarrow> fst (server_log os ev msg m) = Inr ()"
  by (simp add: log_works_def server_log_def log_def bind_io_def gets_def unix_time_def write_audit_def
      call_def none_or_fail_def ret_def Let_def)

lemma run_keeps_log: "log_works os m \<Longrightarrow> log_works os (snd (run (system_run_status os) c m))"
proof -
  have "srv (snd (run (system_run_status os) c m)) = srv m"
    by (rule srv_more, rule frameD [OF sys.frame_run]) (rule prod.collapse [symmetric])
  then show "log_works os m \<Longrightarrow> log_works os (snd (run (system_run_status os) c m))"
    by (simp add: log_works_def)
qed

lemma run_no_panic: "fst (run (system_run_status os) c m) \<noteq> Inl (Panic e)"
  by (simp add: run_def bind_io_def io_defs system_status_unfold split: sum.split)

lemma attempt_run:
  "\<exists>r. attempt (run (system_run_status os) c) m = (Inr r, snd (run (system_run_status os) c m))
    \<and> (\<forall>e. r = Inl e \<longleftrightarrow> fst (run (system_run_status os) c m) = Inl (Err e))"
proof -
  obtain r m' where rm: "run (system_run_status os) c m = (r, m')" by (cases "run (system_run_status os) c m")
  show ?thesis
  proof (cases r)
    case (Inl e)
    then show ?thesis using rm run_no_panic [of os c m] by (cases e) (auto simp: attempt_def)
  qed (simp add: rm attempt_def)
qed

lemma banning_survives:
  assumes "fst (decide (packet_of addr proto port n) (os_now os (hist m)) (srv m)) = Banning"
    and "os_now os (hist m) + from_secs (ban_timeout (srv_config (srv m))) \<le> instant_max"
    and "log_works os m"
  shows "fst (process_packet os (system_run_status os) addr proto port n m) = Inr ()"
    and "\<exists>es. hist (snd (process_packet os (system_run_status os) addr proto port n m))
       = hist m @ [ClockRead (os_now os (hist m)),
           Exec ''ipset'' (args (ban_ip_command (srv_firewall (srv m)) (fst addr)))
             (os_exec os (hist m @ [ClockRead (os_now os (hist m))]) ''ipset''
               (args (ban_ip_command (srv_firewall (srv m)) (fst addr))))] @ es"
proof -
  let ?now = "os_now os (hist m)" and ?ip = "fst addr"
  let ?d = "decide (packet_of addr proto port n) ?now (srv m)"
  let ?m1 = "m\<lparr>hist := hist m @ [ClockRead ?now], srv := snd ?d\<rparr>"
  obtain s' where s0: "remember_banned_source (snd ?d) ?ip ?now = Inr s'"
    using assms(2) by (fastforce simp: remember_banned_source_def Let_def instant_checked_add_def)
  have "srv_logger s' = srv_logger (srv m)"
    using remember_fields [OF s0] by (simp add: same_core_def)
  note s' = s0 this
  let ?m2 = "?m1\<lparr>srv := s'\<rparr>" and ?c = "ban_ip_command (srv_firewall (srv m)) ?ip"
  obtain r where r: "attempt (run (system_run_status os) ?c) ?m2
      = (Inr r, snd (run (system_run_status os) ?c ?m2))" using attempt_run by blast
  have lw: "log_works os (snd (run (system_run_status os) ?c ?m2))"
    by (rule run_keeps_log) (use assms(3) s'(2) in \<open>simp add: log_works_def\<close>)
  let ?k = "case r of
      Inr _ \<Rightarrow> server_log os ''rate_limit_ban'' (''source_ip='' @ ip_to_string ?ip
        @ '' ban_timeout_seconds='' @ dec (unat (ban_timeout (srv_config (srv m)))))
    | Inl e \<Rightarrow> server_log os ''firewall_ban_failed'' (''source_ip='' @ ip_to_string ?ip @ '' error='' @ e)"
  have eq: "process_packet os (system_run_status os) addr proto port n m
      = ?k (snd (run (system_run_status os) ?c ?m2))"
    using assms(1) s' r
    by (cases r) (simp_all add: process_packet_eq Let_def bind_io_def try_srv_def ban_ip_def)
  show "fst (process_packet os (system_run_status os) addr proto port n m) = Inr ()"
    unfolding eq using server_log_ok [OF lw] by (simp split: sum.split)
  have "emits (\<lambda>_. True) ?k" by (auto intro: emits_server_log split: sum.split)
  then obtain es where "hist (snd (?k (snd (run (system_run_status os) ?c ?m2))))
      = hist (snd (run (system_run_status os) ?c ?m2)) @ es"
    unfolding emits_def by blast
  then show "\<exists>es. hist (snd (process_packet os (system_run_status os) addr proto port n m))
       = hist m @ [ClockRead ?now, Exec ''ipset'' (args ?c)
           (os_exec os (hist m @ [ClockRead ?now]) ''ipset'' (args ?c))] @ es"
    unfolding eq
    by (simp add: sys.run_hist system_status_unfold ban_ip_command_def split: sum.split)
qed

definition command_works :: "io_error + cmd_output \<Rightarrow> bool" where
  "command_works r = (case r of Inl e \<Rightarrow> False | Inr out \<Rightarrow> out_success out)"

definition failure_text :: "os \<Rightarrow> command_spec \<Rightarrow> io_error + cmd_output \<Rightarrow> string" where
  "failure_text os c r = (case r of Inl e \<Rightarrow> ''failed to execute '' @ program c
     | Inr out \<Rightarrow> format_command_failure (os_debug_wide os) c out)"

lemma run_answer:
  "run (system_run_status os) c m = (let r = os_exec os (hist m) (program c) (args c) in
     (if command_works r then Inr () else Inl (Err (failure_text os c r)),
      m\<lparr>hist := hist m @ [Exec (program c) (args c) r]\<rparr>))"
  by (simp add: run_def bind_io_def io_defs system_status_unfold Let_def command_works_def failure_text_def split: sum.split)

lemma server_log_hist:
  "log_works os m \<Longrightarrow> hist (snd (server_log os ev msg m)) = hist m @ [UnixTime (os_unix os (hist m)),
     Audit (audit_line (case os_unix os (hist m) of None \<Rightarrow> 0 | Some t \<Rightarrow> t) ev msg) None]"
  by (simp add: log_works_def server_log_def log_def bind_io_def gets_def unix_time_def write_audit_def
      call_def none_or_fail_def ret_def Let_def)

lemma banning_hist:
  assumes "fst (decide (packet_of addr proto port n) (os_now os (hist m)) (srv m)) = Banning"
    and "os_now os (hist m) + from_secs (ban_timeout (srv_config (srv m))) \<le> instant_max"
    and "log_works os m"
    and h: "h = hist m @ [ClockRead (os_now os (hist m))]"
    and c: "c = ban_ip_command (srv_firewall (srv m)) (fst addr)"
    and r: "r = os_exec os h (program c) (args c)"
  shows "\<exists>t. hist (snd (process_packet os (system_run_status os) addr proto port n m))
    = h @ [Exec (program c) (args c) r, UnixTime t, Audit (audit_line (case t of None \<Rightarrow> 0 | Some s \<Rightarrow> s)
        (if command_works r then ''rate_limit_ban'' else ''firewall_ban_failed'')
        (if command_works r then ban_message (srv m) (fst addr)
         else error_message (fst addr) (failure_text os c r))) None]"
proof -
  let ?d = "decide (packet_of addr proto port n) (os_now os (hist m)) (srv m)"
  obtain s' where s0: "remember_banned_source (snd ?d) (fst addr) (os_now os (hist m)) = Inr s'"
    using assms(2) by (fastforce simp: remember_banned_source_def Let_def instant_checked_add_def)
  have lg: "srv_logger s' = srv_logger (srv m)"
    using remember_fields [OF s0] by (simp add: same_core_def)
  let ?m3 = "m\<lparr>hist := h @ [Exec (program c) (args c) r], srv := s'\<rparr>"
  have "process_packet os (system_run_status os) addr proto port n m
      = server_log os (if command_works r then ''rate_limit_ban'' else ''firewall_ban_failed'')
        (if command_works r then ban_message (srv m) (fst addr) else error_message (fst addr) (failure_text os c r)) ?m3"
    using assms(1) s0 unfolding process_packet_eq Let_def
    by (simp add: bind_io_def try_srv_def ban_ip_def attempt_def run_answer Let_def h [symmetric] c [symmetric]
        r [symmetric] ban_message_def error_message_def) (cases m; simp)
  moreover have "log_works os ?m3" using assms(3) lg by (simp add: log_works_def)
  ultimately show ?thesis using server_log_hist [of os ?m3] by auto
qed

lemma accepted_failing:
  assumes "decide (packet_of addr proto port n) (os_now os (hist m)) (srv m) = (Outcome Accepted, s)"
    and "\<not> packet_telemetry_enabled s" and "log_works os m"
    and "\<And>h out. os_exec os h ''ipset'' (args (add_ip_command (srv_firewall s) (fst addr))) = Inr out
      \<Longrightarrow> \<not> out_success out"
  shows "\<exists>e. fst (process_packet os (system_run_status os) addr proto port n m) = Inl (Err e)"
proof -
  let ?now = "os_now os (hist m)" and ?ip = "fst addr" and ?c = "add_ip_command (srv_firewall s) (fst addr)"
  let ?m1 = "m\<lparr>hist := hist m @ [ClockRead ?now], srv := s\<rparr>"
  have lg: "srv_logger s = srv_logger (srv m)" using decide_fields(3) assms(1) by (metis snd_conv)
  have p: "program ?c = ''ipset''" by (simp add: add_ip_command_def)
  have "fst (run (system_run_status os) ?c ?m1) \<noteq> Inr ()"
    using assms(4) by (auto simp: run_def bind_io_def io_defs system_status_unfold p split: sum.splits)
  then obtain e where e: "fst (run (system_run_status os) ?c ?m1) = Inl (Err e)"
  proof (cases "fst (run (system_run_status os) ?c ?m1)")
    case (Inl f)
    then show ?thesis using that run_no_panic [of os ?c ?m1] by (cases f) auto
  qed simp
  obtain r where r: "attempt (run (system_run_status os) ?c) ?m1
      = (Inr r, snd (run (system_run_status os) ?c ?m1))"
    "\<And>e. r = Inl e \<longleftrightarrow> fst (run (system_run_status os) ?c ?m1) = Inl (Err e)"
    using attempt_run by blast
  have lw: "log_works os (snd (run (system_run_status os) ?c ?m1))"
    by (rule run_keeps_log) (use assms(3) lg in \<open>simp add: log_works_def\<close>)
  have tele: "log_packet_telemetry os ?ip Accepted ?now ?m1 = (Inr (), ?m1)"
    using assms(2) by (simp add: log_packet_telemetry_def bind_with_srv telemetry_allow_def ret_def)
  let ?msg = "''source_ip='' @ ip_to_string ?ip @ '' error='' @ e"
  obtain m2 where log: "server_log os ''firewall_allow_failed'' ?msg
      (snd (run (system_run_status os) ?c ?m1)) = (Inr (), m2)"
    using server_log_ok [OF lw] by (metis prod.collapse)
  have "r = Inl e" using r(2) e by simp
  then have "process_packet os (system_run_status os) addr proto port n m = (Inl (Err e), m2)"
    using assms(1) tele r(1) log by (simp add: process_packet_eq Let_def bind_io_def add_ip_def throw_def)
  then show ?thesis by simp
qed

lemma is_banned_iff:
  "hm_ok (banned_sources s) \<Longrightarrow> fst (is_source_banned s ip t) \<longleftrightarrow>
    (\<exists>e. hm_get (banned_sources s) ip = Some e \<and> t < e)"
  by (auto simp: is_source_banned_def Let_def get_expired split: option.split)

lemma remember_get:
  assumes "server_ok s T" and "remember_banned_source s ip now = Inr s'"
    and "hm_len (banned_sources (expire_banned_sources s now)) < unat (max_partial_states (srv_config s))
      \<or> hm_get (banned_sources (expire_banned_sources s now)) ip \<noteq> None"
  shows "hm_ok (banned_sources s')"
    and "hm_get (banned_sources s') ip2 = (if ip2 = ip
      then Some (now + from_secs (ban_timeout (srv_config s)))
      else hm_get (banned_sources (expire_banned_sources s now)) ip2)"
  using assms server_okD(2) [OF expire_banned_ok [OF assms(1), of now]]
  by (auto simp: remember_banned_source_def Let_def instant_checked_add_def split: if_splits)

lemma served_ok:
  assumes "server_new os c w = (Inr s, w1)" and "monotonic os" and "2 \<le> length (sequence (knock c))"
    and "serve os (system_run_status os) ds \<lparr> hist = hist w1, srv = s \<rparr> = (r, m')"
  shows "srv_config (srv m') = c" and "\<exists>T. server_ok (srv m') T"
proof -
  from assms(1) obtain fw lg where s: "s = server_of c fw lg"
    unfolding server_new_def by (elim bind_io_Inr) (fastforce simp: ret_def)
  have "server_ok s 0" unfolding s by (rule server_of_ok)
  then have "between os c [] \<lparr> hist = hist w1, srv = s \<rparr>"
    by (auto simp: between_def s server_of_def knock_tracker_new_def ghost_ok_def intro!: exI [of _ 0])
  from msys.serve_between [OF assms(2,3) this assms(4)] show "srv_config (srv m') = c"
    and "\<exists>T. server_ok (srv m') T" by (auto simp: between_def)
qed

section \<open>Properties\<close>

definition example_server :: server where
  "example_server = server_of example_config example_firewall
     \<lparr> log_path = ''/var/log/sshknockd/sshknockd.log'', lock_poisoned = False \<rparr>"

definition example_machine :: machine where
  "example_machine = \<lparr> hist = [], srv = example_server \<rparr>"

lemma example_server_new: "server_new quiet_os example_config w =
    (Inr example_server, snd (server_new quiet_os example_config w))"
  by (simp add: server_new_def bind_io_def io_defs example_config_simps example_firewall_new [simplified]
      logger_new_def path_parent_def call_def quiet_os_def none_or_fail_def example_server_def
      example_firewall_def validate_ipset_name_def firewall_new_def ipset_char_def is_ascii_alphanumeric_def
      split: prod.split sum.split option.split)

lemma quiet_monotonic: "monotonic quiet_os"
  by (simp add: monotonic_def quiet_os_def)

lemma example_config_len: "2 \<le> length (sequence (knock example_config))"
  and example_config_max: "unat (max_partial_states example_config) = 4096"
  by (simp_all add: example_config_simps)

text \<open>
  After any number of packets the server's memory is bounded by the configuration: at most
  \<open>max_partial_states\<close> partial knocks and as many bans, and no source has both.
\<close>

theorem server_state_bounded:
  "server_new os c w = (Inr s, w1) \<Longrightarrow> monotonic os \<Longrightarrow> 2 \<le> length (sequence (knock c)) \<Longrightarrow>
    serve os (system_run_status os) ds \<lparr> hist = hist w1, srv = s \<rparr> = (r, m') \<Longrightarrow>
    tracker_len (srv_tracker (srv m')) \<le> unat (max_partial_states c)
    \<and> hm_len (banned_sources (srv m')) \<le> unat (max_partial_states c)
    \<and> (hm_get (banned_sources (srv m')) ip = None \<or> hm_get (states (srv_tracker (srv m'))) ip = None)"
  using served_ok [of os c w s w1 ds r m']
  by (fastforce simp: server_ok_def tracker_ok_def tracker_len_def Let_def)

theorem server_state_bounded_witness:
  "tracker_len (srv_tracker (srv (snd (serve quiet_os (system_run_status quiet_os)
     [((ipv4 10 0 0 1, 5000), Udp, Some 40101, 64)]
     \<lparr> hist = hist (snd (server_new quiet_os example_config \<lparr> hist = [] \<rparr>)), srv = example_server \<rparr>)))) \<le> 4096"
  by (rule server_state_bounded [OF example_server_new quiet_monotonic example_config_len
      prod.collapse [symmetric], THEN conjunct1, unfolded example_config_max])

text \<open>
  While a source is in the ban table and its ban has not run out, its packets are dropped
  unseen: the clock is read, expired bans are forgotten, and nothing else changes, no command
  runs and no audit line is written.
\<close>

theorem banned_source_ignored:
  "server_ok (srv m) T \<Longrightarrow> hm_get (banned_sources (srv m)) (fst addr) = Some e \<Longrightarrow>
    os_now os (hist m) < e \<Longrightarrow>
    process_packet os runner addr proto port n m =
      (Inr (), m\<lparr>hist := hist m @ [ClockRead (os_now os (hist m))],
                 srv := expire_banned_sources (srv m) (os_now os (hist m))\<rparr>)"
  by (simp add: process_packet_eq decide_def is_source_banned_def Let_def get_expired server_okD(2) ret_def)

definition banned_machine :: machine where
  "banned_machine = \<lparr> hist = [], srv = example_server\<lparr>banned_sources := hm_insert (ipv4 10 0 0 9) 100 hm_empty\<rparr> \<rparr>"

lemma example_server_ok: "server_ok example_server 0"
  unfolding example_server_def by (rule server_of_ok)

lemma banned_machine_ok: "server_ok (srv banned_machine) 0"
proof -
  have "hm_len (hm_insert (ipv4 10 0 0 9) (100 :: nat) hm_empty) = 1"
    by (simp add: hm_defs)
  then show ?thesis
    using example_server_ok
    by (simp add: server_ok_def Let_def banned_machine_def example_server_def server_of_def
        example_config_simps knock_tracker_new_def)
qed

theorem banned_source_ignored_witness:
  "hist (snd (process_packet quiet_os (system_run_status quiet_os) (ipv4 10 0 0 9, 5000) Udp (Some 40101) 64
     banned_machine)) = [ClockRead 0]"
  using banned_source_ignored [OF banned_machine_ok, of "(ipv4 10 0 0 9, 5000)" 100 quiet_os]
  by (simp add: banned_machine_def) (simp add: quiet_os_def)

lemma remember_full:
  assumes "remember_banned_source s ip now = Inr s'"
    and "\<not> hm_len (banned_sources (expire_banned_sources s now)) < unat (max_partial_states (srv_config s))"
    and "hm_get (banned_sources (expire_banned_sources s now)) ip = None"
  shows "s' = expire_banned_sources s now"
  using assms by (simp add: remember_banned_source_def Let_def)

text \<open>
  C19: how long a ban lasts, when its end is a representable instant. If the ban table, rid of the
  bans that have run out, has room or holds the source already, the source is banned for exactly
  \<open>ban_timeout\<close> seconds from the packet that caused the ban; if the table is full of other
  sources, it is not banned at all. In both cases no other source's ban changes.
\<close>

theorem ban_lasts_ban_timeout:
  "server_ok s T \<Longrightarrow> remember_banned_source s ip now = Inr s' \<Longrightarrow> now \<le> t \<Longrightarrow>
    fst (is_source_banned s' ip2 t) =
      (if ip2 = ip \<and> (hm_len (banned_sources (expire_banned_sources s now)) < unat (max_partial_states (srv_config s))
           \<or> hm_get (banned_sources (expire_banned_sources s now)) ip \<noteq> None)
       then t < now + from_secs (ban_timeout (srv_config s)) else fst (is_source_banned s ip2 t))"
proof -
  assume ok: "server_ok s T" and r: "remember_banned_source s ip now = Inr s'" and t: "now \<le> t"
  show ?thesis
  proof (cases "hm_len (banned_sources (expire_banned_sources s now)) < unat (max_partial_states (srv_config s))
           \<or> hm_get (banned_sources (expire_banned_sources s now)) ip \<noteq> None")
    case True
    then show ?thesis
      using remember_get [OF ok r True] server_okD(2) [OF ok] t
      by (auto simp: is_banned_iff get_expired split: option.splits if_splits)
  next
    case False
    then have "s' = expire_banned_sources s now" using remember_full [OF r] by simp
    then show ?thesis
      using False server_okD(2) [OF ok] server_okD(2) [OF expire_banned_ok [OF ok, of now]] t
      by (auto simp: is_banned_iff get_expired split: option.splits if_splits)
  qed
qed

theorem ban_lasts_ban_timeout_witness:
  "\<exists>s'. remember_banned_source example_server (ipv4 10 0 0 9) 5 = Inr s'
     \<and> fst (is_source_banned s' (ipv4 10 0 0 9) 1000)"
proof -
  have "\<exists>s'. remember_banned_source example_server (ipv4 10 0 0 9) 5 = Inr s'"
    by (simp add: remember_banned_source_def Let_def instant_checked_add_def instant_max_def
        example_server_def server_of_def from_secs_def nanos_per_sec_def example_config_simps)
  then obtain s' where s': "remember_banned_source example_server (ipv4 10 0 0 9) 5 = Inr s'" by blast
  have "hm_len (banned_sources (expire_banned_sources example_server 5))
      < unat (max_partial_states (srv_config example_server))"
    by (simp add: example_server_def server_of_def expire_banned_sources_def hm_defs example_config_simps)
  with ban_lasts_ban_timeout [OF example_server_ok s', of 1000 "ipv4 10 0 0 9"] s' show ?thesis
    by (simp add: example_server_def server_of_def from_secs_def nanos_per_sec_def example_config_simps)
qed

text \<open>A machine where one source has used up its invalid packets.\<close>

definition drained_machine :: machine where
  "drained_machine = \<lparr> hist = [], srv = example_server\<lparr>source_limiter := (source_limiter example_server)
     \<lparr>buckets := hm_insert (ipv4 10 0 0 9) \<lparr> tokens = 0, last_refill = 0, bkt_last_seen = 0 \<rparr> hm_empty\<rparr>\<rparr> \<rparr>"

lemmas example_machine_simps = example_server_def server_of_def example_config_simps knock_tracker_new_def
  limiter_new_def from_secs_def nanos_per_sec_def

lemma drained_decide:
  "fst (decide (packet_of (ipv4 10 0 0 9, 5000) Udp (Some 40103) 1) 0 (srv drained_machine)) = Banning"
  by (simp add: drained_machine_def example_machine_simps decide_def is_source_banned_def Let_def
      expire_banned_sources_def track_def process_def packet_of_def expire_def matches_step_def
      step_matches_def start_or_reject_def remove_source_def over_limit_def hm_defs
      allow_def prune_idle_def idle_ttl_def duration_checked_mul_def duration_max_def duration_since_def)

text \<open>
  C20: when a source exceeds its rate of invalid packets, the ban command for its address is
  executed right after the clock reading, and the handling of the packet succeeds whatever the
  command's result is, and ends with one audit line: \<open>rate_limit_ban\<close> when the command worked,
  and otherwise \<open>firewall_ban_failed\<close> with the address and the text of the failure. This holds when
  the end of the ban is a representable instant and the audit log can be written.
\<close>

theorem ban_failure_survived:
  "fst (decide (packet_of addr proto port n) (os_now os (hist m)) (srv m)) = Banning \<Longrightarrow>
    os_now os (hist m) + from_secs (ban_timeout (srv_config (srv m))) \<le> instant_max \<Longrightarrow>
    log_works os m \<Longrightarrow> h = hist m @ [ClockRead (os_now os (hist m))] \<Longrightarrow>
    c = ban_ip_command (srv_firewall (srv m)) (fst addr) \<Longrightarrow> r = os_exec os h (program c) (args c) \<Longrightarrow>
    fst (process_packet os (system_run_status os) addr proto port n m) = Inr ()
    \<and> (\<exists>t. hist (snd (process_packet os (system_run_status os) addr proto port n m))
      = h @ [Exec (program c) (args c) r, UnixTime t, Audit (audit_line (case t of None \<Rightarrow> 0 | Some s \<Rightarrow> s)
          (if command_works r then ''rate_limit_ban'' else ''firewall_ban_failed'')
          (if command_works r then ban_message (srv m) (fst addr)
           else error_message (fst addr) (failure_text os c r))) None])"
  using banning_survives(1) banning_hist by blast

definition failing_os :: os where
  "failing_os = quiet_os\<lparr>os_exec := \<lambda>h p a. Inl (IoError OtherKind ''No such file or directory (os error 2)'')\<rparr>"

theorem ban_failure_survived_witness:
  "fst (process_packet failing_os (system_run_status failing_os) (ipv4 10 0 0 9, 5000) Udp (Some 40103) 1
     drained_machine) = Inr ()
   \<and> (\<exists>h ts. hist (snd (process_packet failing_os (system_run_status failing_os) (ipv4 10 0 0 9, 5000) Udp
       (Some 40103) 1 drained_machine)) = h @ [Audit (audit_line ts ''firewall_ban_failed''
       (error_message (ipv4 10 0 0 9) ''failed to execute ipset'')) None])"
proof -
  have now: "os_now failing_os (hist drained_machine) = 0"
    by (simp add: failing_os_def quiet_os_def)
  have "os_now failing_os (hist drained_machine)
      + from_secs (ban_timeout (srv_config (srv drained_machine))) \<le> instant_max"
    unfolding now by (simp add: drained_machine_def example_machine_simps instant_max_def)
  moreover have "log_works failing_os drained_machine"
    by (simp add: log_works_def failing_os_def quiet_os_def drained_machine_def example_server_def server_of_def)
  moreover have "fst (decide (packet_of (ipv4 10 0 0 9, 5000) Udp (Some 40103) 1)
      (os_now failing_os (hist drained_machine)) (srv drained_machine)) = Banning"
    using drained_decide by (simp add: now)
  moreover have "os_exec failing_os h p a = Inl (IoError OtherKind ''No such file or directory (os error 2)'')" for h p a
    by (simp add: failing_os_def)
  ultimately have "fst (process_packet failing_os (system_run_status failing_os) (ipv4 10 0 0 9, 5000) Udp (Some 40103) 1
        drained_machine) = Inr ()
    \<and> (\<exists>h t. hist (snd (process_packet failing_os (system_run_status failing_os) (ipv4 10 0 0 9, 5000) Udp
        (Some 40103) 1 drained_machine)) = h @ [UnixTime t, Audit (audit_line (case t of None \<Rightarrow> 0 | Some s \<Rightarrow> s)
        ''firewall_ban_failed'' (error_message (ipv4 10 0 0 9) ''failed to execute ipset'')) None])"
    using ban_failure_survived [of "(ipv4 10 0 0 9, 5000)" Udp "Some 40103" 1 failing_os drained_machine _
        "ban_ip_command (srv_firewall (srv drained_machine)) (ipv4 10 0 0 9)", OF _ _ _ refl _ refl]
    by (simp add: command_works_def failure_text_def) (auto simp: ban_ip_command_def)
  then show ?thesis by (metis append.assoc append_Cons append_Nil)
qed

text \<open>
  In contrast, when the allow command fails for an accepted source, the error is returned to
  the poll loop.
\<close>

theorem allow_failure_fatal:
  "decide (packet_of addr proto port n) (os_now os (hist m)) (srv m) = (Outcome Accepted, s) \<Longrightarrow>
    \<not> packet_telemetry_enabled s \<Longrightarrow> log_works os m \<Longrightarrow>
    (\<And>h out. os_exec os h ''ipset'' (args (add_ip_command (srv_firewall s) (fst addr))) = Inr out
      \<Longrightarrow> \<not> out_success out) \<Longrightarrow>
    \<exists>e. fst (process_packet os (system_run_status os) addr proto port n m) = Inl (Err e)"
  by (rule accepted_failing)

definition knocking_machine :: machine where
  "knocking_machine = \<lparr> hist = [], srv = example_server\<lparr>srv_tracker := (srv_tracker example_server)
     \<lparr>states := hm_insert (ipv4 10 0 0 9) \<lparr> next_step = 2, first_seen = 0, last_seen = 0 \<rparr> hm_empty\<rparr>\<rparr> \<rparr>"

lemma knocking_decide:
  "decide (packet_of (ipv4 10 0 0 9, 5000) Udp (Some 40103) 96) 0 (srv knocking_machine)
     = (Outcome Accepted, example_server)"
  by (simp add: knocking_machine_def example_machine_simps decide_def is_source_banned_def Let_def
      expire_banned_sources_def track_def process_def packet_of_def expire_def live_def matches_step_def
      step_matches_def remove_source_def over_limit_def hm_defs duration_since_def)

theorem allow_failure_fatal_witness:
  "\<exists>e. fst (process_packet failing_os (system_run_status failing_os) (ipv4 10 0 0 9, 5000) Udp (Some 40103) 96
     knocking_machine) = Inl (Err e)"
proof (rule allow_failure_fatal)
  show "decide (packet_of (ipv4 10 0 0 9, 5000) Udp (Some 40103) 96) (os_now failing_os (hist knocking_machine))
      (srv knocking_machine) = (Outcome Accepted, example_server)"
    using knocking_decide by (simp add: failing_os_def quiet_os_def)
  show "\<not> packet_telemetry_enabled example_server"
    by (simp add: packet_telemetry_enabled_def eq_ignore_ascii_case_def to_ascii_lowercase_def example_machine_simps)
  show "log_works failing_os knocking_machine"
    by (simp add: log_works_def failing_os_def quiet_os_def knocking_machine_def example_server_def server_of_def)
qed (simp add: failing_os_def)

text \<open>
  \<open>ban_timeout\<close> has no upper bound. With its largest value the configuration is valid and
  the firewall is built, but the first source to be banned makes the server panic, because the
  end of the ban is not representable as an \<open>Instant\<close>.
\<close>

theorem unbounded_ban_timeout_panics:
  "validate (example_config\<lparr>ban_timeout := - 1\<rparr>) = Inr ()
    \<and> remember_banned_source (server_of (example_config\<lparr>ban_timeout := - 1\<rparr>) fw lg) ip now
        = Inl (Panic ''overflow when adding duration to instant'')"
proof
  show "validate (example_config\<lparr>ban_timeout := - 1\<rparr>) = Inr ()"
    by (simp add: validate_def example_config_simps validate_ipset_name_def ipset_char_def
        is_ascii_alphanumeric_def)
  show "remember_banned_source (server_of (example_config\<lparr>ban_timeout := - 1\<rparr>) fw lg) ip now
        = Inl (Panic ''overflow when adding duration to instant'')"
    by (simp add: remember_banned_source_def Let_def instant_checked_add_def instant_max_def
        server_of_def expire_banned_sources_def hm_defs from_secs_def nanos_per_sec_def
        unat_minus_one_word example_config_simps)
qed

text \<open>
  At log levels other than debug and trace, a packet that neither completes a knock nor
  exceeds the limit leaves no trace outside: only the clock is read.
\<close>

theorem ordinary_packet_silent:
  "decide (packet_of addr proto port n) (os_now os (hist m)) (srv m) = (Outcome oc, s) \<Longrightarrow>
    oc \<noteq> Accepted \<Longrightarrow> \<not> packet_telemetry_enabled s \<Longrightarrow>
    process_packet os runner addr proto port n m =
      (Inr (), m\<lparr>hist := hist m @ [ClockRead (os_now os (hist m))], srv := s\<rparr>)"
  by (simp add: process_packet_eq Let_def log_packet_telemetry_def bind_io_def with_srv_def
      telemetry_allow_def ret_def)

lemma example_decide:
  "\<exists>s. decide (packet_of (ipv4 10 0 0 9, 5000) Udp (Some 40101) 64) 0 example_server = (Outcome (Progress 1), s)
     \<and> \<not> packet_telemetry_enabled s"
  by (simp add: example_machine_simps decide_def is_source_banned_def Let_def
      expire_banned_sources_def track_def process_def packet_of_def expire_def matches_step_def
      step_matches_def start_partial_state_def over_limit_def hm_defs packet_telemetry_enabled_def
      eq_ignore_ascii_case_def to_ascii_lowercase_def)

theorem ordinary_packet_silent_witness:
  "hist (snd (process_packet quiet_os (system_run_status quiet_os) (ipv4 10 0 0 9, 5000) Udp (Some 40101) 64
     example_machine)) = [ClockRead 0]"
proof -
  obtain s where s: "decide (packet_of (ipv4 10 0 0 9, 5000) Udp (Some 40101) 64) 0 example_server
      = (Outcome (Progress 1), s)" "\<not> packet_telemetry_enabled s" using example_decide by blast
  have "os_now quiet_os (hist example_machine) = 0" by (simp add: quiet_os_def)
  then show ?thesis
    using ordinary_packet_silent [of "(ipv4 10 0 0 9, 5000)" Udp "Some 40101" 64 quiet_os example_machine
        "Progress 1" s] s by (simp add: example_machine_def)
qed

text \<open>
  The events and messages a packet of a source may cause in the audit log: the address, a class
  of outcome, a configured timeout, or the text of the failure of the command that was run for
  the address, which has the command line, the exit status and what the command printed.
\<close>

inductive packet_message :: "os \<Rightarrow> server \<Rightarrow> ip_addr \<Rightarrow> string \<Rightarrow> string \<Rightarrow> bool" for os s ip where
  seen: "packet_message os s ip ''packet_seen'' (''source_ip='' @ ip_to_string ip @ '' observed=true'')"
| outcome: "class \<in> {''accepted'', ''progress'', ''rejected'', ''oversized''} \<Longrightarrow>
    packet_message os s ip ''knock_outcome'' (''source_ip='' @ ip_to_string ip @ '' outcome='' @ class)"
| banned: "packet_message os s ip ''rate_limit_ban'' (ban_message s ip)"
| allowed: "packet_message os s ip ''ssh_allow'' (allow_message s ip)"
| ban_failed: "\<not> command_works r \<Longrightarrow> packet_message os s ip ''firewall_ban_failed''
    (error_message ip (failure_text os (ban_ip_command (srv_firewall s) ip) r))"
| allow_failed: "\<not> command_works r \<Longrightarrow> packet_message os s ip ''firewall_allow_failed''
    (error_message ip (failure_text os (add_ip_command (srv_firewall s) ip) r))"

lemma redacted_class: "redacted_outcome oc \<in> {''accepted'', ''progress'', ''rejected'', ''oversized''}"
  by (cases oc) simp_all

definition redacted_event :: "os \<Rightarrow> server \<Rightarrow> ip_addr \<Rightarrow> event \<Rightarrow> bool" where
  "redacted_event os s ip e = (\<forall>l r. e = Audit l r \<longrightarrow> (\<exists>ts ev msg. l = audit_line ts ev msg \<and> packet_message os s ip ev msg))"

lemma emits_redacted_log:
  "packet_message os' s ip ev msg \<Longrightarrow> emits (redacted_event os' s ip) (server_log os ev msg)"
  by (rule emits_server_log) (auto simp: logs_def redacted_event_def, blast)

lemma emits_redacted_run: "emits (redacted_event os' s ip) (attempt (run (system_run_status os) c))"
  by (rule emits_attempt, rule emits_mono [OF sys.emits_run]) (auto simp: redacted_event_def)

lemma emits_redacted_telemetry: "emits (redacted_event os' s ip) (log_packet_telemetry os ip oc now)"
  by (rule emits_mono [OF emits_telemetry])
    (use packet_message.seen packet_message.outcome [OF redacted_class] in
      \<open>fastforce simp: telemetry_event_def logs_def redacted_event_def\<close>)

lemma attempt_run_error:
  "attempt (run (system_run_status os) c) m = (Inr (Inl err), m') \<Longrightarrow> \<exists>r. \<not> command_works r \<and> err = failure_text os c r"
  by (auto simp: attempt_def run_answer Let_def split: if_splits)

lemma emits_guard: "emits P m \<Longrightarrow> emits P (if b then m else ret ())"
  by (simp add: emits_leaf)

lemma emits_redacted: "emits (redacted_event os s ip) (react os (system_run_status os) s ip now v)"
proof (cases v)
  case Dropped
  then show ?thesis by (simp add: emits_leaf)
next
  case Banning
  have "emits (redacted_event os s ip) (case x of
      Inr _ \<Rightarrow> server_log os ''rate_limit_ban'' (''source_ip='' @ ip_to_string ip
        @ '' ban_timeout_seconds='' @ dec (unat (ban_timeout (srv_config s))))
    | Inl e \<Rightarrow> server_log os ''firewall_ban_failed'' (''source_ip='' @ ip_to_string ip @ '' error='' @ e))"
    if "attempt (run (system_run_status os) (ban_ip_command (srv_firewall s) ip)) m = (Inr x, m')" for x and m m' :: machine
    using attempt_run_error [of os "ban_ip_command (srv_firewall s) ip" m _ m'] that packet_message.ban_failed
      packet_message.banned [of os s ip]
    by (cases x) (auto simp: error_message_def ban_message_def intro!: emits_redacted_log)
  then show ?thesis
    unfolding Banning react.simps ban_ip_def
    by (intro emits_bind emits_with_srv emits_bind_value [OF emits_redacted_run]) blast+
next
  case (Outcome oc)
  have allow: "emits (redacted_event os s ip) (case x of
      Inl e \<Rightarrow> bind_io (server_log os ''firewall_allow_failed'' (''source_ip='' @ ip_to_string ip @ '' error='' @ e))
        (\<lambda>_. throw (Err e))
    | Inr _ \<Rightarrow> server_log os ''ssh_allow'' (''source_ip='' @ ip_to_string ip
        @ '' allow_timeout_seconds='' @ dec (unat (ip_timeout (srv_config s)))))"
    if "attempt (run (system_run_status os) (add_ip_command (srv_firewall s) ip)) m = (Inr x, m')" for x and m m' :: machine
    using attempt_run_error [of os "add_ip_command (srv_firewall s) ip" m _ m'] that packet_message.allow_failed
      packet_message.allowed [of os s ip]
    by (cases x) (auto simp: error_message_def allow_message_def intro!: emits_redacted_log emits_bind emits_leaf)
  then show ?thesis
    unfolding Outcome react.simps add_ip_def
    by (intro emits_bind [OF emits_redacted_telemetry] emits_guard)
      (rule emits_bind_value [OF emits_redacted_run], blast)
qed

lemma packet_message_core:
  "srv_config s = srv_config s' \<Longrightarrow> srv_firewall s = srv_firewall s' \<Longrightarrow>
    packet_message os s ip ev msg \<longleftrightarrow> packet_message os s' ip ev msg"
  by (simp add: packet_message.simps ban_message_def allow_message_def)

text \<open>
  C27: the audit lines that a packet causes never show its protocol, port, size or position in
  the sequence: whatever the packet and the state, each line is one of the fixed messages, made
  from the source address, a class of outcome, the configured timeouts and, where a command for
  this address failed, the text of that failure: the command line with the address, the exit
  status and the output of the command, or that it could not be executed.
\<close>

theorem packet_log_redacted:
  "Audit l res \<in> set (drop (length (hist m))
      (hist (snd (process_packet os (system_run_status os) addr proto port n m)))) \<Longrightarrow>
    \<exists>ts ev msg. l = audit_line ts ev msg \<and> packet_message os (srv m) (fst addr) ev msg"
proof -
  let ?now = "os_now os (hist m)"
  let ?d = "decide (packet_of addr proto port n) ?now (srv m)"
  let ?m = "m\<lparr>hist := hist m @ [ClockRead ?now], srv := snd ?d\<rparr>"
  assume "Audit l res \<in> set (drop (length (hist m))
      (hist (snd (process_packet os (system_run_status os) addr proto port n m))))"
  moreover obtain es where "hist (snd (react os (system_run_status os) (snd ?d) (fst addr) ?now (fst ?d) ?m)) = hist ?m @ es"
    "list_all (redacted_event os (snd ?d) (fst addr)) es"
    using emits_redacted unfolding emits_def by blast
  ultimately have "redacted_event os (snd ?d) (fst addr) (Audit l res)"
    by (auto simp: process_packet_eq Let_def list_all_iff)
  then show ?thesis
    by (auto simp: redacted_event_def packet_message_core [of "snd ?d" "srv m"])
qed

lemma server_log_line:
  "log_works os m \<Longrightarrow> \<exists>l r. Audit l r \<in> set (hist (snd (server_log os ev msg m)))"
  by (auto simp: log_works_def server_log_def log_def bind_io_def gets_def unix_time_def write_audit_def
      call_def none_or_fail_def ret_def Let_def)

lemma knocking_accepted:
  "\<exists>m. process_packet quiet_os (system_run_status quiet_os) (ipv4 10 0 0 9, 5000) Udp (Some 40103) 96
     knocking_machine = server_log quiet_os ''ssh_allow'' (allow_message example_server (ipv4 10 0 0 9)) m
     \<and> log_works quiet_os m"
proof -
  let ?m1 = "knocking_machine\<lparr>hist := hist knocking_machine @ [ClockRead 0], srv := example_server\<rparr>"
  let ?m2 = "snd (run (system_run_status quiet_os) (add_ip_command (srv_firewall example_server) (ipv4 10 0 0 9)) ?m1)"
  have now: "os_now quiet_os h = 0" for h by (simp add: quiet_os_def)
  have tele: "log_packet_telemetry quiet_os ip Accepted 0 ?m1 = (Inr (), ?m1)" for ip
    by (simp add: log_packet_telemetry_def bind_with_srv telemetry_allow_def ret_def
        packet_telemetry_enabled_def eq_ignore_ascii_case_def to_ascii_lowercase_def)
      (simp add: example_machine_simps)
  have "process_packet quiet_os (system_run_status quiet_os) (ipv4 10 0 0 9, 5000) Udp (Some 40103) 96
      knocking_machine = server_log quiet_os ''ssh_allow'' (allow_message example_server (ipv4 10 0 0 9)) ?m2"
    using knocking_decide tele
    by (simp add: process_packet_eq Let_def now bind_io_def add_ip_def attempt_def quiet_run allow_message_def)
  moreover have "log_works quiet_os ?m2"
    by (rule run_keeps_log) (simp add: log_works_def quiet_os_def example_server_def server_of_def)
  ultimately show ?thesis by blast
qed

theorem packet_log_redacted_witness:
  "\<exists>l ts ev msg. l = audit_line ts ev msg \<and> packet_message quiet_os (srv knocking_machine) (ipv4 10 0 0 9) ev msg
     \<and> (\<exists>r. Audit l r \<in> set (hist (snd (process_packet quiet_os (system_run_status quiet_os)
          (ipv4 10 0 0 9, 5000) Udp (Some 40103) 96 knocking_machine))))"
proof -
  let ?m' = "snd (process_packet quiet_os (system_run_status quiet_os)
          (ipv4 10 0 0 9, 5000) Udp (Some 40103) 96 knocking_machine)"
  obtain l r where a: "Audit l r \<in> set (hist ?m')"
    using knocking_accepted server_log_line by metis
  have "Audit l r \<in> set (drop (length (hist knocking_machine)) (hist ?m'))"
    using a by (simp add: knocking_machine_def)
  from packet_log_redacted [OF this] a show ?thesis by auto
qed

end
