(* ===== verification/Poll.thy ===== *)
theory Poll
  imports ServerRuns
begin

text \<open>
  \<open>Server::run\<close> of \<open>src/server.rs\<close>: start-up, the listeners, and the poll loop with its table
  of TCP connections that have not sent their payload yet.
\<close>

section \<open>Sockets\<close>

definition open_socket :: "os \<Rightarrow> socket \<Rightarrow> string \<Rightarrow> ('z world_scheme, io_error option) io" where
  "open_socket os sock addr = call (\<lambda>h. os_socket os h sock addr) (Open sock addr)"

definition set_nonblocking :: "os \<Rightarrow> socket \<Rightarrow> ('z world_scheme, io_error option) io" where
  "set_nonblocking os sock = call (\<lambda>h. os_nonblocking os h sock) (SetNonblocking sock)"

definition bind_icmp_socket :: "os \<Rightarrow> address_family \<Rightarrow> ('z world_scheme, unit) io" where
  "bind_icmp_socket os family =
     bind_io (open_socket os (IcmpSocket (family = Ipv6)) []) (\<lambda>r.
     bind_io (none_or_fail ''failed to create ICMP datagram socket'' r) (\<lambda>_.
     bind_io (set_nonblocking os (IcmpSocket (family = Ipv6)))
       (none_or_fail ''failed to configure ICMP raw socket'')))"

text \<open>The loop over the sequence that binds each protocol and port once.\<close>

fun bind_listeners ::
  "os \<Rightarrow> config \<Rightarrow> knock_step list \<Rightarrow> u16 list \<Rightarrow> u16 list \<Rightarrow> bool
    \<Rightarrow> (machine, u16 list \<times> u16 list \<times> bool) io" where
  "bind_listeners os c [] udp tcp icmp = ret (udp, tcp, icmp)"
| "bind_listeners os c (step # steps) udp tcp icmp =
     (case step_protocol step of
        Udp \<Rightarrow>
          bind_io (of_result (context_opt (step_port step) ''validated udp step has port'')) (\<lambda>port.
          if List.member udp port then bind_listeners os c steps udp tcp icmp
          else
            bind_io (open_socket os (UdpSocket port) (listen c)) (\<lambda>r.
            bind_io (none_or_fail (''failed to bind UDP knock port '' @ dec (unat port)) r) (\<lambda>_.
            bind_io (set_nonblocking os (UdpSocket port)) (\<lambda>r.
            bind_io (none_or_fail ''failed to configure UDP socket'' r) (\<lambda>_.
            bind_io (server_log os ''bind_udp'' ''status=bound'') (\<lambda>_.
              bind_listeners os c steps (udp @ [port]) tcp icmp))))))
      | Tcp \<Rightarrow>
          bind_io (of_result (context_opt (step_port step) ''validated tcp step has port'')) (\<lambda>port.
          if List.member tcp port then bind_listeners os c steps udp tcp icmp
          else
            bind_io (open_socket os (TcpListener port) (listen c)) (\<lambda>r.
            bind_io (none_or_fail (''failed to bind TCP knock port '' @ dec (unat port)) r) (\<lambda>_.
            bind_io (set_nonblocking os (TcpListener port)) (\<lambda>r.
            bind_io (none_or_fail ''failed to configure TCP listener'' r) (\<lambda>_.
            bind_io (server_log os ''bind_tcp'' ''status=bound'') (\<lambda>_.
              bind_listeners os c steps udp (tcp @ [port]) icmp))))))
      | Icmp \<Rightarrow>
          if icmp then bind_listeners os c steps udp tcp icmp
          else
            bind_io (bind_icmp_socket os (address_family c)) (\<lambda>_.
            bind_io (server_log os ''bind_icmp'' ''enabled'') (\<lambda>_.
              bind_listeners os c steps udp tcp True)))"

section \<open>One round of the loop\<close>

record pending_tcp =
  pt_port :: u16
  pt_stream :: nat
  pt_addr :: socket_addr
  pt_deadline :: instant

definition icmp_header_len :: nat where
  "icmp_header_len = 8"

definition buffer_len :: "config \<Rightarrow> usize" where
  "buffer_len c = saturating_add (max_payload_size c) 1"

definition icmp_buffer_len :: "config \<Rightarrow> usize" where
  "icmp_buffer_len c = saturating_add (max_payload_size c) (of_nat (icmp_header_len + 1))"

text \<open>
  A receive into a buffer delivers at most the buffer's length: a longer datagram is cut.
\<close>

definition delivered :: "nat \<Rightarrow> usize \<Rightarrow> usize" where
  "delivered n buf = of_nat (min n (unat buf))"

fun poll_udp :: "os \<Rightarrow> machine runner \<Rightarrow> config \<Rightarrow> u16 list \<Rightarrow> (machine, unit) io" where
  "poll_udp os runner c [] = ret ()"
| "poll_udp os runner c (port # ports) =
     bind_io (call (\<lambda>h. os_recv_udp os h port) (RecvUdp port)) (\<lambda>r.
     case r of
       Inr (n, addr) \<Rightarrow>
         bind_io (process_packet os runner addr Udp (Some port) (delivered n (buffer_len c))) (\<lambda>_.
           poll_udp os runner c ports)
     | Inl e \<Rightarrow>
         if error_kind_of e = WouldBlock then poll_udp os runner c ports
         else throw (Err (error_text e)))"

text \<open>The inner accept loop runs until the listener has no connection or the table is full.\<close>

lemma bind_io_cong [fundef_cong]:
  "m = m' \<Longrightarrow> (\<And>x. f x = g x) \<Longrightarrow> bind_io m f = bind_io m' g"
  by (auto simp: bind_io_def fun_eq_iff split: prod.splits sum.splits)

function accept_all ::
  "os \<Rightarrow> instant \<Rightarrow> duration \<Rightarrow> nat \<Rightarrow> u16 \<Rightarrow> pending_tcp list \<Rightarrow> (machine, pending_tcp list) io" where
  "accept_all os now timeout max_pending port pending =
     (if length pending \<ge> max_pending then ret pending
      else
        bind_io (call (\<lambda>h. os_accept os h port) (AcceptTcp port)) (\<lambda>r.
        case r of
          Inr (stream, addr) \<Rightarrow>
            bind_io (set_nonblocking os (TcpStream stream)) (\<lambda>r.
            bind_io (none_or_fail ''failed to configure accepted TCP stream'' r) (\<lambda>_.
            case instant_checked_add now timeout of
              None \<Rightarrow> throw (Panic ''overflow when adding duration to instant'')
            | Some deadline \<Rightarrow>
                accept_all os now timeout max_pending port
                  (pending @ [\<lparr> pt_port = port, pt_stream = stream, pt_addr = addr, pt_deadline = deadline \<rparr>])))
        | Inl e \<Rightarrow>
            if error_kind_of e = WouldBlock then ret pending else throw (Err (error_text e))))"
  by pat_completeness auto
termination
  by (relation "measure (\<lambda>(os, now, timeout, max_pending, port, pending). max_pending - length pending)") auto

declare accept_all.simps [simp del]

fun accept_ports ::
  "os \<Rightarrow> instant \<Rightarrow> duration \<Rightarrow> nat \<Rightarrow> u16 list \<Rightarrow> pending_tcp list \<Rightarrow> (machine, pending_tcp list) io" where
  "accept_ports os now timeout max_pending [] pending = ret pending"
| "accept_ports os now timeout max_pending (port # ports) pending =
     bind_io (accept_all os now timeout max_pending port pending)
       (accept_ports os now timeout max_pending ports)"

text \<open>\<open>read_tcp_knock\<close>: one non-blocking read; \<open>None\<close> when no data has arrived.\<close>

definition read_tcp_knock :: "os \<Rightarrow> nat \<Rightarrow> usize \<Rightarrow> ('z world_scheme, usize option) io" where
  "read_tcp_knock os stream buf =
     bind_io (call (\<lambda>h. os_read_tcp os h stream) (ReadTcp stream)) (\<lambda>r.
     case r of
       Inr n \<Rightarrow> ret (Some (delivered n buf))
     | Inl e \<Rightarrow>
         if error_kind_of e = WouldBlock \<or> error_kind_of e = TimedOut then ret None
         else throw (Err (error_text e)))"

text \<open>\<open>Vec::swap_remove\<close> at a valid index.\<close>

definition swap_remove :: "'a list \<Rightarrow> nat \<Rightarrow> 'a list" where
  "swap_remove xs i =
     (if Suc i = length xs then butlast xs else (butlast xs)[i := last xs])"

lemma length_swap_remove [simp]: "length (swap_remove xs i) = length xs - 1"
  by (simp add: swap_remove_def)

function read_pending ::
  "os \<Rightarrow> machine runner \<Rightarrow> config \<Rightarrow> instant \<Rightarrow> nat \<Rightarrow> pending_tcp list \<Rightarrow> (machine, pending_tcp list) io" where
  "read_pending os runner c now index pending =
     (if index < length pending then
        bind_io (read_tcp_knock os (pt_stream (pending ! index)) (buffer_len c)) (\<lambda>r.
        case r of
          Some n \<Rightarrow>
            bind_io (process_packet os runner (pt_addr (pending ! index)) Tcp
              (Some (pt_port (pending ! index))) n) (\<lambda>_.
              read_pending os runner c now index (swap_remove pending index))
        | None \<Rightarrow>
            if now \<ge> pt_deadline (pending ! index)
            then read_pending os runner c now index (swap_remove pending index)
            else read_pending os runner c now (index + 1) pending)
      else ret pending)"
  by pat_completeness auto
termination
  by (relation "measure (\<lambda>(os, runner, c, now, index, pending). length pending - index)") auto

declare read_pending.simps [simp del]

definition poll_icmp :: "os \<Rightarrow> machine runner \<Rightarrow> config \<Rightarrow> bool \<Rightarrow> (machine, unit) io" where
  "poll_icmp os runner c icmp =
     (if \<not> icmp then ret ()
      else
        bind_io (call (os_recv_icmp os) RecvIcmp) (\<lambda>r.
        case r of
          Inr (n, addr) \<Rightarrow>
            bind_io (of_result (context_opt addr ''failed to read ICMP source address'')) (\<lambda>addr.
              process_packet os runner addr Icmp None
                (of_nat (unat (delivered n (icmp_buffer_len c)) - icmp_header_len)))
        | Inl e \<Rightarrow> if error_kind_of e = WouldBlock then ret () else throw (Err (error_text e))))"

definition sleep :: "duration \<Rightarrow> ('z world_scheme, unit) io" where
  "sleep d = call (\<lambda>_. ()) (\<lambda>_. Sleep d)"

definition poll_once ::
  "os \<Rightarrow> machine runner \<Rightarrow> config \<Rightarrow> u16 list \<times> u16 list \<times> bool \<Rightarrow> pending_tcp list
    \<Rightarrow> (machine, pending_tcp list) io" where
  "poll_once os runner c listeners pending =
     (case listeners of (udp, tcp, icmp) \<Rightarrow>
      bind_io (poll_udp os runner c udp) (\<lambda>_.
      bind_io (instant_now os) (\<lambda>now.
      bind_io (accept_ports os now (from_secs (partial_state_timeout c))
        (unat (max_partial_states c)) tcp pending) (\<lambda>pending.
      bind_io (read_pending os runner c now 0 pending) (\<lambda>pending.
      bind_io (poll_icmp os runner c icmp) (\<lambda>_.
      bind_io (sleep 10000000) (\<lambda>_. ret pending)))))))"

text \<open>The endless loop: it returns only with a failure, and \<open>None\<close> is running for ever.\<close>

partial_function (option) poll_loop ::
  "os \<Rightarrow> machine runner \<Rightarrow> config \<Rightarrow> u16 list \<times> u16 list \<times> bool \<Rightarrow> pending_tcp list \<Rightarrow> machine
    \<Rightarrow> (failure \<times> machine) option" where
  "poll_loop os runner c listeners pending m =
     (case poll_once os runner c listeners pending m of
        (Inl e, m') \<Rightarrow> Some (e, m')
      | (Inr pending', m') \<Rightarrow> poll_loop os runner c listeners pending' m')"

section \<open>Start-up\<close>

text \<open>\<open>vec![x; n]\<close> panics when the size exceeds \<open>isize::MAX\<close>.\<close>

definition alloc_bytes :: "usize \<Rightarrow> ('s, unit) io" where
  "alloc_bytes n = (if unat n < 2 ^ 63 then ret () else throw (Panic ''capacity overflow''))"

definition server_start ::
  "os \<Rightarrow> machine runner \<Rightarrow> (machine, u16 list \<times> u16 list \<times> bool) io" where
  "server_start os runner =
     bind_io (server_log os ''daemon_start'' ''sshknockd starting'') (\<lambda>_.
     bind_io (gets srv) (\<lambda>s.
     bind_io (attempt (preflight (srv_firewall s) runner)) (\<lambda>r.
     case r of
       Inl e \<Rightarrow>
         bind_io (server_log os ''firewall_preflight_failed'' (''error='' @ e)) (\<lambda>_. throw (Err e))
     | Inr _ \<Rightarrow>
         bind_io (server_log os ''firewall_preflight'' ''completed'') (\<lambda>_.
         bind_io (bind_listeners os (srv_config s) (sequence (knock (srv_config s))) [] [] False) (\<lambda>ls.
         bind_io (alloc_bytes (buffer_len (srv_config s))) (\<lambda>_.
         bind_io (alloc_bytes (icmp_buffer_len (srv_config s))) (\<lambda>_.
           ret ls)))))))"

definition server_run :: "os \<Rightarrow> machine runner \<Rightarrow> machine \<Rightarrow> (failure \<times> machine) option" where
  "server_run os runner m =
     (case server_start os runner m of
        (Inl e, m') \<Rightarrow> Some (e, m')
      | (Inr ls, m') \<Rightarrow> poll_loop os runner (srv_config (srv m')) ls [] m')"

end
