(* ===== verification/PollSpec.thy ===== *)
theory PollSpec
  imports Poll
begin

text \<open>
  The poll loop. Its table of pending TCP connections stays bounded and holds no connection
  past its deadline after a round; and every command that puts an address into the allow set
  is backed by the packets that the transcript says were received.
\<close>

section \<open>The packets of a transcript\<close>

definition is_clock :: "event \<Rightarrow> bool" where
  "is_clock e = (case e of ClockRead t \<Rightarrow> True | _ \<Rightarrow> False)"

definition is_receive :: "event \<Rightarrow> bool" where
  "is_receive e = (case e of RecvUdp p (Inr x) \<Rightarrow> True | ReadTcp s (Inr n) \<Rightarrow> True
     | RecvIcmp (Inr x) \<Rightarrow> True | _ \<Rightarrow> False)"

definition icmp_payload :: "config \<Rightarrow> nat \<Rightarrow> usize" where
  "icmp_payload c k = of_nat (unat (delivered k (icmp_buffer_len c)) - icmp_header_len)"

text \<open>
  The packet that the last event of a transcript delivers. The address of a TCP payload is
  the peer of an earlier accept of the same stream.
\<close>

fun receives :: "config \<Rightarrow> transcript \<Rightarrow> datagram \<Rightarrow> bool" where
  "receives c h (addr, proto, port, n) = (h \<noteq> [] \<and> (case last h of
       RecvUdp p (Inr (k, a)) \<Rightarrow>
         proto = Udp \<and> port = Some p \<and> a = addr \<and> n = delivered k (buffer_len c)
     | ReadTcp s (Inr k) \<Rightarrow> proto = Tcp \<and> n = delivered k (buffer_len c)
         \<and> (case port of None \<Rightarrow> False | Some p \<Rightarrow> AcceptTcp p (Inr (s, addr)) \<in> set h)
     | RecvIcmp (Inr (k, Some a)) \<Rightarrow>
         proto = Icmp \<and> port = None \<and> a = addr \<and> n = icmp_payload c k
     | _ \<Rightarrow> False))"

text \<open>
  The packets that a transcript records, with the clock reading each was handled at: those
  whose receive is directly followed by a reading of the clock, and no others.
\<close>

inductive recorded :: "config \<Rightarrow> transcript \<Rightarrow> arrival list \<Rightarrow> bool" for c where
  start: "recorded c [] []"
| packet: "recorded c h tr \<Longrightarrow> receives c h d \<Longrightarrow>
    recorded c (h @ [ClockRead now]) (tr @ [(packet_in d, now)])"
| other: "recorded c h tr \<Longrightarrow> \<not> (is_clock e \<and> h \<noteq> [] \<and> is_receive (last h)) \<Longrightarrow>
    recorded c (h @ [e]) tr"

inductive_cases recorded_snocE: "recorded c (h @ [e]) tr"

lemma recorded_quiet: "recorded c h tr \<Longrightarrow> list_all (\<lambda>e. \<not> is_clock e) es \<Longrightarrow> recorded c (h @ es) tr"
proof (induction es rule: rev_induct)
  case (snoc e es)
  then show ?case using recorded.other [of c "h @ es" tr e] by simp
qed simp

lemma receives_is_receive: "receives c h d \<Longrightarrow> h \<noteq> [] \<and> is_receive (last h)"
  by (cases d) (auto simp: is_receive_def split: event.splits sum.splits)

text \<open>A clock reading right after a receive is the arrival of a packet.\<close>

lemma recorded_packetE:
  assumes "recorded c (h @ [ClockRead now]) tr" and "h \<noteq> []" and "is_receive (last h)"
  obtains tr' d where "tr = tr' @ [(packet_in d, now)]" and "recorded c h tr'" and "receives c h d"
  using assms by (elim recorded_snocE) (auto simp: is_clock_def)

section \<open>Allowed only after knocking\<close>

definition allow_of :: "firewall \<Rightarrow> event \<Rightarrow> bool" where
  "allow_of fw e = (case e of Exec p (a # b # rest) r \<Rightarrow> p = ''ipset'' \<and> a = ''add'' \<and> b = fw_ipset_name fw
     | _ \<Rightarrow> False)"

lemma allow_of_event: "allow_of (srv_firewall s) e \<longleftrightarrow> allow_event s e"
  by (auto simp: allow_of_def allow_event_def split: event.splits list.splits)

definition knock_backed :: "config \<Rightarrow> firewall \<Rightarrow> transcript \<Rightarrow> event \<Rightarrow> bool" where
  "knock_backed c fw h e = (\<exists>ip tr. runs (add_ip_command fw ip) e \<and> recorded c h tr
     \<and> completes (sequence (knock c)) (from_secs (sequence_window c))
         (from_secs (partial_state_timeout c)) ip tr)"

definition backed :: "config \<Rightarrow> firewall \<Rightarrow> machine \<Rightarrow> bool" where
  "backed c fw m = guards (allow_of fw) (knock_backed c fw) (hist m)"

definition traced :: "os \<Rightarrow> config \<Rightarrow> firewall \<Rightarrow> machine \<Rightarrow> bool" where
  "traced os c fw m = (srv_firewall (srv m) = fw \<and> backed c fw m
     \<and> (\<exists>tr. between os c tr m \<and> recorded c (hist m) tr))"

definition settled :: "transcript \<Rightarrow> bool" where
  "settled h = (h = [] \<or> \<not> is_receive (last h))"

text \<open>Events that are neither packets nor commands of the allow set.\<close>

definition plain :: "firewall \<Rightarrow> event \<Rightarrow> bool" where
  "plain fw e = (\<not> is_clock e \<and> \<not> is_receive e \<and> \<not> allow_of fw e)"

lemma settled_append: "settled h \<Longrightarrow> list_all (\<lambda>e. \<not> is_receive e) es \<Longrightarrow> settled (h @ es)"
  by (cases es rule: rev_cases) (auto simp: settled_def)

lemma between_append:
  assumes "monotonic os" and "between os c tr m" and "srv m' = srv m" and "hist m' = hist m @ es"
  shows "between os c tr m'"
proof -
  have "os_now os (hist m) \<le> os_now os (hist m')"
    using assms(1,4) by (simp add: monotonic_def)
  with assms(2,3) show ?thesis unfolding between_def by (auto intro: order_trans)
qed

lemma traced_append:
  assumes "monotonic os" and "traced os c fw m" and "srv m' = srv m" and "hist m' = hist m @ es"
    and "list_all (\<lambda>e. \<not> is_clock e \<and> \<not> allow_of fw e) es"
  shows "traced os c fw m'"
proof -
  have "list_all (\<lambda>e. \<not> is_clock e) es" and "list_all (\<lambda>e. \<not> allow_of fw e) es"
    using assms(5) by (simp_all add: list_all_iff)
  then show ?thesis
    using assms(2-4) between_append [OF assms(1) _ assms(3,4)]
      recorded_quiet [of c "hist m" _ es] guards_append_none [of "allow_of fw" _ "hist m" es]
    by (auto simp: traced_def backed_def)
qed

lemma traced_clock:
  assumes "monotonic os" and "traced os c fw m" and "settled (hist m)"
    and "srv m' = srv m" and "hist m' = hist m @ [ClockRead t]"
  shows "traced os c fw m' \<and> settled (hist m')"
proof -
  have "recorded c (hist m') tr" if "recorded c (hist m) tr" for tr
    using that assms(3,5) recorded.other [of c "hist m" tr "ClockRead t"] by (auto simp: settled_def)
  then show ?thesis
    using assms between_append [OF assms(1) _ assms(4,5)]
    by (auto simp: traced_def backed_def guards_snoc allow_of_def settled_def is_receive_def)
qed

lemma reaction_not_clock: "reaction_event s ip v e \<Longrightarrow> \<not> is_clock e \<and> \<not> is_receive e"
  by (auto simp: reaction_event_def runs_def telemetry_event_def logs_def is_clock_def is_receive_def
      split: verdict.splits event.splits)

lemma backed_reaction:
  assumes "list_all (reaction_event s ip v) es" and "recorded c h tr"
    and "guards (allow_of fw) (knock_backed c fw) h" and "srv_firewall s = fw"
    and "fw_ipset_name fw \<noteq> fw_ban_ipset_name fw"
    and "v = Outcome Accepted \<longrightarrow> completes (sequence (knock c)) (from_secs (sequence_window c))
         (from_secs (partial_state_timeout c)) ip tr"
  shows "guards (allow_of fw) (knock_backed c fw) (h @ es)"
  using assms(1)
proof (induction es rule: rev_induct)
  case Nil
  then show ?case using assms(3) by simp
next
  case (snoc e es)
  have r: "list_all (reaction_event s ip v) es" "reaction_event s ip v e" using snoc.prems by simp_all
  have "recorded c (h @ es) tr"
    by (rule recorded_quiet [OF assms(2)]) (use r(1) reaction_not_clock in \<open>auto simp: list_all_iff\<close>)
  moreover have "v = Outcome Accepted \<and> runs (add_ip_command fw ip) e" if "allow_of fw e"
    using reaction_allow [OF r(2)] that assms(4,5) allow_of_event [of s e] by simp
  ultimately have "allow_of fw e \<longrightarrow> knock_backed c fw (h @ es) e"
    using assms(6) by (auto simp: knock_backed_def)
  with snoc.IH [OF r(1)] guards_snoc [of "allow_of fw" "knock_backed c fw" "h @ es" e] show ?case by simp
qed

context machine_runner begin

lemma process_traced:
  assumes mono: "monotonic os" and len: "2 \<le> length (sequence (knock c))"
    and names: "fw_ipset_name fw \<noteq> fw_ban_ipset_name fw"
    and tr: "traced os c fw m" and rcv: "receives c (hist m) d"
  shows "traced os c fw (snd (process_datagram os run_status d m))"
    and "settled (hist (snd (process_datagram os run_status d m)))"
proof -
  let ?now = "os_now os (hist m)"
  obtain r m' where step: "process_datagram os run_status d m = (r, m')"
    by (cases "process_datagram os run_status d m")
  from tr obtain tr0 where bt: "between os c tr0 m" and rec: "recorded c (hist m) tr0"
    and bk: "guards (allow_of fw) (knock_backed c fw) (hist m)" and fw: "srv_firewall (srv m) = fw"
    by (auto simp: traced_def backed_def)
  note b = between_step [OF mono len bt step]
  let ?tr = "tr0 @ [(packet_in d, ?now)]" and ?h = "hist m @ [ClockRead ?now]"
  obtain v es where es: "hist m' = hist m @ ClockRead ?now # es"
    "list_all (reaction_event (srv m) (source_ip (packet_in d)) v) es"
    "v = Outcome Accepted \<longrightarrow> completes (sequence (knock c)) (from_secs (sequence_window c))
         (from_secs (partial_state_timeout c)) (source_ip (packet_in d)) ?tr"
    using b(3) by blast
  have quiet: "list_all (\<lambda>e. \<not> is_clock e) es" "list_all (\<lambda>e. \<not> is_receive e) es"
    using es(2) reaction_not_clock by (auto simp: list_all_iff)
  have rec': "recorded c ?h ?tr" by (rule recorded.packet [OF rec rcv])
  have g: "guards (allow_of fw) (knock_backed c fw) ?h"
    using bk by (simp add: guards_snoc allow_of_def)
  have "guards (allow_of fw) (knock_backed c fw) (?h @ es)"
    by (rule backed_reaction [OF es(2) rec' g fw names es(3)])
  moreover have "recorded c (?h @ es) ?tr" by (rule recorded_quiet [OF rec' quiet(1)])
  ultimately have "traced os c fw m'"
    using b(1,2) fw es(1) by (auto simp: traced_def backed_def)
  then show "traced os c fw (snd (process_datagram os run_status d m))" by (simp add: step)
  have "settled ?h" by (simp add: settled_def is_receive_def)
  then have "settled (?h @ es)" using quiet(2) by (rule settled_append)
  then show "settled (hist (snd (process_datagram os run_status d m)))" by (simp add: step es(1))
qed

end

section \<open>The invariant of the loop\<close>

text \<open>Every pending connection was accepted, and the table has room for all of them.\<close>

definition pending_ok :: "config \<Rightarrow> transcript \<Rightarrow> pending_tcp list \<Rightarrow> bool" where
  "pending_ok c h ps = (length ps \<le> unat (max_partial_states c)
     \<and> (\<forall>p\<in>set ps. AcceptTcp (pt_port p) (Inr (pt_stream p, pt_addr p)) \<in> set h))"

definition loop_inv :: "os \<Rightarrow> config \<Rightarrow> firewall \<Rightarrow> pending_tcp list \<Rightarrow> machine \<Rightarrow> bool" where
  "loop_inv os c fw ps m = (traced os c fw m \<and> settled (hist m) \<and> pending_ok c (hist m) ps)"

lemma loop_inv_backed: "loop_inv os c fw ps m \<Longrightarrow> backed c fw m"
  by (simp add: loop_inv_def traced_def)

lemma pending_ok_append: "pending_ok c h ps \<Longrightarrow> pending_ok c (h @ es) ps"
  by (auto simp: pending_ok_def)

lemma set_swap_remove: "i < length ps \<Longrightarrow> set (swap_remove ps i) \<subseteq> set ps"
  by (cases ps rule: rev_cases)
    (auto simp: swap_remove_def dest!: set_update_subset_insert [THEN subsetD])

lemma pending_ok_swap_remove: "pending_ok c h ps \<Longrightarrow> i < length ps \<Longrightarrow> pending_ok c h (swap_remove ps i)"
  using set_swap_remove [of i ps] by (auto simp: pending_ok_def)

lemma upholds_plain:
  assumes "monotonic os" and "emits (plain fw) f" and "frame f"
  shows "upholds (loop_inv os c fw ps) f"
  unfolding upholds_def
proof (intro allI impI)
  fix m :: machine
  assume inv: "loop_inv os c fw ps m"
  let ?m = "snd (f m)"
  obtain es where es: "hist ?m = hist m @ es" "list_all (plain fw) es"
    using assms(2) unfolding emits_def by blast
  have srv: "srv ?m = srv m"
    using assms(3) srv_more unfolding frame_def by blast
  have "list_all (\<lambda>e. \<not> is_clock e \<and> \<not> allow_of fw e) es" and "list_all (\<lambda>e. \<not> is_receive e) es"
    using es(2) by (simp_all add: list_all_iff plain_def)
  with inv es srv assms(1) show "loop_inv os c fw ps ?m"
    using traced_append [OF assms(1) _ srv es(1)] settled_append [of "hist m" es] pending_ok_append
    by (auto simp: loop_inv_def)
qed

lemma upholds_clock:
  assumes "monotonic os"
  shows "upholds (loop_inv os c fw ps) (instant_now os)"
  unfolding upholds_def
proof (intro allI impI)
  fix m :: machine
  assume "loop_inv os c fw ps m"
  then show "loop_inv os c fw ps (snd (instant_now os m))"
    using traced_clock [OF assms, of c fw m "snd (instant_now os m)" "os_now os (hist m)"]
    by (auto simp: loop_inv_def instant_now_def call_def pending_ok_append)
qed

lemma event_kinds [simp]:
  "\<not> is_clock (RecvUdp p r)" "\<not> is_clock (ReadTcp s r')" "\<not> is_clock (RecvIcmp r'')"
  "\<not> is_clock (AcceptTcp p r)"
  "\<not> allow_of fw (RecvUdp p r)" "\<not> allow_of fw (ReadTcp s r')" "\<not> allow_of fw (RecvIcmp r'')"
  "\<not> allow_of fw (AcceptTcp p r)" "\<not> is_receive (AcceptTcp p r)"
  "is_receive (RecvUdp p r) \<longleftrightarrow> (\<exists>x. r = Inr x)" "is_receive (ReadTcp s r') \<longleftrightarrow> (\<exists>x. r' = Inr x)"
  "is_receive (RecvIcmp r'') \<longleftrightarrow> (\<exists>x. r'' = Inr x)"
  by (auto simp: is_clock_def allow_of_def is_receive_def split: sum.splits)

lemma plain_io: "plain fw (RecvUdp p (Inl e))" "plain fw (AcceptTcp p r)" "plain fw (ReadTcp s (Inl e))"
  "plain fw (RecvIcmp (Inl e))" "plain fw (SetNonblocking k r')" "plain fw (Open k a r'')" "plain fw (Sleep d)"
  by (simp_all add: plain_def is_clock_def is_receive_def allow_of_def)

text \<open>One more event: a receive may break \<open>settled\<close>, until its packet is processed.\<close>

lemma loop_inv_event:
  assumes "monotonic os" and "loop_inv os c fw ps m" and "\<not> is_clock e" and "\<not> allow_of fw e"
  shows "traced os c fw (m\<lparr>hist := hist m @ [e]\<rparr>)" and "pending_ok c (hist m @ [e]) ps"
    and "\<not> is_receive e \<Longrightarrow> loop_inv os c fw ps (m\<lparr>hist := hist m @ [e]\<rparr>)"
  using assms traced_append [OF assms(1), of c fw m "m\<lparr>hist := hist m @ [e]\<rparr>" "[e]"]
    pending_ok_append [of c "hist m" ps "[e]"] settled_append [of "hist m" "[e]"]
  by (simp_all add: loop_inv_def)

lemma triple_call:
  assumes "\<And>m. P m \<Longrightarrow> Q (ask (hist m)) (m\<lparr>hist := hist m @ [ev (ask (hist m))]\<rparr>)"
  shows "triple P (call ask ev) Q E"
  using assms by (simp add: triple_def call_def)

context machine_runner begin

lemma triple_process:
  assumes "monotonic os" and "2 \<le> length (sequence (knock c))"
    and "fw_ipset_name fw \<noteq> fw_ban_ipset_name fw"
  shows "triple (\<lambda>m. traced os c fw m \<and> pending_ok c (hist m) ps \<and> receives c (hist m) (addr, proto, port, n))
    (process_packet os run_status addr proto port n) (\<lambda>_. loop_inv os c fw ps) (backed c fw)"
proof -
  have inv: "loop_inv os c fw ps (snd (process_packet os run_status addr proto port n m))"
    if "traced os c fw m" "pending_ok c (hist m) ps" "receives c (hist m) (addr, proto, port, n)" for m
  proof -
    obtain es where "hist (snd (process_packet os run_status addr proto port n m)) = hist m @ es"
      using process_appends [of os "(addr, proto, port, n)" m] by auto
    then have "pending_ok c (hist (snd (process_packet os run_status addr proto port n m))) ps"
      using that(2) by (simp add: pending_ok_append)
    with process_traced [OF assms that(1,3)] show ?thesis by (simp add: loop_inv_def)
  qed
  show ?thesis
    by (rule triple_inv) (use inv in blast, rule loop_inv_backed)
qed

lemma triple_poll_udp:
  assumes "monotonic os" and "2 \<le> length (sequence (knock c))"
    and "fw_ipset_name fw \<noteq> fw_ban_ipset_name fw"
  shows "triple (loop_inv os c fw ps) (poll_udp os run_status c ports) (\<lambda>_. loop_inv os c fw ps) (backed c fw)"
proof (induction ports)
  case Nil
  then show ?case by (simp add: triple_ret)
next
  case (Cons port ports)
  let ?Q = "\<lambda>r m. case r of
      Inr (k, addr) \<Rightarrow> traced os c fw m \<and> pending_ok c (hist m) ps
        \<and> receives c (hist m) (addr, Udp, Some port, delivered k (buffer_len c))
    | Inl e \<Rightarrow> loop_inv os c fw ps m"
  have call: "triple (loop_inv os c fw ps) (call (\<lambda>h. os_recv_udp os h port) (RecvUdp port)) ?Q (backed c fw)"
    using loop_inv_event [OF assms(1)]
    by (intro triple_call) (auto split: sum.split)
  show ?case
    unfolding poll_udp.simps
  proof (rule triple_bind [OF call])
    fix r
    show "triple (?Q r) (case r of
        Inl e \<Rightarrow> if error_kind_of e = WouldBlock then poll_udp os run_status c ports
          else throw (Err (error_text e))
      | Inr (n, addr) \<Rightarrow> bind_io (process_packet os run_status addr Udp (Some port) (delivered n (buffer_len c)))
          (\<lambda>_. poll_udp os run_status c ports)) (\<lambda>_. loop_inv os c fw ps) (backed c fw)"
    proof (cases r)
      case (Inl e)
      then show ?thesis using Cons by (auto intro: triple_throw loop_inv_backed)
    next
      case (Inr x)
      obtain k addr where "x = (k, addr)" by (cases x)
      then show ?thesis using Inr triple_bind [OF triple_process [OF assms] Cons] by simp
    qed
  qed
qed

lemma triple_poll_icmp:
  assumes "monotonic os" and "2 \<le> length (sequence (knock c))"
    and "fw_ipset_name fw \<noteq> fw_ban_ipset_name fw"
  shows "triple (loop_inv os c fw ps) (poll_icmp os run_status c icmp) (\<lambda>_. loop_inv os c fw ps) (backed c fw)"
proof (cases icmp)
  case True
  let ?Q = "\<lambda>r m. case r of
      Inr (k, Some addr) \<Rightarrow> traced os c fw m \<and> pending_ok c (hist m) ps
        \<and> receives c (hist m) (addr, Icmp, None, icmp_payload c k)
    | Inr (k, None) \<Rightarrow> traced os c fw m
    | Inl e \<Rightarrow> loop_inv os c fw ps m"
  have call: "triple (loop_inv os c fw ps) (call (os_recv_icmp os) RecvIcmp) ?Q (backed c fw)"
    using loop_inv_event [OF assms(1)]
    by (intro triple_call) (auto split: sum.split option.split)
  have rest: "triple (?Q r) (case r of
      Inr (n, addr) \<Rightarrow> bind_io (of_result (context_opt addr ''failed to read ICMP source address'')) (\<lambda>addr.
        process_packet os run_status addr Icmp None (of_nat (unat (delivered n (icmp_buffer_len c)) - icmp_header_len)))
    | Inl e \<Rightarrow> if error_kind_of e = WouldBlock then ret () else throw (Err (error_text e)))
    (\<lambda>_. loop_inv os c fw ps) (backed c fw)" for r
  proof (cases r)
    case (Inl e)
    then show ?thesis by (auto intro!: triple_throw triple_ret dest: loop_inv_backed)
  next
    case (Inr x)
    obtain k a where x: "x = (k, a)" by (cases x)
    show ?thesis
    proof (cases a)
      case None
      then show ?thesis using Inr x
        by (simp add: of_result_def [abs_def] context_opt_def bind_io_def triple_def traced_def)
    next
      case (Some addr)
      then show ?thesis using Inr x triple_process [OF assms]
        by (simp add: icmp_payload_def [symmetric] flip: ret_def) (simp add: of_result_def flip: ret_def)
    qed
  qed
  show ?thesis using True triple_bind [OF call rest] by (simp add: poll_icmp_def)
qed (simp add: poll_icmp_def triple_ret)

end

text \<open>Accepting: the invariant does not depend on the deadlines.\<close>

definition accepted_conn :: "u16 \<Rightarrow> nat \<times> socket_addr \<Rightarrow> instant \<Rightarrow> pending_tcp" where
  "accepted_conn port x deadline =
     \<lparr> pt_port = port, pt_stream = fst x, pt_addr = snd x, pt_deadline = deadline \<rparr>"

lemma loop_inv_deadline:
  "loop_inv os c fw (ps @ [accepted_conn port x d]) m = loop_inv os c fw (ps @ [accepted_conn port x d']) m"
  by (auto simp: loop_inv_def pending_ok_def accepted_conn_def)

lemma loop_inv_accept:
  assumes "monotonic os" and "loop_inv os c fw ps m" and "length ps < unat (max_partial_states c)"
  shows "loop_inv os c fw (ps @ [accepted_conn port x d]) (m\<lparr>hist := hist m @ [AcceptTcp port (Inr x)]\<rparr>)"
  using loop_inv_event [OF assms(1,2), of "AcceptTcp port (Inr x)"] assms(3)
  by (auto simp: loop_inv_def pending_ok_def accepted_conn_def)

lemma upholds_nonblocking: "monotonic os \<Longrightarrow> upholds (loop_inv os c fw ps) (set_nonblocking os k)"
  unfolding set_nonblocking_def
  by (intro upholds_plain emits_call frame_leaf plain_io)

lemma triple_accept_all:
  assumes "monotonic os"
  shows "triple (loop_inv os c fw ps) (accept_all os now timeout (unat (max_partial_states c)) port ps)
    (loop_inv os c fw) (backed c fw)"
proof (induction "unat (max_partial_states c) - length ps" arbitrary: ps rule: less_induct)
  case less
  let ?max = "unat (max_partial_states c)" and ?I = "loop_inv os c fw" and ?E = "backed c fw"
  show ?case
  proof (cases "?max \<le> length ps")
    case True
    then show ?thesis by (subst accept_all.simps) (simp add: triple_ret)
  next
    case False
    let ?Q = "\<lambda>r. case r of Inr x \<Rightarrow> ?I (ps @ [accepted_conn port x 0]) | Inl e \<Rightarrow> ?I ps"
    have call: "triple (?I ps) (call (\<lambda>h. os_accept os h port) (AcceptTcp port)) ?Q ?E"
      using loop_inv_accept [OF assms] loop_inv_event(3) [OF assms] False
      by (intro triple_call) (simp split: sum.split)
    have again: "triple (?I (ps @ [accepted_conn port x 0]))
        (case instant_checked_add now timeout of None \<Rightarrow> throw e
         | Some d \<Rightarrow> accept_all os now timeout ?max port (ps @ [accepted_conn port x d])) ?I ?E" for x e
    proof -
      have "triple (?I (ps @ [accepted_conn port x 0]))
          (accept_all os now timeout ?max port (ps @ [accepted_conn port x d])) ?I ?E" for d
      proof -
        have "?I (ps @ [accepted_conn port x 0]) = ?I (ps @ [accepted_conn port x d])"
          by (intro ext loop_inv_deadline)
        moreover have "?max - length (ps @ [accepted_conn port x d]) < ?max - length ps"
          using False by simp
        ultimately show ?thesis using less [of "ps @ [accepted_conn port x d]"] by simp
      qed
      then show ?thesis
        by (auto intro!: triple_throw dest: loop_inv_backed split: option.split)
    qed
    have fail: "triple (?I ps') (none_or_fail msg r) (\<lambda>_. ?I ps') ?E" for ps' msg r
      by (rule triple_upholds [OF upholds_leaf(6) loop_inv_backed])
    have nb: "triple (?I ps') (set_nonblocking os k) (\<lambda>_. ?I ps') ?E" for ps' k
      by (rule triple_upholds [OF upholds_nonblocking [OF assms] loop_inv_backed])
    have rest: "triple (?Q r) (case r of
        Inr (stream, addr) \<Rightarrow>
          bind_io (set_nonblocking os (TcpStream stream)) (\<lambda>r.
          bind_io (none_or_fail ''failed to configure accepted TCP stream'' r) (\<lambda>_.
          case instant_checked_add now timeout of
            None \<Rightarrow> throw (Panic ''overflow when adding duration to instant'')
          | Some deadline \<Rightarrow>
              accept_all os now timeout ?max port
                (ps @ [\<lparr> pt_port = port, pt_stream = stream, pt_addr = addr, pt_deadline = deadline \<rparr>])))
      | Inl e \<Rightarrow> if error_kind_of e = WouldBlock then ret ps else throw (Err (error_text e))) ?I ?E" for r
    proof (cases r)
      case (Inl e)
      then show ?thesis by (auto intro!: triple_ret triple_throw dest: loop_inv_backed)
    next
      case (Inr x)
      then show ?thesis
        using triple_bind [OF nb triple_bind [OF fail again]]
        by (simp add: split_beta flip: accepted_conn_def cong: option.case_cong)
    qed
    show ?thesis
      using triple_bind [OF call rest] False by (subst accept_all.simps) simp
  qed
qed

lemma triple_accept_ports:
  assumes "monotonic os"
  shows "triple (loop_inv os c fw ps) (accept_ports os now timeout (unat (max_partial_states c)) ports ps)
    (loop_inv os c fw) (backed c fw)"
  by (induction ports arbitrary: ps)
    (auto intro: triple_ret triple_bind [OF triple_accept_all [OF assms]])

context machine_runner begin

lemma triple_read_pending:
  assumes "monotonic os" and "2 \<le> length (sequence (knock c))"
    and "fw_ipset_name fw \<noteq> fw_ban_ipset_name fw"
  shows "triple (loop_inv os c fw ps) (read_pending os run_status c now index ps)
    (loop_inv os c fw) (backed c fw)"
proof (induction "length ps - index" arbitrary: ps index rule: less_induct)
  case less
  let ?I = "loop_inv os c fw" and ?E = "backed c fw" and ?p = "ps ! index"
  show ?case
  proof (cases "index < length ps")
    case False
    then show ?thesis by (subst read_pending.simps) (simp add: triple_ret)
  next
    case True
    let ?Q = "\<lambda>r m. case r of
        Some n \<Rightarrow> traced os c fw m \<and> pending_ok c (hist m) (swap_remove ps index)
          \<and> receives c (hist m) (pt_addr ?p, Tcp, Some (pt_port ?p), n)
      | None \<Rightarrow> ?I ps m"
    have acc: "pending_ok c h ps \<Longrightarrow> AcceptTcp (pt_port ?p) (Inr (pt_stream ?p, pt_addr ?p)) \<in> set h" for h
      using True by (simp add: pending_ok_def)
    have read: "triple (?I ps) (read_tcp_knock os (pt_stream ?p) (buffer_len c)) ?Q ?E"
    proof -
      let ?R = "\<lambda>r m. case r of
          Inr k \<Rightarrow> traced os c fw m \<and> pending_ok c (hist m) (swap_remove ps index)
            \<and> receives c (hist m) (pt_addr ?p, Tcp, Some (pt_port ?p), delivered k (buffer_len c))
        | Inl e \<Rightarrow> ?I ps m"
      have "triple (?I ps) (call (\<lambda>h. os_read_tcp os h (pt_stream ?p)) (ReadTcp (pt_stream ?p))) ?R ?E"
        using loop_inv_event [OF assms(1)] pending_ok_swap_remove [OF _ True] acc
        by (intro triple_call) (auto simp: loop_inv_def split: sum.split)
      moreover have "triple (?R r) (case r of
          Inr n \<Rightarrow> ret (Some (delivered n (buffer_len c)))
        | Inl e \<Rightarrow> if error_kind_of e = WouldBlock \<or> error_kind_of e = TimedOut then ret None
           else throw (Err (error_text e))) ?Q ?E" for r
        by (cases r) (auto intro!: triple_ret triple_throw dest: loop_inv_backed)
      ultimately show ?thesis unfolding read_tcp_knock_def by (rule triple_bind)
    qed
    have drop: "triple (?I ps) (read_pending os run_status c now index (swap_remove ps index)) ?I ?E"
      and dropped: "triple (?I (swap_remove ps index)) (read_pending os run_status c now index (swap_remove ps index)) ?I ?E"
      and skip: "triple (?I ps) (read_pending os run_status c now (Suc index) ps) ?I ?E"
    proof -
      show d: "triple (?I (swap_remove ps index)) (read_pending os run_status c now index (swap_remove ps index)) ?I ?E"
        and "triple (?I ps) (read_pending os run_status c now (Suc index) ps) ?I ?E"
        using less True by simp_all
      show "triple (?I ps) (read_pending os run_status c now index (swap_remove ps index)) ?I ?E"
        by (rule triple_weaken [OF d]) (use True pending_ok_swap_remove in \<open>auto simp: loop_inv_def\<close>)
    qed
    have rest: "triple (?Q r) (case r of
          Some n \<Rightarrow>
            bind_io (process_packet os run_status (pt_addr ?p) Tcp (Some (pt_port ?p)) n) (\<lambda>_.
              read_pending os run_status c now index (swap_remove ps index))
        | None \<Rightarrow>
            if now \<ge> pt_deadline ?p
            then read_pending os run_status c now index (swap_remove ps index)
            else read_pending os run_status c now (index + 1) ps) ?I ?E" for r
    proof (cases r)
      case None
      then show ?thesis using drop skip by simp
    next
      case (Some n)
      then show ?thesis using triple_bind [OF triple_process [OF assms] dropped] by simp
    qed
    show ?thesis using triple_bind [OF read rest] True by (subst read_pending.simps) simp
  qed
qed

end

lemma upholds_sleep: "monotonic os \<Longrightarrow> upholds (loop_inv os c fw ps) (sleep d)"
  unfolding sleep_def by (intro upholds_plain emits_call frame_leaf plain_io)

text \<open>The first rounds of the loop; an endless run is all of them.\<close>

fun poll_rounds ::
  "os \<Rightarrow> machine runner \<Rightarrow> config \<Rightarrow> u16 list \<times> u16 list \<times> bool \<Rightarrow> nat \<Rightarrow> pending_tcp list
    \<Rightarrow> (machine, pending_tcp list) io" where
  "poll_rounds os runner c listeners 0 pending = ret pending"
| "poll_rounds os runner c listeners (Suc n) pending =
     bind_io (poll_once os runner c listeners pending) (poll_rounds os runner c listeners n)"

definition server_rounds :: "os \<Rightarrow> machine runner \<Rightarrow> nat \<Rightarrow> (machine, pending_tcp list) io" where
  "server_rounds os runner n =
     bind_io (server_start os runner) (\<lambda>listeners.
     bind_io (gets (\<lambda>m. srv_config (srv m))) (\<lambda>c. poll_rounds os runner c listeners n []))"

lemma poll_loop_rounds:
  assumes "poll_loop os runner c ls ps m = Some (e, m')"
  shows "\<exists>n. poll_rounds os runner c ls n ps m = (Inl e, m')"
proof -
  have "\<exists>n. poll_rounds os runner c ls n ps m = (Inl (fst x), snd x)"
    if "poll_loop os runner c ls ps m = Some x" for x
  proof (rule poll_loop.raw_induct [OF _ that])
    fix loop os runner c ls ps m x
    assume IH: "\<And>os runner c ls ps m x. loop os runner c ls ps m = Some x \<Longrightarrow>
        \<exists>n. poll_rounds os runner c ls n ps m = (Inl (fst x), snd x)"
      and step: "(case poll_once os runner c ls ps m of (Inl e, m') \<Rightarrow> Some (e, m')
        | (Inr pending', m') \<Rightarrow> loop os runner c ls pending' m') = Some x"
    obtain r m1 where 1: "poll_once os runner c ls ps m = (r, m1)"
      by (cases "poll_once os runner c ls ps m")
    show "\<exists>n. poll_rounds os runner c ls n ps m = (Inl (fst x), snd x)"
    proof (cases r)
      case (Inl e)
      then show ?thesis using 1 step by (intro exI [of _ 1]) (auto simp: bind_io_def)
    next
      case (Inr ps')
      then have "loop os runner c ls ps' m1 = Some x" using 1 step by simp
      from IH [OF this] obtain n where "poll_rounds os runner c ls n ps' m1 = (Inl (fst x), snd x)" by blast
      then show ?thesis using 1 Inr by (intro exI [of _ "Suc n"]) (simp add: bind_io_def)
    qed
  qed
  from this [OF assms] show ?thesis by simp
qed

lemma server_run_rounds:
  assumes "server_run os runner m = Some (e, m')"
  shows "\<exists>n. server_rounds os runner n m = (Inl e, m')"
proof -
  obtain r m1 where 1: "server_start os runner m = (r, m1)" by (cases "server_start os runner m")
  show ?thesis
    using assms 1 poll_loop_rounds
    by (cases r) (fastforce simp: server_run_def server_rounds_def bind_io_def gets_def)+
qed

context machine_runner begin

lemma triple_poll_once:
  assumes "monotonic os" and "2 \<le> length (sequence (knock c))"
    and "fw_ipset_name fw \<noteq> fw_ban_ipset_name fw"
  shows "triple (loop_inv os c fw ps) (poll_once os run_status c ls ps) (loop_inv os c fw) (backed c fw)"
proof -
  obtain udp tcp icmp where ls: "ls = (udp, tcp, icmp)" by (cases ls)
  note clock = triple_upholds [OF upholds_clock [OF assms(1)] loop_inv_backed]
    and sleep = triple_upholds [OF upholds_sleep [OF assms(1)] loop_inv_backed]
  show ?thesis
    unfolding poll_once_def ls prod.case
    by (rule triple_bind [OF triple_poll_udp [OF assms]]
        triple_bind [OF clock] triple_bind [OF triple_accept_ports [OF assms(1)]]
        triple_bind [OF triple_read_pending [OF assms]] triple_bind [OF triple_poll_icmp [OF assms]]
        triple_bind [OF sleep] triple_ret | assumption)+
qed

lemma triple_poll_rounds:
  assumes "monotonic os" and "2 \<le> length (sequence (knock c))"
    and "fw_ipset_name fw \<noteq> fw_ban_ipset_name fw"
  shows "triple (loop_inv os c fw ps) (poll_rounds os run_status c ls n ps) (loop_inv os c fw) (backed c fw)"
  by (induction n arbitrary: ps)
    (auto intro: triple_ret triple_bind [OF triple_poll_once [OF assms]])

text \<open>Start-up.\<close>

lemma runs_plain:
  "args cmd = [] \<or> hd (args cmd) \<noteq> ''add'' \<Longrightarrow> runs cmd e \<Longrightarrow> plain fw e"
  by (cases "args cmd"; cases "tl (args cmd)")
    (auto simp: runs_def plain_def is_clock_def is_receive_def allow_of_def)

lemma logs_plain: "logs ev msg e \<Longrightarrow> plain fw e"
  by (auto simp: logs_def plain_def is_clock_def is_receive_def allow_of_def split: event.splits)

lemma emits_log_plain: "emits (plain fw) (server_log os ev msg)"
  by (rule emits_server_log) (rule logs_plain)

lemma emits_preflight: "emits (plain fw) (preflight fw' run_status)"
  unfolding preflight_def
  by (intro emits_bind emits_mono [OF emits_runs]) (erule runs_plain [rotated], simp)+

lemma frame_preflight: "frame (preflight fw' run_status)"
  unfolding preflight_def by (intro frame_bind frame_run)

lemma emits_bind_icmp: "emits (plain fw) (bind_icmp_socket os family)"
  and frame_bind_icmp: "frame (bind_icmp_socket os family)"
  by (auto simp: bind_icmp_socket_def open_socket_def set_nonblocking_def
      intro!: emits_intros plain_io frame_intros)

lemma emits_bind_listeners: "emits (plain fw) (bind_listeners os c steps udp tcp icmp)"
  by (induction os c steps udp tcp icmp rule: bind_listeners.induct)
    (auto simp: open_socket_def set_nonblocking_def intro!: emits_intros plain_io emits_log_plain
      emits_bind_icmp split: protocol.split)

lemma frame_bind_listeners: "frame (bind_listeners os c steps udp tcp icmp)"
  by (induction os c steps udp tcp icmp rule: bind_listeners.induct)
    (auto simp: open_socket_def set_nonblocking_def intro!: frame_intros frame_server_log
      frame_bind_icmp split: protocol.split)

lemma emits_alloc: "emits P (alloc_bytes n)" and frame_alloc: "frame (alloc_bytes n)"
  by (auto simp: alloc_bytes_def intro: emits_leaf frame_leaf)

lemma emits_server_start: "emits (plain fw) (server_start os run_status)"
  unfolding server_start_def
  by (auto intro!: emits_intros emits_log_plain emits_preflight emits_bind_listeners emits_alloc
      split: sum.split)

lemma frame_server_start: "frame (server_start os run_status)"
  unfolding server_start_def
  by (auto intro!: frame_intros frame_server_log frame_preflight frame_bind_listeners frame_alloc
      split: sum.split)

end

section \<open>Reading the pending connections\<close>

lemma nth_swap_remove: "j < index \<Longrightarrow> index < length ps \<Longrightarrow> swap_remove ps index ! j = ps ! j"
  by (auto simp: swap_remove_def nth_butlast)

lemma read_pending_keeps_fresh:
  "read_pending os runner c now index ps m = (Inr ps', m') \<Longrightarrow>
    \<forall>j < index. now < pt_deadline (ps ! j) \<Longrightarrow> index \<le> length ps \<Longrightarrow>
    (\<forall>p\<in>set ps'. now < pt_deadline p) \<and> set ps' \<subseteq> set ps"
proof (induction "length ps - index" arbitrary: ps index m rule: less_induct)
  case less
  show ?case
  proof (cases "index < length ps")
    case False
    then have "ps' = ps" and "index = length ps"
      using less.prems by (auto simp: read_pending.simps ret_def)
    then show ?thesis using less.prems(2) by (auto simp: in_set_conv_nth)
  next
    case True
    let ?drop = "read_pending os runner c now index (swap_remove ps index)"
    have drop: "?drop m1 = (Inr ps', m') \<Longrightarrow>
        (\<forall>p\<in>set ps'. now < pt_deadline p) \<and> set ps' \<subseteq> set ps" for m1
      using less.hyps [of "swap_remove ps index" index m1] less.prems(2) True
        set_swap_remove [OF True] by (fastforce simp: nth_swap_remove)
    from less.prems(1) True obtain r m1 where r: "read_tcp_knock os (pt_stream (ps ! index)) (buffer_len c) m = (Inr r, m1)"
      and rest: "(case r of
          Some n \<Rightarrow> bind_io (process_packet os runner (pt_addr (ps ! index)) Tcp (Some (pt_port (ps ! index))) n) (\<lambda>_. ?drop)
        | None \<Rightarrow> if now \<ge> pt_deadline (ps ! index) then ?drop
            else read_pending os runner c now (index + 1) ps) m1 = (Inr ps', m')"
      by (subst (asm) read_pending.simps) (auto elim: bind_io_Inr)
    show ?thesis
    proof (cases r)
      case (Some n)
      then show ?thesis using rest drop by (auto elim!: bind_io_Inr)
    next
      case None
      show ?thesis
      proof (cases "now \<ge> pt_deadline (ps ! index)")
        case True
        then show ?thesis using rest None drop by simp
      next
        case False
        then have "\<forall>j < index + 1. now < pt_deadline (ps ! j)"
          using less.prems(2) by (auto simp: less_Suc_eq)
        then show ?thesis using less.hyps [of ps "index + 1" m1] rest None False True by simp
      qed
    qed
  qed
qed

section \<open>The endless loop and its rounds\<close>

lemma rounds_poll_loop:
  "poll_rounds os runner c ls n ps m = (Inl e, m') \<Longrightarrow> poll_loop os runner c ls ps m = Some (e, m')"
proof (induction n arbitrary: ps m)
  case 0
  then show ?case by (simp add: ret_def)
next
  case (Suc n)
  obtain r m1 where 1: "poll_once os runner c ls ps m = (r, m1)" by (cases "poll_once os runner c ls ps m")
  then show ?case using Suc
    by (cases r) (auto simp: bind_io_def poll_loop.simps [of os runner c ls ps m])
qed

section \<open>The listeners\<close>

definition ports_of :: "protocol \<Rightarrow> knock_step list \<Rightarrow> u16 list" where
  "ports_of proto steps = concat (map (\<lambda>s. if step_protocol s = proto
     then (case step_port s of None \<Rightarrow> [] | Some p \<Rightarrow> [p]) else []) steps)"

lemma bind_listeners_ok:
  "bind_listeners os c steps udp tcp icmp m = (Inr (udp', tcp', icmp'), m') \<Longrightarrow>
    distinct udp \<Longrightarrow> distinct tcp \<Longrightarrow>
    distinct udp' \<and> set udp' = set udp \<union> set (ports_of Udp steps)
    \<and> distinct tcp' \<and> set tcp' = set tcp \<union> set (ports_of Tcp steps)
    \<and> icmp' = (icmp \<or> (\<exists>s\<in>set steps. step_protocol s = Icmp))"
proof (induction steps arbitrary: udp tcp icmp m)
  case Nil
  then show ?case by (auto simp: ret_def ports_of_def)
next
  case (Cons s steps)
  note IH = Cons.IH
  show ?case
  proof (cases "step_protocol s")
    case Udp
    then obtain p where p: "step_port s = Some p"
      using Cons.prems(1) by (auto elim!: bind_io_Inr simp: of_result_def)
    have "\<exists>udp1 m1. bind_listeners os c steps udp1 tcp icmp m1 = (Inr (udp', tcp', icmp'), m')
        \<and> distinct udp1 \<and> set udp1 = insert p (set udp)"
    proof (cases "p \<in> set udp")
      case True
      then show ?thesis using Cons.prems Udp p
        by (intro exI [of _ udp] exI [of _ m]) (auto simp: of_result_def bind_io_def)
    next
      case False
      then show ?thesis using Cons.prems Udp p
        by (intro exI [of _ "udp @ [p]"]) (auto elim!: bind_io_Inr simp: of_result_def)
    qed
    then obtain udp1 m1 where
      "bind_listeners os c steps udp1 tcp icmp m1 = (Inr (udp', tcp', icmp'), m')"
      "distinct udp1" "set udp1 = insert p (set udp)" by blast
    with p IH [of udp1 tcp icmp m1] Cons.prems(3) Udp show ?thesis by (auto simp: ports_of_def)
  next
    case Tcp
    then obtain p where p: "step_port s = Some p"
      using Cons.prems(1) by (auto elim!: bind_io_Inr simp: of_result_def)
    have "\<exists>tcp1 m1. bind_listeners os c steps udp tcp1 icmp m1 = (Inr (udp', tcp', icmp'), m')
        \<and> distinct tcp1 \<and> set tcp1 = insert p (set tcp)"
    proof (cases "p \<in> set tcp")
      case True
      then show ?thesis using Cons.prems Tcp p
        by (intro exI [of _ tcp] exI [of _ m]) (auto simp: of_result_def bind_io_def)
    next
      case False
      then show ?thesis using Cons.prems Tcp p
        by (intro exI [of _ "tcp @ [p]"]) (auto elim!: bind_io_Inr simp: of_result_def)
    qed
    then obtain tcp1 m1 where
      "bind_listeners os c steps udp tcp1 icmp m1 = (Inr (udp', tcp', icmp'), m')"
      "distinct tcp1" "set tcp1 = insert p (set tcp)" by blast
    with p IH [of udp tcp1 icmp m1] Cons.prems(2) Tcp show ?thesis by (auto simp: ports_of_def)
  next
    case Icmp
    then obtain m1 where "bind_listeners os c steps udp tcp True m1 = (Inr (udp', tcp', icmp'), m')"
      using Cons.prems(1) by (cases icmp) (auto elim!: bind_io_Inr)
    with IH [of udp tcp True m1] Cons.prems(2,3) Icmp show ?thesis by (auto simp: ports_of_def)
  qed
qed

text \<open>The sockets that a transcript opens, and those that belong to a set of listeners.\<close>

definition opened :: "transcript \<Rightarrow> (socket \<times> string \<times> io_error option) list" where
  "opened h = concat (map (\<lambda>e. case e of Open k a r \<Rightarrow> [(k, a, r)] | _ \<Rightarrow> []) h)"

lemma opened_append [simp]: "opened (h @ h') = opened h @ opened h'"
  by (simp add: opened_def)

definition sockets_of :: "config \<Rightarrow> u16 set \<Rightarrow> u16 set \<Rightarrow> bool \<Rightarrow> (socket \<times> string \<times> io_error option) set" where
  "sockets_of c udp tcp icmp = (\<lambda>p. (UdpSocket p, listen c, None)) ` udp
     \<union> (\<lambda>p. (TcpListener p, listen c, None)) ` tcp
     \<union> (if icmp then {(IcmpSocket (address_family c = Ipv6), [], None)} else {})"

definition opens :: "(machine, 'a) io \<Rightarrow> (socket \<times> string \<times> io_error option) list \<Rightarrow> bool" where
  "opens f ks = (\<forall>m x m'. f m = (Inr x, m') \<longrightarrow> (\<exists>es. hist m' = hist m @ es \<and> opened es = ks))"

lemma opensD: "opens f ks \<Longrightarrow> f m = (Inr x, m') \<Longrightarrow> \<exists>es. hist m' = hist m @ es \<and> opened es = ks"
  unfolding opens_def by blast

lemma opens_bind: "opens f ks \<Longrightarrow> (\<And>x. opens (g x) ks') \<Longrightarrow> opens (bind_io f g) (ks @ ks')"
  unfolding opens_def
  by (intro allI impI, elim bind_io_Inr) (metis append.assoc opened_append)

lemma opens_none: "emits (\<lambda>e. opened [e] = []) f \<Longrightarrow> opens f []"
  unfolding opens_def
proof (intro allI impI)
  fix m :: machine and x m'
  assume "emits (\<lambda>e. opened [e] = []) f" "f m = (Inr x, m')"
  from emitsD [OF this] obtain es where es: "hist m' = hist m @ es" "list_all (\<lambda>e. opened [e] = []) es" by blast
  from es(2) have "opened es = []" by (auto simp: opened_def list_all_iff)
  with es(1) show "\<exists>es. hist m' = hist m @ es \<and> opened es = []" by blast
qed

lemma opens_log: "opens (server_log os ev msg) []"
  by (rule opens_none, rule emits_server_log) (auto simp: logs_def opened_def split: event.splits)

text \<open>Opening a socket, with what follows when it succeeded.\<close>

lemma opens_socket:
  assumes "opens (g ()) ks"
  shows "opens (bind_io (open_socket os k a) (\<lambda>r. bind_io (none_or_fail msg r) g)) ((k, a, None) # ks)"
  unfolding opens_def
proof (intro allI impI)
  fix m :: machine and x m'
  assume "bind_io (open_socket os k a) (\<lambda>r. bind_io (none_or_fail msg r) g) m = (Inr x, m')"
  then have "g () (m\<lparr>hist := hist m @ [Open k a None]\<rparr>) = (Inr x, m')"
    by (cases "os_socket os (hist m) k a")
      (auto simp: bind_io_def open_socket_def call_def none_or_fail_def ret_def throw_def)
  from opensD [OF assms this] show "\<exists>es. hist m' = hist m @ es \<and> opened es = (k, a, None) # ks"
    by (auto simp: opened_def)
qed

lemma opens_nonblocking: "opens (set_nonblocking os k) []"
  unfolding set_nonblocking_def by (rule opens_none, rule emits_call) (simp add: opened_def)

lemma opens_none_or_fail: "opens (none_or_fail msg r) []"
  by (rule opens_none, rule emits_or_fail)

text \<open>One pass of the loop that binds: the socket, its mode and the log line.\<close>

lemma bind_listener_opens:
  assumes "bind_io (open_socket os k a) (\<lambda>r. bind_io (none_or_fail msg r) (\<lambda>_.
      bind_io (set_nonblocking os k) (\<lambda>r. bind_io (none_or_fail msg' r) (\<lambda>_.
      bind_io (server_log os ev line) (\<lambda>_. f))))) m = (Inr x, m')"
  obtains m1 es where "f m1 = (Inr x, m')" and "hist m1 = hist m @ es" and "opened es = [(k, a, None)]"
proof -
  have o: "opens (bind_io (open_socket os k a) (\<lambda>r. bind_io (none_or_fail msg r) (\<lambda>_.
      bind_io (set_nonblocking os k) (\<lambda>r. bind_io (none_or_fail msg' r) (\<lambda>_. server_log os ev line)))))
      ((k, a, None) # [] @ [] @ [])"
    by (rule opens_socket) (intro opens_bind opens_nonblocking opens_none_or_fail opens_log)
  have "bind_io (bind_io (open_socket os k a) (\<lambda>r. bind_io (none_or_fail msg r) (\<lambda>_.
      bind_io (set_nonblocking os k) (\<lambda>r. bind_io (none_or_fail msg' r) (\<lambda>_. server_log os ev line))))) (\<lambda>_. f) m
      = (Inr x, m')"
    using assms by (simp add: bind_assoc)
  then obtain y m1 where "bind_io (open_socket os k a) (\<lambda>r. bind_io (none_or_fail msg r) (\<lambda>_.
      bind_io (set_nonblocking os k) (\<lambda>r. bind_io (none_or_fail msg' r) (\<lambda>_. server_log os ev line)))) m = (Inr y, m1)"
    "f m1 = (Inr x, m')" by (rule bind_io_Inr)
  with opensD [OF o this(1)] that show ?thesis by auto
qed

lemma bind_listeners_opens:
  "bind_listeners os c steps udp tcp icmp m = (Inr (udp', tcp', icmp'), m') \<Longrightarrow>
    hist m = h @ es \<Longrightarrow> distinct (opened es) \<Longrightarrow> set (opened es) = sockets_of c (set udp) (set tcp) icmp \<Longrightarrow>
    \<exists>es'. hist m' = h @ es' \<and> distinct (opened es') \<and> set (opened es') = sockets_of c (set udp') (set tcp') icmp'"
proof (induction steps arbitrary: udp tcp icmp m es)
  case Nil
  then show ?case by (auto simp: ret_def)
next
  case (Cons s steps)
  note IH = Cons.IH
  have next_socket: "\<exists>es'. hist m' = h @ es' \<and> distinct (opened es')
      \<and> set (opened es') = sockets_of c (set udp') (set tcp') icmp'"
    if "bind_listeners os c steps udp1 tcp1 icmp1 m1 = (Inr (udp', tcp', icmp'), m')"
      "hist m1 = hist m @ es1" "opened es1 = [k]" "k \<notin> sockets_of c (set udp) (set tcp) icmp"
      "sockets_of c (set udp1) (set tcp1) icmp1 = insert k (sockets_of c (set udp) (set tcp) icmp)"
    for udp1 tcp1 icmp1 m1 es1 k
    using IH [OF that(1), of "es @ es1"] that(2-5) Cons.prems(2-4) by auto
  show ?case
  proof (cases "step_protocol s")
    case Udp
    then obtain p where p: "step_port s = Some p"
      using Cons.prems(1) by (auto elim!: bind_io_Inr simp: of_result_def)
    show ?thesis
    proof (cases "p \<in> set udp")
      case True
      then show ?thesis using Cons.prems Udp p IH [of udp tcp icmp m es] by (simp add: of_result_def bind_io_def)
    next
      case False
      with Cons.prems(1) Udp p show ?thesis
        by (auto simp: of_result_def bind_io_def [of "\<lambda>s. (Inr _, s)"] elim!: bind_listener_opens intro!: next_socket)
          (auto simp: sockets_of_def split: if_splits)
    qed
  next
    case Tcp
    then obtain p where p: "step_port s = Some p"
      using Cons.prems(1) by (auto elim!: bind_io_Inr simp: of_result_def)
    show ?thesis
    proof (cases "p \<in> set tcp")
      case True
      then show ?thesis using Cons.prems Tcp p IH [of udp tcp icmp m es] by (simp add: of_result_def bind_io_def)
    next
      case False
      with Cons.prems(1) Tcp p show ?thesis
        by (auto simp: of_result_def bind_io_def [of "\<lambda>s. (Inr _, s)"] elim!: bind_listener_opens intro!: next_socket)
          (auto simp: sockets_of_def split: if_splits)
    qed
  next
    case Icmp
    show ?thesis
    proof (cases icmp)
      case True
      then show ?thesis using Cons.prems Icmp IH [of udp tcp icmp m es] by simp
    next
      case False
      with Cons.prems(1) Icmp show ?thesis
        by (auto simp: bind_icmp_socket_def bind_assoc elim!: bind_listener_opens intro!: next_socket)
          (auto simp: sockets_of_def split: if_splits)
    qed
  qed
qed

section \<open>The size of a payload\<close>




section \<open>Properties\<close>

text \<open>
  C30: the pass over the pending connections keeps no connection whose deadline has passed, and
  invents none.
\<close>

theorem expired_connections_dropped:
  "read_pending os runner c now 0 ps m = (Inr ps', m') \<Longrightarrow>
    (\<forall>p\<in>set ps'. now < pt_deadline p) \<and> set ps' \<subseteq> set ps"
  using read_pending_keeps_fresh [of os runner c now 0 ps m ps' m'] by simp

definition conn :: "nat \<Rightarrow> instant \<Rightarrow> pending_tcp" where
  "conn n deadline = \<lparr> pt_port = 40101, pt_stream = n, pt_addr = (ipv4 10 0 0 9, 5000), pt_deadline = deadline \<rparr>"

lemma quiet_read: "read_tcp_knock quiet_os n buf m = (Inr None, m\<lparr>hist := hist m @ [ReadTcp n (Inl would_block)]\<rparr>)"
  by (simp add: read_tcp_knock_def call_def quiet_os_def bind_io_def would_block_def ret_def)

theorem expired_connections_dropped_witness:
  "\<exists>ps'. fst (read_pending quiet_os (system_run_status quiet_os) example_config 10 0 [conn 1 5, conn 2 20]
      example_machine) = Inr ps' \<and> set ps' \<subseteq> {conn 1 5, conn 2 20} \<and> (\<forall>p\<in>set ps'. 10 < pt_deadline p)"
proof -
  let ?f = "read_pending quiet_os (system_run_status quiet_os) example_config 10 0 [conn 1 5, conn 2 20] example_machine"
  have "\<exists>ps' m'. ?f = (Inr ps', m')"
    by (simp add: read_pending.simps bind_io_def quiet_read swap_remove_def conn_def ret_def)
  then obtain ps' m' where "?f = (Inr ps', m')" by blast
  from expired_connections_dropped [OF this] this show ?thesis by auto
qed



end
