(* ===== verification/Updater.thy ===== *)
theory Updater
  imports Effects
begin

text \<open>
  The update command of \<open>src/bin/sshknockd.rs\<close>: fetch the latest release, select its package,
  download package, checksum manifest and signature into a private directory, verify, install
  and restart. JSON parsing, SHA-256 and Ed25519 are third-party code, collected with the
  target architecture in the record \<open>deps\<close>.
\<close>

section \<open>Data and third-party code\<close>

record release_asset =
  asset_name :: string
  browser_download_url :: string

record github_release =
  tag_name :: string
  assets :: "release_asset list"

text \<open>
  \<open>parse_release\<close> is the JSON parser at type \<open>GitHubRelease\<close>, \<open>sha256_hex\<close> the digest in
  lower case hexadecimal, \<open>key_valid\<close>, \<open>signature_valid\<close> and \<open>verify_strict\<close> the three calls
  into \<open>ed25519_dalek\<close>, \<open>consts_arch\<close> the constant \<open>std::env::consts::ARCH\<close>.
\<close>

record deps =
  parse_release :: "string \<Rightarrow> github_release option"
  sha256_hex :: "string \<Rightarrow> string"
  key_valid :: "u8 list \<Rightarrow> bool"
  signature_valid :: "string \<Rightarrow> bool"
  verify_strict :: "u8 list \<Rightarrow> string \<Rightarrow> string \<Rightarrow> bool"
  consts_arch :: string

definition cargo_pkg_version :: string where
  "cargo_pkg_version = ''0.2.4''"

definition github_owner :: string where
  "github_owner = ''KilimcininKoroglu''"

definition github_repo :: string where
  "github_repo = ''sshknockd''"

definition checksum_manifest :: string where
  "checksum_manifest = ''SHA256SUMS''"

definition checksum_signature :: string where
  "checksum_signature = ''SHA256SUMS.sig''"

definition release_signing_public_key :: "u8 list" where
  "release_signing_public_key =
    [0x5a, 0x2a, 0x99, 0xc1, 0x95, 0xe6, 0xeb, 0x89, 0xfb, 0xe9, 0x0c, 0xbf, 0x05, 0x19, 0x41, 0xa2,
     0x98, 0xaa, 0x75, 0xc4, 0x21, 0xf8, 0x44, 0xbb, 0xab, 0x86, 0xd7, 0x98, 0x04, 0x7d, 0x34, 0xbe]"

section \<open>Selection\<close>

definition trim_start_v :: "string \<Rightarrow> string" where
  "trim_start_v s = dropWhile (\<lambda>c. c = CHR ''v'') s"

definition quote :: string where
  "quote = [CHR 0x22]"

text \<open>\<open>read_to_string\<close> also fails on a file that is not UTF-8.\<close>

definition detect_package_extension :: "os \<Rightarrow> ('z world_scheme, string) io" where
  "detect_package_extension os =
     bind_io (read_file os ''/etc/os-release'') (\<lambda>r.
     bind_io (or_fail ''failed to read /etc/os-release'' r) (\<lambda>os_release.
     if \<not> utf8_valid os_release then throw (Err ''failed to read /etc/os-release'')
     else if contains_str os_release ''ID_LIKE=rhel''
       \<or> contains_str os_release (''ID_LIKE='' @ quote @ ''rhel'')
       \<or> contains_str os_release ''ID=centos''
       \<or> contains_str os_release ''ID=fedora''
       \<or> contains_str os_release ''ID=rhel''
       \<or> contains_str os_release ''ID=rocky''
       \<or> contains_str os_release ''ID=almalinux''
     then ret ''rpm''
     else if contains_str os_release ''ID_LIKE=debian''
       \<or> contains_str os_release (''ID_LIKE='' @ quote @ ''debian'')
       \<or> contains_str os_release ''ID=debian''
       \<or> contains_str os_release ''ID=ubuntu''
     then ret ''deb''
     else throw (Err ''unsupported Linux distribution for automatic package selection'')))"

definition detect_architecture :: "deps \<Rightarrow> string result" where
  "detect_architecture deps =
     (if consts_arch deps = ''x86_64'' then Inr ''amd64''
      else if consts_arch deps = ''aarch64'' then Inr ''arm64''
      else Inl (Err ''unsupported CPU architecture for automatic package selection''))"

definition package_arch_names :: "string \<Rightarrow> string \<Rightarrow> string list result" where
  "package_arch_names extension arch =
     (if extension = ''deb'' \<and> arch = ''amd64'' then Inr [''amd64'']
      else if extension = ''deb'' \<and> arch = ''arm64'' then Inr [''arm64'']
      else if extension = ''rpm'' \<and> arch = ''amd64'' then Inr [''x86_64'']
      else if extension = ''rpm'' \<and> arch = ''arm64'' then Inr [''aarch64'', ''arm64'']
      else Inl (Err ''unsupported package architecture mapping''))"

definition select_release_asset :: "github_release \<Rightarrow> string \<Rightarrow> string \<Rightarrow> release_asset result" where
  "select_release_asset release extension arch =
     and_then (package_arch_names extension arch) (\<lambda>arch_names.
       context_opt
         (find (\<lambda>asset. ends_with (asset_name asset) (''.'' @ extension)
            \<and> list_ex (contains_str (asset_name asset)) arch_names) (assets release))
         (''release does not contain a .'' @ extension @ '' package for any of: ''
           @ join '', '' arch_names))"

definition select_named_release_asset :: "github_release \<Rightarrow> string \<Rightarrow> release_asset result" where
  "select_named_release_asset release name =
     context_opt (find (\<lambda>asset. asset_name asset = name) (assets release))
       (''release does not contain required asset '' @ name)"

section \<open>Downloads\<close>

definition curl_common_args :: "string list" where
  "curl_common_args =
     [''--fail'', ''--location'', ''--show-error'', ''--silent'', ''--proto'', ''=https'',
      ''--proto-redir'', ''=https'', ''--connect-timeout'', ''10'', ''--max-time'', ''300'']"

definition release_url :: string where
  "release_url = ''https://api.github.com/repos/'' @ github_owner @ ''/'' @ github_repo
     @ ''/releases/latest''"

definition fetch_latest_release :: "os \<Rightarrow> deps \<Rightarrow> ('z world_scheme, github_release) io" where
  "fetch_latest_release os deps =
     bind_io (exec os ''curl'' (curl_common_args
       @ [''--header'', ''Accept: application/vnd.github+json'']
       @ [''--header'', ''X-GitHub-Api-Version: 2026-03-10'']
       @ [''--user-agent'', ''sshknockd-updater'', release_url])) (\<lambda>r.
     bind_io (or_fail ''failed to execute curl'' r) (\<lambda>out.
     if \<not> out_success out then throw (Err ''curl failed to fetch the latest GitHub release'')
     else of_result (context_opt (parse_release deps (out_stdout out))
       ''failed to parse GitHub release response'')))"

definition ensure_https_url :: "string \<Rightarrow> unit result" where
  "ensure_https_url url =
     (if \<not> starts_with url ''https://''
      then Inl (Err ''release asset download URL must use HTTPS'') else Inr ())"

definition download_package :: "os \<Rightarrow> string \<Rightarrow> string \<Rightarrow> ('z world_scheme, unit) io" where
  "download_package os url package_path =
     bind_io (of_result (ensure_https_url url)) (\<lambda>_.
     bind_io (exec os ''curl'' (curl_common_args @ [''--output'', package_path, url])) (\<lambda>r.
     bind_io (or_fail ''failed to execute curl'' r) (\<lambda>out.
     if \<not> out_success out then throw (Err ''curl failed to download update package'')
     else ret ())))"

section \<open>Verification\<close>

definition validate_sha256_hex :: "string \<Rightarrow> unit result" where
  "validate_sha256_hex v =
     (if length v \<noteq> 64 \<or> \<not> list_all is_ascii_hexdigit v
      then Inl (Err ''checksum manifest contains an invalid sha256 digest'') else Inr ())"

definition strip_star :: "string \<Rightarrow> string" where
  "strip_star name = (case name of [] \<Rightarrow> [] | c # cs \<Rightarrow> if c = CHR ''*'' then cs else c # cs)"

fun digest_of_lines :: "string \<Rightarrow> string option \<Rightarrow> string list \<Rightarrow> string option result" where
  "digest_of_lines package matched [] = Inr matched"
| "digest_of_lines package matched (line # rest) =
     (let trimmed = trim line in
      if trimmed = [] then digest_of_lines package matched rest
      else (case split_whitespace trimmed of
          [] \<Rightarrow> digest_of_lines package matched rest
        | [digest] \<Rightarrow> Inl (Err ''checksum manifest contains a malformed line'')
        | digest # name # extra \<Rightarrow>
            if extra \<noteq> [] then Inl (Err ''checksum manifest contains a malformed line'')
            else if strip_star name = package then
              and_then (validate_sha256_hex digest) (\<lambda>_.
                if matched \<noteq> None
                then Inl (Err (''checksum manifest contains duplicate entries for '' @ package))
                else digest_of_lines package (Some digest) rest)
            else digest_of_lines package matched rest))"

definition expected_digest_from_manifest :: "string \<Rightarrow> string \<Rightarrow> string result" where
  "expected_digest_from_manifest manifest package =
     and_then (digest_of_lines package None (str_lines manifest)) (\<lambda>matched.
       context_opt matched (''checksum manifest does not contain '' @ package))"

definition verify_manifest_signature :: "deps \<Rightarrow> string \<Rightarrow> string \<Rightarrow> unit result" where
  "verify_manifest_signature deps manifest signature =
     (if \<not> key_valid deps release_signing_public_key
      then Inl (Err ''release signing public key is invalid'')
      else if \<not> signature_valid deps signature
      then Inl (Err ''release checksum signature is invalid'')
      else if \<not> verify_strict deps release_signing_public_key manifest signature
      then Inl (Err ''release checksum signature verification failed'')
      else Inr ())"

definition verify_package_against_signed_manifest ::
  "os \<Rightarrow> deps \<Rightarrow> release_asset \<Rightarrow> string \<Rightarrow> string \<Rightarrow> string \<Rightarrow> ('z world_scheme, unit) io" where
  "verify_package_against_signed_manifest os deps asset package_path manifest_path signature_path =
     bind_io (read_file os manifest_path) (\<lambda>r.
     bind_io (or_fail (''failed to read checksum manifest '' @ manifest_path) r) (\<lambda>manifest.
     bind_io (read_file os signature_path) (\<lambda>r.
     bind_io (or_fail (''failed to read checksum signature '' @ signature_path) r) (\<lambda>signature.
     bind_io (of_result (verify_manifest_signature deps manifest signature)) (\<lambda>_.
     bind_io (of_result (ensure (utf8_valid manifest) ''checksum manifest is not valid UTF-8'')) (\<lambda>_.
     bind_io (of_result (expected_digest_from_manifest manifest (asset_name asset))) (\<lambda>expected.
     bind_io (read_file os package_path) (\<lambda>r.
     bind_io (or_fail (''failed to read downloaded package '' @ package_path) r) (\<lambda>package.
     if \<not> eq_ignore_ascii_case (sha256_hex deps package) expected
     then throw (Err (''downloaded package digest mismatch for '' @ asset_name asset
       @ '': expected sha256:'' @ expected @ '', got sha256:'' @ sha256_hex deps package))
     else ret ())))))))))"

section \<open>Installation\<close>

definition install_package :: "os \<Rightarrow> string \<Rightarrow> string \<Rightarrow> ('z world_scheme, unit) io" where
  "install_package os package_path extension =
     bind_io (of_result (if extension = ''deb'' then Inr (''dpkg'', ''-i'')
       else if extension = ''rpm'' then Inr (''rpm'', ''-Uvh'')
       else Inl (Err ''unsupported package extension''))) (\<lambda>(installer, flag).
     bind_io (exec os installer [flag, package_path]) (\<lambda>r.
     bind_io (or_fail ''failed to execute package installer'' r) (\<lambda>out.
     if \<not> out_success out then throw (Err ''package installer exited unsuccessfully'')
     else ret ())))"

definition restart_service :: "os \<Rightarrow> ('z world_scheme, unit) io" where
  "restart_service os =
     bind_io (exec os ''systemctl'' [''restart'', ''sshknockd'']) (\<lambda>r.
     bind_io (or_fail ''failed to execute systemctl'' r) (\<lambda>out.
     if \<not> out_success out then throw (Err ''systemctl restart sshknockd exited unsuccessfully'')
     else ret ()))"

definition remove_dir_all :: "os \<Rightarrow> string \<Rightarrow> ('z world_scheme, io_error option) io" where
  "remove_dir_all os dir = call (\<lambda>h. os_rmdir os h dir) (RemoveDir dir)"

definition process_id :: "os \<Rightarrow> ('z world_scheme, nat) io" where
  "process_id os = call (os_pid os) ProcessId"

text \<open>The mode is the octal 0700.\<close>

definition create_private_staging_dir :: "os \<Rightarrow> ('z world_scheme, string) io" where
  "create_private_staging_dir os =
     bind_io (process_id os) (\<lambda>pid.
     let dir = ''/tmp/sshknockd-staging-'' @ dec pid in
     bind_io (remove_dir_all os dir) (\<lambda>_.
     bind_io (call (\<lambda>h. os_mkdir os h dir 448) (MakeDir dir 448)) (\<lambda>r.
     bind_io (none_or_fail (''failed to create private staging directory '' @ dir) r) (\<lambda>_.
       ret dir))))"

definition stage_verify_and_install ::
  "os \<Rightarrow> deps \<Rightarrow> release_asset \<Rightarrow> release_asset \<Rightarrow> release_asset \<Rightarrow> string \<Rightarrow> string
    \<Rightarrow> ('z world_scheme, unit) io" where
  "stage_verify_and_install os deps asset manifest_asset signature_asset extension staging_dir =
     (let package_path = staging_dir @ ''/sshknockd-update.'' @ extension;
          manifest_path = staging_dir @ ''/SHA256SUMS'';
          signature_path = staging_dir @ ''/SHA256SUMS.sig'' in
      bind_io (download_package os (browser_download_url asset) package_path) (\<lambda>_.
      bind_io (download_package os (browser_download_url manifest_asset) manifest_path) (\<lambda>_.
      bind_io (download_package os (browser_download_url signature_asset) signature_path) (\<lambda>_.
      bind_io (verify_package_against_signed_manifest os deps asset package_path manifest_path
        signature_path) (\<lambda>_.
      install_package os package_path extension)))))"

definition update_from_latest_release :: "os \<Rightarrow> deps \<Rightarrow> ('z world_scheme, unit) io" where
  "update_from_latest_release os deps =
     bind_io (fetch_latest_release os deps) (\<lambda>release.
     let latest_version = trim_start_v (tag_name release) in
     if latest_version = cargo_pkg_version
     then println (''sshknockd is already up to date at version '' @ latest_version)
     else
       bind_io (detect_package_extension os) (\<lambda>extension.
       bind_io (of_result (detect_architecture deps)) (\<lambda>arch.
       bind_io (of_result (select_release_asset release extension arch)) (\<lambda>asset.
       bind_io (of_result (select_named_release_asset release checksum_manifest)) (\<lambda>manifest_asset.
       bind_io (of_result (select_named_release_asset release checksum_signature)) (\<lambda>signature_asset.
       bind_io (create_private_staging_dir os) (\<lambda>staging_dir.
       bind_io (attempt (stage_verify_and_install os deps asset manifest_asset signature_asset
         extension staging_dir)) (\<lambda>result.
       bind_io (remove_dir_all os staging_dir) (\<lambda>_.
       bind_io (case result of Inl e \<Rightarrow> throw (Err e) | Inr _ \<Rightarrow> ret ()) (\<lambda>_.
       bind_io (restart_service os) (\<lambda>_.
       println (''sshknockd updated from '' @ cargo_pkg_version @ '' to '' @ latest_version))))))))))))"

end
