(* ===== verification/Daemon.thy ===== *)
theory Daemon
  imports Poll Updater
begin

text \<open>
  \<open>main\<close> of \<open>src/bin/sshknockd.rs\<close>, after clap has parsed the command line: the value of the
  option \<open>--config\<close>, if it was given, and the subcommand, if any. The result is \<open>None\<close> when the
  daemon runs for ever.
\<close>

datatype command_kind = SetupFirewall | Update | Config | Version

record args =
  arg_config :: string
  arg_command :: "command_kind option"

text \<open>The \<open>Args\<close> that the attributes make of the option and the subcommand on the command line.\<close>

definition args_of :: "string option \<Rightarrow> command_kind option \<Rightarrow> args" where
  "args_of config command = \<lparr>
     arg_config = (case config of None \<Rightarrow> ''/etc/sshknockd.toml'' | Some path \<Rightarrow> path),
     arg_command = command \<rparr>"

definition setup_firewall ::
  "os \<Rightarrow> (string \<Rightarrow> raw_config option) \<Rightarrow> string \<Rightarrow> (world, unit) io" where
  "setup_firewall os parse path =
     bind_io (from_path os parse path) (\<lambda>c.
     bind_io (of_result (firewall_new (ipset_name c) (ban_ipset_name c) (ip_timeout c)
       (ban_timeout c) (firewall_backend c) (address_family c))) (\<lambda>fw.
       fw_setup fw (system_run_status os) (ssh_port c)))"

definition print_config ::
  "os \<Rightarrow> (string \<Rightarrow> raw_config option) \<Rightarrow> string \<Rightarrow> (world, unit) io" where
  "print_config os parse path =
     bind_io (from_path os parse path) (\<lambda>c.
     bind_io (println (''listen='' @ listen c)) (\<lambda>_.
     bind_io (println (''ssh_port='' @ dec (unat (ssh_port c)))) (\<lambda>_.
     println (''sequence_steps='' @ dec (length (sequence (knock c)))))))"

definition machine_of :: "world \<Rightarrow> server \<Rightarrow> machine" where
  "machine_of w s = \<lparr> hist = hist w, srv = s \<rparr>"

definition run_daemon ::
  "os \<Rightarrow> (string \<Rightarrow> raw_config option) \<Rightarrow> string \<Rightarrow> world \<Rightarrow> (unit result \<times> world) option" where
  "run_daemon os parse path w =
     (case bind_io (from_path os parse path) (server_new os) w of
        (Inl e, w') \<Rightarrow> Some (Inl e, w')
      | (Inr s, w') \<Rightarrow>
          (case server_run os (system_run_status os) (machine_of w' s) of
             None \<Rightarrow> None
           | Some (e, m) \<Rightarrow> Some (Inl e, \<lparr> hist = hist m \<rparr>)))"

definition main ::
  "os \<Rightarrow> deps \<Rightarrow> (string \<Rightarrow> raw_config option) \<Rightarrow> args \<Rightarrow> world \<Rightarrow> (unit result \<times> world) option" where
  "main os deps parse a w = (case arg_command a of
       Some SetupFirewall \<Rightarrow> Some (setup_firewall os parse (arg_config a) w)
     | Some Update \<Rightarrow> Some (update_from_latest_release os deps w)
     | Some Version \<Rightarrow> Some (println cargo_pkg_version w)
     | Some Config \<Rightarrow> Some (print_config os parse (arg_config a) w)
     | None \<Rightarrow> run_daemon os parse (arg_config a) w)"

end
