(* ===== verification/Knocking.thy ===== *)
theory Knocking
  imports ServerRuns
begin

text \<open>
  A concrete system and server on which the theorems about whole runs are applied. It is
  a quiet system on which one source knocks: whenever a UDP port of the example configuration
  is polled, a datagram of the right size is waiting.
\<close>

definition knocker :: socket_addr where
  "knocker = (ipv4 10 0 0 1, 5000)"

definition knocking_os :: os where
  "knocking_os = quiet_os\<lparr> os_recv_udp := \<lambda>h p. Inr
     (if p = 40101 then 64 else if p = 40102 then 128 else 96, knocker) \<rparr>"

lemma knocking_now: "os_now knocking_os h = 0"
  by (simp add: knocking_os_def quiet_os_def)

lemma knocking_monotonic: "monotonic knocking_os"
  by (simp add: monotonic_def knocking_now)

lemma knocking_run: "run (system_run_status knocking_os) c w =
    (Inr (), w\<lparr>hist := hist w @ [Exec (program c) (args c) (Inr ok_output)]\<rparr>)"
  by (simp add: run_simps knocking_os_def)

lemma knocking_log:
  assumes "log_works knocking_os m"
  shows "\<exists>m'. server_log knocking_os ev msg m = (Inr (), m') \<and> srv m' = srv m
    \<and> (\<exists>es. hist m' = hist m @ es) \<and> log_works knocking_os m'"
proof -
  obtain r m' where 1: "server_log knocking_os ev msg m = (r, m')"
    by (cases "server_log knocking_os ev msg m")
  have "srv m' = srv m" by (rule srv_more [OF frameD [OF frame_server_log 1]])
  moreover have "\<exists>es. hist m' = hist m @ es"
    using emitsD [OF emits_server_log 1, of "\<lambda>_. True"] by auto
  ultimately show ?thesis
    using server_log_ok [OF assms, of ev msg] 1 assms by (simp add: log_works_def)
qed

lemma example_server_simps:
  "srv_config example_server = example_config" "srv_firewall example_server = example_firewall"
  "\<not> lock_poisoned (srv_logger example_server)"
  by (simp_all add: example_server_def server_of_def)

lemma knocking_log_works: "srv m = example_server \<Longrightarrow> log_works knocking_os m"
  by (simp add: log_works_def knocking_os_def quiet_os_def example_server_simps)

text \<open>The three packets of a knock.\<close>

definition after_knock :: "nat \<Rightarrow> server" where
  "after_knock n = example_server\<lparr>srv_tracker := (srv_tracker example_server)\<lparr>states :=
     (if n = 0 then hm_empty
      else [(ipv4 10 0 0 1, \<lparr> next_step = n, first_seen = 0, last_seen = 0 \<rparr>)])\<rparr>\<rparr>"

lemma after_knock_0: "after_knock 0 = example_server"
  by (simp add: after_knock_def example_machine_simps)

lemma silent_telemetry: "\<not> packet_telemetry_enabled (after_knock n)"
  by (simp add: packet_telemetry_enabled_def eq_ignore_ascii_case_def to_ascii_lowercase_def
      after_knock_def example_machine_simps)

lemma knock_decisions:
  "decide (packet_of knocker Udp (Some 40101) 64) 0 example_server = (Outcome (Progress 1), after_knock 1)"
  "decide (packet_of knocker Udp (Some 40102) 128) 0 (after_knock 1) = (Outcome (Progress 2), after_knock 2)"
  "decide (packet_of knocker Udp (Some 40103) 96) 0 (after_knock 2) = (Outcome Accepted, example_server)"
  by (simp_all add: after_knock_def knocker_def example_machine_simps decide_def is_source_banned_def Let_def
      expire_banned_sources_def track_def process_def packet_of_def expire_def live_def matches_step_def
      step_matches_def start_partial_state_def remove_source_def over_limit_def hm_defs duration_since_def)

lemma knock_silent:
  assumes "srv m = s" and "decide (packet_of knocker Udp (Some p) n) 0 s = (Outcome (Progress k), after_knock i)"
  shows "process_packet knocking_os (system_run_status knocking_os) knocker Udp (Some p) n m
    = (Inr (), m\<lparr>hist := hist m @ [ClockRead 0], srv := after_knock i\<rparr>)"
  using assms silent_telemetry [of i]
  by (simp add: process_packet_eq knocking_now Let_def log_packet_telemetry_def bind_io_def with_srv_def
      telemetry_allow_def ret_def)

lemma knock_accepted:
  assumes "srv m = after_knock 2"
  shows "\<exists>m' es. process_packet knocking_os (system_run_status knocking_os) knocker Udp (Some 40103) 96 m = (Inr (), m')
    \<and> srv m' = example_server
    \<and> hist m' = hist m @ [ClockRead 0, Exec ''ipset'' (args (add_ip_command example_firewall (fst knocker))) (Inr ok_output)] @ es"
proof -
  let ?m1 = "m\<lparr>hist := hist m @ [ClockRead 0, Exec ''ipset'' (args (add_ip_command example_firewall (fst knocker)))
    (Inr ok_output)], srv := example_server\<rparr>"
  from knocking_log [OF knocking_log_works, of ?m1 "''ssh_allow''" "allow_message example_server (fst knocker)"]
  obtain m' es where "server_log knocking_os ''ssh_allow'' (allow_message example_server (fst knocker)) ?m1 = (Inr (), m')"
    "srv m' = srv ?m1" "hist m' = hist ?m1 @ es" by auto
  moreover have "process_packet knocking_os (system_run_status knocking_os) knocker Udp (Some 40103) 96 m
      = server_log knocking_os ''ssh_allow'' (allow_message example_server (fst knocker)) ?m1"
    using assms knock_decisions(3) silent_telemetry [of 0]
    by (cases m, simp add: after_knock_0 process_packet_eq knocking_now Let_def log_packet_telemetry_def
        bind_io_def with_srv_def telemetry_allow_def ret_def add_ip_def attempt_def knocking_run
        allow_message_def example_server_simps)
      (simp add: add_ip_command_def)
  ultimately show ?thesis by auto
qed

end
