(* ===== verification/DaemonSpec.thy ===== *)
theory DaemonSpec
  imports PollSpec Daemon Knocking
begin

text \<open>
  The whole daemon, from its configuration file through any number of poll rounds.
\<close>

section \<open>The initial machine\<close>

lemma fresh_loop_inv:
  assumes "firewall_new (ipset_name c) (ban_ipset_name c) (ip_timeout c) (ban_timeout c)
      (firewall_backend c) (address_family c) = Inr fw" and "list_all (plain fw) (hist w)"
  shows "loop_inv os c fw [] (machine_of w (server_of c fw lg))"
proof -
  have "server_ok (server_of c fw lg) 0" by (rule server_of_ok)
  then have "between os c [] (machine_of w (server_of c fw lg))"
    by (auto simp: between_def machine_of_def server_of_def knock_tracker_new_def ghost_ok_def
        intro!: exI [of _ 0])
  moreover have quiet: "list_all (\<lambda>e. \<not> is_clock e) (hist w)" "list_all (\<lambda>e. \<not> allow_of fw e) (hist w)"
    "list_all (\<lambda>e. \<not> is_receive e) (hist w)"
    using assms(2) by (simp_all add: list_all_iff plain_def)
  moreover have "recorded c (hist w) []" "guards (allow_of fw) (knock_backed c fw) (hist w)"
    "settled (hist w)"
    using recorded_quiet [OF recorded.start quiet(1)] guards_append_none [OF guards_Nil quiet(2)]
      settled_append [of "[]" "hist w", OF _ quiet(3)] by (simp_all add: settled_def)
  ultimately show ?thesis
    by (auto simp: loop_inv_def traced_def backed_def machine_of_def server_of_def pending_ok_def)
qed

lemma plain_files: "plain fw (ReadFile p r)" "plain fw (CreateDirAll p r')" "plain fw (OpenAppend p r')"
  by (simp_all add: plain_def is_clock_def is_receive_def allow_of_def)

lemma emits_load: "emits (plain fw) (bind_io (from_path os parse path) (server_new os))"
  unfolding from_path_def server_new_def logger_new_def read_file_def
  by (auto intro!: emits_intros plain_files split: option.split)

lemma load_ok:
  assumes "bind_io (from_path os parse path) (server_new os) w = (Inr s, w')"
  obtains c fw lg where "valid_config c" and "s = server_of c fw lg"
    and "firewall_new (ipset_name c) (ban_ipset_name c) (ip_timeout c) (ban_timeout c)
      (firewall_backend c) (address_family c) = Inr fw"
    and "\<exists>raw doc. os_read os (hist w) path = Inr raw \<and> parse raw = Some doc \<and> c = config_of_raw doc"
proof -
  from assms obtain c w1 where 1: "from_path os parse path w = (Inr c, w1)" "server_new os c w1 = (Inr s, w')"
    by (rule bind_io_Inr)
  from 1(2) obtain fw w2 lg w3 where 2: "of_result (firewall_new (ipset_name c) (ban_ipset_name c)
      (ip_timeout c) (ban_timeout c) (firewall_backend c) (address_family c)) w1 = (Inr fw, w2)"
      "ret (server_of c fw lg) w3 = (Inr s, w')"
    unfolding server_new_def by (elim bind_io_Inr)
  show ?thesis
    by (rule that [of c fw lg]) (use 2 from_path_ok [OF 1(1)] in \<open>auto simp: ret_def of_result_def\<close>)
qed

lemma firewall_new_ok:
  assumes "firewall_new n b i t be fam = Inr fw"
  shows "fw = \<lparr> fw_ipset_name = n, fw_ban_ipset_name = b, fw_ip_timeout = i, fw_ban_timeout = t,
      fw_backend = be, fw_family = fam \<rparr>"
    and "valid_ipset_name n" and "valid_ipset_name b" and "i \<noteq> 0" and "t \<noteq> 0"
  using assms by (auto simp: firewall_new_def and_then_Inr_iff validate_ipset_name_iff split: if_splits)

section \<open>The daemon\<close>

lemma rounds_backed:
  assumes "monotonic os" and "bind_io (from_path os parse path) (server_new os) \<lparr> hist = [] \<rparr> = (Inr s, w)"
    and "ipset_name (srv_config s) \<noteq> ban_ipset_name (srv_config s)"
    and "server_rounds os (system_run_status os) n (machine_of w s) = (r, m)"
  shows "backed (srv_config s) (srv_firewall s) m"
    and "r = Inr ps \<Longrightarrow> loop_inv os (srv_config s) (srv_firewall s) ps m"
proof -
  obtain c fw lg where c: "valid_config c" "s = server_of c fw lg"
    and fw: "firewall_new (ipset_name c) (ban_ipset_name c) (ip_timeout c) (ban_timeout c)
      (firewall_backend c) (address_family c) = Inr fw"
    using load_ok [OF assms(2)] by metis
  have cfg: "srv_config s = c" "srv_firewall s = fw" by (simp_all add: c(2) server_of_def)
  have len: "2 \<le> length (sequence (knock c))" using valid_configD(1) [OF c(1)] by simp
  have names: "fw_ipset_name fw \<noteq> fw_ban_ipset_name fw"
    using assms(3) firewall_new_ok(1) [OF fw] by (simp add: cfg)
  obtain es where "hist w = es" "list_all (plain fw) es"
    using emitsD [OF emits_load assms(2)] by auto
  then have inv: "loop_inv os c fw [] (machine_of w s)"
    unfolding c(2) by (intro fresh_loop_inv [OF fw]) simp
  obtain r1 m1 where 1: "server_start os (system_run_status os) (machine_of w s) = (r1, m1)"
    by (cases "server_start os (system_run_status os) (machine_of w s)")
  have "loop_inv os c fw [] m1"
    by (rule upholdsD [OF upholds_plain [OF assms(1) msys.emits_server_start msys.frame_server_start] 1 inv])
  then have inv1: "loop_inv os c fw [] m1" .
  have "srv m1 = srv (machine_of w s)"
    by (rule srv_more [OF frameD [OF msys.frame_server_start 1]])
  then have "srv_config (srv m1) = c" by (simp add: machine_of_def cfg)
  note triple = msys.triple_poll_rounds [OF assms(1) len names, of "[]"]
  have both: "backed c fw m \<and> (\<forall>ps. r = Inr ps \<longrightarrow> loop_inv os c fw ps m)"
  proof (cases r1)
    case (Inl e)
    then show ?thesis
      using 1 assms(4) loop_inv_backed [OF inv1]
      by (auto simp: server_rounds_def bind_io_def)
  next
    case (Inr ls)
    then have run: "poll_rounds os (system_run_status os) c ls n [] m1 = (r, m)"
      using 1 assms(4) \<open>srv_config (srv m1) = c\<close> by (simp add: server_rounds_def bind_io_def gets_def)
    then show ?thesis
      using triple_ok [OF triple inv1] triple_fail [OF triple inv1]
        loop_inv_backed by (cases r) blast+
  qed
  then show "backed (srv_config s) (srv_firewall s) m"
    and "r = Inr ps \<Longrightarrow> loop_inv os (srv_config s) (srv_firewall s) ps m"
    by (simp_all add: cfg)
qed

section \<open>A daemon that is knocked at\<close>

lemma knocking_bind_step:
  assumes "log_works knocking_os m" and "p \<notin> set udp"
  shows "\<exists>m'. bind_listeners knocking_os c (udp_step p n # ss) udp tcp icmp m
    = bind_listeners knocking_os c ss (udp @ [p]) tcp icmp m' \<and> log_works knocking_os m' \<and> srv m' = srv m"
proof -
  let ?m = "m\<lparr>hist := hist m @ [Open (UdpSocket p) (listen c) None, SetNonblocking (UdpSocket p) None]\<rparr>"
  have sock: "open_socket knocking_os k a m = (Inr None, m\<lparr>hist := hist m @ [Open k a None]\<rparr>)"
    "set_nonblocking knocking_os k m = (Inr None, m\<lparr>hist := hist m @ [SetNonblocking k None]\<rparr>)"
    for k a and m :: machine
    by (simp_all add: open_socket_def set_nonblocking_def call_def knocking_os_def quiet_os_def)
  have "log_works knocking_os ?m" using assms(1) by (simp add: log_works_def)
  from knocking_log [OF this] obtain m' where
    "server_log knocking_os ''bind_udp'' ''status=bound'' ?m = (Inr (), m')"
    "log_works knocking_os m'" "srv m' = srv ?m" by blast
  then show ?thesis using assms(2)
    by (intro exI [of _ m'])
      (simp add: udp_step_def bind_io_def of_result_def sock none_or_fail_def ret_def)
qed

lemma knocking_bind:
  assumes "log_works knocking_os m"
  shows "\<exists>m'. bind_listeners knocking_os c
      [udp_step 40101 64, udp_step 40102 128, udp_step 40103 96] [] [] False m
    = (Inr ([40101, 40102, 40103], [], False), m') \<and> srv m' = srv m"
proof -
  from knocking_bind_step [OF assms, of 40101 "[]" c 64 "[udp_step 40102 128, udp_step 40103 96]" "[]" False]
  obtain m1 where
    m1: "bind_listeners knocking_os c [udp_step 40101 64, udp_step 40102 128, udp_step 40103 96] [] [] False m
      = bind_listeners knocking_os c [udp_step 40102 128, udp_step 40103 96] [40101] [] False m1"
    "log_works knocking_os m1" "srv m1 = srv m" by (auto simp del: bind_listeners.simps)
  from knocking_bind_step [OF m1(2), of 40102 "[40101]" c 128 "[udp_step 40103 96]" "[]" False]
  obtain m2 where
    m2: "bind_listeners knocking_os c [udp_step 40102 128, udp_step 40103 96] [40101] [] False m1
      = bind_listeners knocking_os c [udp_step 40103 96] [40101, 40102] [] False m2"
    "log_works knocking_os m2" "srv m2 = srv m1" by (auto simp del: bind_listeners.simps)
  from knocking_bind_step [OF m2(2), of 40103 "[40101, 40102]" c 96 "[]" "[]" False]
  obtain m3 where
    m3: "bind_listeners knocking_os c [udp_step 40103 96] [40101, 40102] [] False m2
      = bind_listeners knocking_os c [] [40101, 40102, 40103] [] False m3"
    "log_works knocking_os m3" "srv m3 = srv m2" by (auto simp del: bind_listeners.simps)
  then show ?thesis unfolding m1(1) m2(1) m3(1) using m1(3) m2(3) by (simp add: ret_def)
qed

lemma knocking_start:
  assumes "srv m = example_server"
  shows "\<exists>m'. server_start knocking_os (system_run_status knocking_os) m
    = (Inr ([40101, 40102, 40103], [], False), m') \<and> srv m' = example_server"
proof -
  from knocking_log [OF knocking_log_works [OF assms], of "''daemon_start''" "''sshknockd starting''"] obtain m1 where
    m1: "server_log knocking_os ''daemon_start'' ''sshknockd starting'' m = (Inr (), m1)" "srv m1 = srv m" by blast
  have "\<exists>m2. preflight example_firewall (system_run_status knocking_os) m1 = (Inr (), m2) \<and> srv m2 = srv m1"
    by (simp add: preflight_def bind_io_def knocking_run)
  then obtain m2 where pre: "preflight example_firewall (system_run_status knocking_os) m1 = (Inr (), m2)"
    "srv m2 = srv m1" by blast
  from knocking_log [OF knocking_log_works, of m2 "''firewall_preflight''" "''completed''"] obtain m3 where
    m3: "server_log knocking_os ''firewall_preflight'' ''completed'' m2 = (Inr (), m3)" "srv m3 = srv m2"
    using assms m1(2) pre(2) by auto
  have "sequence (knock example_config) = [udp_step 40101 64, udp_step 40102 128, udp_step 40103 96]"
    by (simp add: example_config_def)
  moreover obtain m4 where "bind_listeners knocking_os example_config
      [udp_step 40101 64, udp_step 40102 128, udp_step 40103 96] [] [] False m3
    = (Inr ([40101, 40102, 40103], [], False), m4)" "srv m4 = srv m3"
    using knocking_bind [OF knocking_log_works, of m3] assms m1(2) pre(2) m3(2) by auto
  moreover have "alloc_bytes (buffer_len example_config) m = (Inr (), m)"
    "alloc_bytes (icmp_buffer_len example_config) m = (Inr (), m)" for m :: machine
    by (simp_all add: alloc_bytes_def buffer_len_def icmp_buffer_len_def icmp_header_len_def
        saturating_add_def example_config_simps ret_def)
  ultimately show ?thesis
    using assms m1 pre m3
    by (intro exI [of _ m4])
      (simp add: server_start_def bind_io_def gets_def attempt_def example_server_simps ret_def)
qed

lemma knock_sizes: "delivered 64 (buffer_len example_config) = 64" "delivered 128 (buffer_len example_config) = 128"
  "delivered 96 (buffer_len example_config) = 96"
  by (simp_all add: delivered_def buffer_len_def saturating_add_def example_config_simps)

lemma knocking_round:
  assumes "srv m = example_server"
  shows "\<exists>m' h1 h2 r. poll_once knocking_os (system_run_status knocking_os) example_config
      ([40101, 40102, 40103], [], False) [] m = (Inr [], m') \<and> srv m' = example_server
    \<and> hist m' = h1 @ Exec ''ipset'' (args (add_ip_command example_firewall (fst knocker))) r # h2
    \<and> RecvUdp 40101 (Inr (64, knocker)) \<in> set h1"
proof -
  have sizes: "os_recv_udp knocking_os h 40101 = Inr (64, knocker)" "os_recv_udp knocking_os h 40102 = Inr (128, knocker)"
    "os_recv_udp knocking_os h 40103 = Inr (96, knocker)" for h
    by (simp_all add: knocking_os_def)
  let ?ev = "\<lambda>p n. [RecvUdp p (Inr (n, knocker)), ClockRead 0]"
  let ?m2 = "\<lparr> hist = hist m @ ?ev 40101 64 @ ?ev 40102 128 @ [RecvUdp 40103 (Inr (96, knocker))], srv = after_knock 2 \<rparr>"
  from knock_accepted [of ?m2] obtain m3 es where
    m3: "process_packet knocking_os (system_run_status knocking_os) knocker Udp (Some 40103) 96 ?m2 = (Inr (), m3)"
      "srv m3 = example_server"
      "hist m3 = hist ?m2 @ [ClockRead 0, Exec ''ipset'' (args (add_ip_command example_firewall (fst knocker)))
        (Inr ok_output)] @ es" by auto
  have udp: "poll_udp knocking_os (system_run_status knocking_os) example_config [40101, 40102, 40103] m = (Inr (), m3)"
    using assms m3(1) knock_silent [OF _ knock_decisions(1)] knock_silent [OF _ knock_decisions(2)]
    by (cases m) (simp add: bind_io_def call_def sizes knock_sizes ret_def)
  have rest: "poll_once knocking_os (system_run_status knocking_os) example_config
      ([40101, 40102, 40103], [], False) [] m = (Inr [], m3\<lparr>hist := hist m3 @ [ClockRead 0, Sleep 10000000]\<rparr>)"
    by (simp add: poll_once_def bind_io_def udp del: poll_udp.simps)
      (simp add: instant_now_def call_def knocking_now ret_def read_pending.simps poll_icmp_def sleep_def)
  show ?thesis
    unfolding rest
    by (rule exI [of _ "m3\<lparr>hist := hist m3 @ [ClockRead 0, Sleep 10000000]\<rparr>"],
        rule exI [of _ "hist ?m2 @ [ClockRead 0]"], rule exI [of _ "es @ [ClockRead 0, Sleep 10000000]"],
        rule exI [of _ "Inr ok_output"])
      (simp add: m3(2,3))
qed

definition load_example :: "server result \<times> world" where
  "load_example = bind_io (from_path knocking_os (\<lambda>_. Some example_raw) ''/etc/sshknockd.toml'')
     (server_new knocking_os) \<lparr> hist = [] \<rparr>"

lemma load_example_ok: "\<exists>w. load_example = (Inr example_server, w)"
proof -
  have "from_path knocking_os (\<lambda>_. Some example_raw) ''/etc/sshknockd.toml'' w =
     (Inr example_config, w\<lparr>hist := hist w @ [ReadFile ''/etc/sshknockd.toml'' (Inr ''text'')]\<rparr>)" for w :: world
    by (simp add: from_path_def read_file_def call_def knocking_os_def quiet_os_def bind_io_def or_fail_def io_defs
        utf8_valid_def utf8_next_def utf8_follow_def example_raw_config example_config_valid)
  moreover have "\<exists>w'. server_new knocking_os example_config w = (Inr example_server, w')" for w :: world
    by (simp add: server_new_def bind_io_def io_defs example_config_simps example_firewall_new [simplified]
        logger_new_def path_parent_def call_def knocking_os_def quiet_os_def none_or_fail_def example_server_def
        example_firewall_def validate_ipset_name_def firewall_new_def ipset_char_def is_ascii_alphanumeric_def
        split: prod.split sum.split option.split)
  ultimately show ?thesis by (simp add: load_example_def bind_io_def)
qed

lemma knocking_rounds:
  assumes "srv m = example_server"
  shows "\<exists>m' h1 h2 r. server_rounds knocking_os (system_run_status knocking_os) 1 m = (Inr [], m')
    \<and> hist m' = h1 @ Exec ''ipset'' (args (add_ip_command example_firewall (fst knocker))) r # h2
    \<and> RecvUdp 40101 (Inr (64, knocker)) \<in> set h1"
proof -
  from knocking_start [OF assms] obtain m1 where
    1: "server_start knocking_os (system_run_status knocking_os) m = (Inr ([40101, 40102, 40103], [], False), m1)"
      "srv m1 = example_server" by blast
  from knocking_round [OF 1(2)] obtain m' h1 h2 r where
    "poll_once knocking_os (system_run_status knocking_os) example_config
      ([40101, 40102, 40103], [], False) [] m1 = (Inr [], m')"
    "hist m' = h1 @ Exec ''ipset'' (args (add_ip_command example_firewall (fst knocker))) r # h2"
    "RecvUdp 40101 (Inr (64, knocker)) \<in> set h1" by blast
  moreover from this(1) have "server_rounds knocking_os (system_run_status knocking_os) 1 m = (Inr [], m')"
    by (simp add: server_rounds_def bind_io_def gets_def 1 example_server_simps ret_def)
  ultimately show ?thesis by blast
qed

section \<open>Properties\<close>

text \<open>
  C1: the daemon opens the SSH port only for sources that knocked. Take any run of the daemon,
  from loading its configuration through start-up and any number of poll rounds, on any system
  whose clock is monotonic, with two different set names. Whenever the transcript shows a command
  that adds something to the allow set, it is the allow command of one address, and the packets
  that the transcript recorded before it, in order of arrival, end for this address with the
  complete knock sequence, in time and with nothing of this source in between.
\<close>

theorem daemon_allow_requires_knock:
  "monotonic os \<Longrightarrow>
    bind_io (from_path os parse path) (server_new os) \<lparr> hist = [] \<rparr> = (Inr s, w) \<Longrightarrow>
    ipset_name (srv_config s) \<noteq> ban_ipset_name (srv_config s) \<Longrightarrow>
    server_rounds os (system_run_status os) n (machine_of w s) = (r, m) \<Longrightarrow>
    hist m = h1 @ e # h2 \<Longrightarrow> allow_of (srv_firewall s) e \<Longrightarrow>
    \<exists>ip tr. runs (add_ip_command (srv_firewall s) ip) e \<and> recorded (srv_config s) h1 tr
      \<and> completes (sequence (knock (srv_config s))) (from_secs (sequence_window (srv_config s)))
          (from_secs (partial_state_timeout (srv_config s))) ip tr"
  using rounds_backed(1) [of os parse path s w n r m]
    guardsD [of "allow_of (srv_firewall s)" "knock_backed (srv_config s) (srv_firewall s)" h1 e h2]
  by (simp add: backed_def knock_backed_def)

theorem daemon_allow_requires_knock_witness:
  "\<exists>ip tr h1. recorded example_config h1 tr
     \<and> completes (sequence (knock example_config)) (from_secs 5) (from_secs 10) ip tr"
proof -
  obtain w where w: "bind_io (from_path knocking_os (\<lambda>_. Some example_raw) ''/etc/sshknockd.toml'')
      (server_new knocking_os) \<lparr> hist = [] \<rparr> = (Inr example_server, w)"
    using load_example_ok by (auto simp: load_example_def)
  have "srv (machine_of w example_server) = example_server" by (simp add: machine_of_def)
  from knocking_rounds [OF this] obtain m h1 h2 r where
    m: "server_rounds knocking_os (system_run_status knocking_os) 1 (machine_of w example_server) = (Inr [], m)"
      "hist m = h1 @ Exec ''ipset'' (args (add_ip_command example_firewall (fst knocker))) r # h2" by blast
  have "allow_of example_firewall (Exec ''ipset'' (args (add_ip_command example_firewall (fst knocker))) r)"
    by (simp add: allow_of_def add_ip_command_def)
  moreover have "ipset_name example_config \<noteq> ban_ipset_name example_config"
    and "sequence_window example_config = 5" and "partial_state_timeout example_config = 10"
    by (simp_all add: example_config_simps)
  ultimately show ?thesis
    using daemon_allow_requires_knock [OF knocking_monotonic w _ m]
    by (simp add: example_server_simps) blast
qed

lemma loop_inv_tables:
  assumes "loop_inv os c fw ps m"
  shows "length ps \<le> unat (max_partial_states c)"
    and "tracker_len (srv_tracker (srv m)) \<le> unat (max_partial_states c)"
    and "hm_len (banned_sources (srv m)) \<le> unat (max_partial_states c)"
    and "hm_get (banned_sources (srv m)) ip = None \<or> hm_get (states (srv_tracker (srv m))) ip = None"
  using assms
  by (fastforce simp: loop_inv_def traced_def between_def pending_ok_def server_ok_def tracker_ok_def
      tracker_len_def Let_def)+

text \<open>
  C14: three tables of the daemon are bounded by its configuration, on a system whose clock is
  monotonic and with different names for the allow set and the ban set. From the configuration
  file through start-up and any number of rounds, whatever arrives, at most
  \<open>max_partial_states\<close> TCP connections are pending, at most as many sources are in the middle of a knock and at most as
  many are banned; no source is both, and each pending connection was accepted before from the
  address that it is recorded with. (The buckets of the source limiter are not among these
  tables: their number has no such bound.)
\<close>

theorem daemon_tables_bounded:
  "monotonic os \<Longrightarrow>
    bind_io (from_path os parse path) (server_new os) \<lparr> hist = [] \<rparr> = (Inr s, w) \<Longrightarrow>
    ipset_name (srv_config s) \<noteq> ban_ipset_name (srv_config s) \<Longrightarrow>
    server_rounds os (system_run_status os) n (machine_of w s) = (Inr ps, m) \<Longrightarrow>
    length ps \<le> unat (max_partial_states (srv_config s))
    \<and> tracker_len (srv_tracker (srv m)) \<le> unat (max_partial_states (srv_config s))
    \<and> hm_len (banned_sources (srv m)) \<le> unat (max_partial_states (srv_config s))
    \<and> (hm_get (banned_sources (srv m)) ip = None \<or> hm_get (states (srv_tracker (srv m))) ip = None)
    \<and> (\<forall>p\<in>set ps. AcceptTcp (pt_port p) (Inr (pt_stream p, pt_addr p)) \<in> set (hist m))"
  using rounds_backed(2) [of os parse path s w n "Inr ps" m ps]
    loop_inv_tables(1-3) [of os "srv_config s" "srv_firewall s" ps m]
    loop_inv_tables(4) [of os "srv_config s" "srv_firewall s" ps m ip]
  by (simp add: loop_inv_def pending_ok_def)

theorem daemon_tables_bounded_witness:
  "\<exists>m ps m'. server_rounds knocking_os (system_run_status knocking_os) 1 m = (Inr ps, m') \<and> length ps \<le> 4096
    \<and> tracker_len (srv_tracker (srv m')) \<le> 4096 \<and> hm_len (banned_sources (srv m')) \<le> 4096"
proof -
  obtain w where w: "bind_io (from_path knocking_os (\<lambda>_. Some example_raw) ''/etc/sshknockd.toml'')
      (server_new knocking_os) \<lparr> hist = [] \<rparr> = (Inr example_server, w)"
    using load_example_ok by (auto simp: load_example_def)
  have "srv (machine_of w example_server) = example_server" by (simp add: machine_of_def)
  from knocking_rounds [OF this] obtain m where
    m: "server_rounds knocking_os (system_run_status knocking_os) 1 (machine_of w example_server) = (Inr [], m)"
    by blast
  have "ipset_name example_config \<noteq> ban_ipset_name example_config"
    by (simp add: example_config_simps)
  with daemon_tables_bounded [OF knocking_monotonic w _ m] m show ?thesis
    by (auto simp: example_server_simps example_config_max intro!: exI [of _ "machine_of w example_server"])
qed

text \<open>
  C29: when the listeners are set up, the daemon has opened, successfully and exactly once, a UDP
  socket for every port of a UDP step and a TCP listener for every port of a TCP step, on the
  configured listen address, and one ICMP socket of the configured address family exactly when
  the sequence has an ICMP step; it has opened nothing else. The poll loop is given
  exactly these ports and that flag.
\<close>

theorem listeners_cover_sequence:
  "bind_listeners os c (sequence (knock c)) [] [] False m = (Inr (udp, tcp, icmp), m') \<Longrightarrow>
    distinct udp \<and> set udp = set (ports_of Udp (sequence (knock c)))
    \<and> distinct tcp \<and> set tcp = set (ports_of Tcp (sequence (knock c)))
    \<and> icmp = (\<exists>s\<in>set (sequence (knock c)). step_protocol s = Icmp)
    \<and> (\<exists>es. hist m' = hist m @ es \<and> distinct (opened es)
        \<and> set (opened es) = (\<lambda>p. (UdpSocket p, listen c, None)) ` set (ports_of Udp (sequence (knock c)))
            \<union> (\<lambda>p. (TcpListener p, listen c, None)) ` set (ports_of Tcp (sequence (knock c)))
            \<union> (if \<exists>s\<in>set (sequence (knock c)). step_protocol s = Icmp
                then {(IcmpSocket (address_family c = Ipv6), [], None)} else {}))"
  using bind_listeners_ok [of os c "sequence (knock c)" "[]" "[]" False m udp tcp icmp m']
    bind_listeners_opens [of os c "sequence (knock c)" "[]" "[]" False m udp tcp icmp m' "hist m" "[]"]
  by (auto simp: sockets_of_def opened_def)

theorem listeners_cover_sequence_witness:
  "\<exists>m'. bind_listeners knocking_os example_config (sequence (knock example_config)) [] [] False example_machine
      = (Inr ([40101, 40102, 40103], [], False), m')
    \<and> set (opened (hist m')) = (\<lambda>p. (UdpSocket p, ''0.0.0.0'', None)) ` {40101, 40102, 40103}"
proof -
  have "log_works knocking_os example_machine"
    by (rule knocking_log_works) (simp add: example_machine_def)
  from knocking_bind [OF this, of example_config] obtain m' where
    m': "bind_listeners knocking_os example_config (sequence (knock example_config)) [] [] False example_machine
      = (Inr ([40101, 40102, 40103], [], False), m')" by (auto simp: example_config_def)
  have "set (ports_of Udp (sequence (knock example_config))) = {40101, 40102, 40103}"
    "ports_of Tcp (sequence (knock example_config)) = []"
    "\<forall>s\<in>set (sequence (knock example_config)). step_protocol s \<noteq> Icmp"
    "listen example_config = ''0.0.0.0''" "hist example_machine = []"
    by (simp_all add: ports_of_def udp_step_def example_config_simps example_machine_def)
  with listeners_cover_sequence [OF m'] have "set (opened (hist m'))
      = (\<lambda>p. (UdpSocket p, ''0.0.0.0'', None)) ` {40101, 40102, 40103}" by auto
  with m' show ?thesis by blast
qed

definition firewall_of :: "config \<Rightarrow> firewall" where
  "firewall_of c = \<lparr> fw_ipset_name = ipset_name c, fw_ban_ipset_name = ban_ipset_name c,
     fw_ip_timeout = ip_timeout c, fw_ban_timeout = ban_timeout c, fw_backend = firewall_backend c,
     fw_family = address_family c \<rparr>"

lemma setup_firewall_ok:
  assumes "setup_firewall os parse path \<lparr> hist = [] \<rparr> = (Inr (), w')"
  shows "\<exists>raw doc c ap dp bp. os_read os [] path = Inr raw \<and> parse raw = Some doc \<and> c = config_of_raw doc
    \<and> valid_config c \<and> executed (hist w') = setup_commands (firewall_of c) (ssh_port c) ap dp bp"
proof -
  from assms obtain c w1 fw w2 where
    c: "from_path os parse path \<lparr> hist = [] \<rparr> = (Inr c, w1)"
    and fw: "of_result (firewall_new (ipset_name c) (ban_ipset_name c) (ip_timeout c) (ban_timeout c)
      (firewall_backend c) (address_family c)) w1 = (Inr fw, w2)"
    and su: "fw_setup fw (system_run_status os) (ssh_port c) w2 = (Inr (), w')"
    unfolding setup_firewall_def by (elim bind_io_Inr)
  have "fw = firewall_of c" and w2: "w2 = w1"
    using fw firewall_new_ok(1) by (auto simp: of_result_def firewall_of_def)
  have "executed (hist w1) = []"
  proof -
    have "emits (\<lambda>e. \<exists>p r. e = ReadFile p r) (from_path os parse path :: (world, config) io)"
      unfolding from_path_def read_file_def by (auto intro!: emits_intros split: option.split)
    from emitsD [OF this c] obtain es where "hist w1 = es" "list_all (\<lambda>e. \<exists>p r. e = ReadFile p r) es" by auto
    then have "list_all (\<lambda>e. \<exists>p r. e = ReadFile p r) (hist w1)" by simp
    then show ?thesis by (induction "hist w1") (auto simp: executed_def list_all_iff)
  qed
  moreover obtain ap dp bp k where
    "executed (hist (snd (fw_setup fw (system_run_status os) (ssh_port c) w2)))
      = executed (hist w2) @ take k (setup_commands fw (ssh_port c) ap dp bp)"
    "\<forall>x. fst (fw_setup fw (system_run_status os) (ssh_port c) w2) = Inr x \<longrightarrow>
      k = length (setup_commands fw (ssh_port c) ap dp bp)"
    using sys.setup_executes by blast
  moreover have "valid_config c" "\<exists>raw doc. os_read os [] path = Inr raw \<and> parse raw = Some doc \<and> c = config_of_raw doc"
    using from_path_ok [OF c] by auto
  ultimately show ?thesis using su w2 \<open>fw = _\<close> by simp blast
qed

text \<open>
  C38: the subcommand \<open>setup-firewall\<close>, when it succeeds, has read the file that \<open>--config\<close> names
  (\<open>/etc/sshknockd.toml\<close> without the option); the configuration in this file is valid, and
  the commands executed are exactly the setup commands for its allow set, its ban set, its two
  timeouts, its backend, its address family and its SSH port.
\<close>

theorem setup_subcommand:
  "main os deps parse (args_of path (Some SetupFirewall)) \<lparr> hist = [] \<rparr> = Some (Inr (), w') \<Longrightarrow>
    \<exists>raw doc c ap dp bp.
      os_read os [] (case path of None \<Rightarrow> ''/etc/sshknockd.toml'' | Some p \<Rightarrow> p) = Inr raw
      \<and> parse raw = Some doc \<and> c = config_of_raw doc \<and> valid_config c
      \<and> executed (hist w') = setup_commands
          \<lparr> fw_ipset_name = ipset_name c, fw_ban_ipset_name = ban_ipset_name c,
            fw_ip_timeout = ip_timeout c, fw_ban_timeout = ban_timeout c,
            fw_backend = firewall_backend c, fw_family = address_family c \<rparr> (ssh_port c) ap dp bp"
  using setup_firewall_ok [of os parse "arg_config (args_of path (Some SetupFirewall))" w']
  by (simp add: main_def args_of_def firewall_of_def)

theorem setup_subcommand_witness:
  "\<exists>w' ap dp bp. (\<forall>deps. main quiet_os deps (\<lambda>_. Some example_raw) (args_of None (Some SetupFirewall)) \<lparr> hist = [] \<rparr>
      = Some (Inr (), w'))
    \<and> executed (hist w') = setup_commands example_firewall (ssh_port example_config) ap dp bp"
proof -
  have "\<exists>w'. setup_firewall quiet_os (\<lambda>_. Some example_raw) ''/etc/sshknockd.toml'' \<lparr> hist = [] \<rparr> = (Inr (), w')"
    by (simp add: setup_firewall_def bind_io_def from_path_example of_result_def fw_setup_def quiet_run quiet_ensure)
      (simp add: example_config_simps firewall_new_def validate_ipset_name_def ipset_char_def
        is_ascii_alphanumeric_def)
  then obtain w' where "setup_firewall quiet_os (\<lambda>_. Some example_raw) ''/etc/sshknockd.toml''
      \<lparr> hist = [] \<rparr> = (Inr (), w')" by blast
  then have w': "main quiet_os deps (\<lambda>_. Some example_raw) (args_of None (Some SetupFirewall)) \<lparr> hist = [] \<rparr>
      = Some (Inr (), w')" for deps by (simp add: main_def args_of_def)
  have "example_firewall = firewall_of example_config"
    by (simp add: example_firewall_def firewall_of_def example_config_simps)
  with setup_subcommand [OF w'] have "\<exists>ap dp bp. executed (hist w')
      = setup_commands example_firewall (ssh_port example_config) ap dp bp"
    by (auto simp: example_raw_config firewall_of_def)
  with w' show ?thesis by blast
qed

text \<open>
  C37: nothing is done under a configuration that cannot be read, parsed or validated. For
  the daemon and for every subcommand that needs the file, the program returns the error, and
  reading the file is the only thing it has done.
\<close>

theorem invalid_config_stops:
  "arg_command a \<noteq> Some Update \<Longrightarrow> arg_command a \<noteq> Some Version \<Longrightarrow>
    fst (from_path os parse (arg_config a) \<lparr> hist = [] \<rparr>) = Inl e \<Longrightarrow>
    main os deps parse a \<lparr> hist = [] \<rparr>
      = Some (Inl e, \<lparr> hist = [ReadFile (arg_config a) (os_read os [] (arg_config a))] \<rparr>)"
proof -
  assume a: "arg_command a \<noteq> Some Update" "arg_command a \<noteq> Some Version"
    and fail: "fst (from_path os parse (arg_config a) \<lparr> hist = [] \<rparr>) = Inl e"
  have "snd (from_path os parse (arg_config a) \<lparr> hist = [] \<rparr>)
      = \<lparr> hist = [ReadFile (arg_config a) (os_read os [] (arg_config a))] \<rparr>"
    by (simp add: from_path_def read_file_def call_def bind_io_def or_fail_def io_defs
        split: sum.split option.split)
  with fail have "from_path os parse (arg_config a) \<lparr> hist = [] \<rparr>
      = (Inl e, \<lparr> hist = [ReadFile (arg_config a) (os_read os [] (arg_config a))] \<rparr>)"
    by (metis prod.collapse)
  with a show ?thesis
    by (auto simp: main_def setup_firewall_def print_config_def run_daemon_def bind_io_def
        split: option.split command_kind.split)
qed

theorem invalid_config_stops_witness:
  "\<forall>deps. main quiet_os deps (\<lambda>_. None) (args_of None None) \<lparr> hist = [] \<rparr>
    = Some (Inl (Err ''failed to parse config file''), \<lparr> hist = [ReadFile ''/etc/sshknockd.toml'' (Inr ''text'')] \<rparr>)"
proof -
  have "fst (from_path quiet_os (\<lambda>_. None) ''/etc/sshknockd.toml'' \<lparr> hist = [] \<rparr>) = Inl (Err ''failed to parse config file'')"
    by (simp add: from_path_def read_file_def call_def bind_io_def or_fail_def io_defs quiet_os_def utf8_valid_def
        utf8_next_def utf8_follow_def)
  with invalid_config_stops [of "args_of None None" quiet_os "\<lambda>_. None" "Err ''failed to parse config file''"]
  show ?thesis by (simp add: args_of_def) (simp add: quiet_os_def)
qed

end
