(* ===== verification/Sockets.thy ===== *)
theory Sockets
  imports DaemonSpec
begin

text \<open>
  The order of the calls to the network. No socket is opened before the three preflight commands
  have succeeded, and the loop waits for nothing: it receives only from sockets that were opened
  and made non-blocking before.
\<close>

section \<open>Calls in order\<close>

definition preflight_commands :: "firewall \<Rightarrow> command_spec list" where
  "preflight_commands fw =
     [\<lparr> program = ''ipset'', args = [''list'', fw_ipset_name fw] \<rparr>,
      \<lparr> program = ''ipset'', args = [''list'', fw_ban_ipset_name fw] \<rparr>,
      \<lparr> program = firewall_program fw, args = [''-S''] \<rparr>]"

definition passed :: "command_spec \<Rightarrow> transcript \<Rightarrow> bool" where
  "passed c h = (\<exists>out. out_success out \<and> Exec (program c) (args c) (Inr out) \<in> set h)"

definition usable :: "socket \<Rightarrow> transcript \<Rightarrow> bool" where
  "usable k h = ((\<exists>a. Open k a None \<in> set h) \<and> SetNonblocking k None \<in> set h)"

fun in_order :: "firewall \<Rightarrow> transcript \<Rightarrow> event \<Rightarrow> bool" where
  "in_order fw h (Open k a r) = (\<forall>c\<in>set (preflight_commands fw). passed c h)"
| "in_order fw h (RecvUdp p r) = usable (UdpSocket p) h"
| "in_order fw h (AcceptTcp p r) = usable (TcpListener p) h"
| "in_order fw h (ReadTcp s r) =
     ((\<exists>p a. AcceptTcp p (Inr (s, a)) \<in> set h) \<and> SetNonblocking (TcpStream s) None \<in> set h)"
| "in_order fw h (RecvIcmp r) = (\<exists>v6. usable (IcmpSocket v6) h)"
| "in_order fw h e = True"

definition free :: "event \<Rightarrow> bool" where
  "free e = (\<forall>fw h. in_order fw h e)"

definition ordered :: "firewall \<Rightarrow> machine \<Rightarrow> bool" where
  "ordered fw m = guards (\<lambda>_. True) (in_order fw) (hist m)"

text \<open>After the preflight check, with the events \<open>W\<close> in the transcript.\<close>

definition prepared :: "firewall \<Rightarrow> event set \<Rightarrow> machine \<Rightarrow> bool" where
  "prepared fw W m = (ordered fw m \<and> (\<forall>c\<in>set (preflight_commands fw). passed c (hist m)) \<and> W \<subseteq> set (hist m))"

lemma prepared_ordered: "prepared fw W m \<Longrightarrow> ordered fw m"
  by (simp add: prepared_def)

lemma prepared_mono: "prepared fw W m \<Longrightarrow> W' \<subseteq> W \<Longrightarrow> prepared fw W' m"
  by (auto simp: prepared_def)

lemma passed_append: "passed c h \<Longrightarrow> passed c (h @ es)"
  by (auto simp: passed_def)

lemma prepared_event:
  "prepared fw W m \<Longrightarrow> in_order fw (hist m) e \<Longrightarrow> prepared fw (insert e W) (m\<lparr>hist := hist m @ [e]\<rparr>)"
  by (auto simp: prepared_def ordered_def guards_snoc passed_append)

lemma guards_free: "guards (\<lambda>_. True) (in_order fw) h \<Longrightarrow> list_all free es \<Longrightarrow> guards (\<lambda>_. True) (in_order fw) (h @ es)"
proof (induction es rule: rev_induct)
  case (snoc e es)
  then show ?case using guards_snoc [of "\<lambda>_. True" "in_order fw" "h @ es" e] by (simp add: free_def)
qed simp

lemma upholds_free:
  assumes "emits free f"
  shows "upholds (ordered fw) f" and "upholds (prepared fw W) f"
proof -
  have "\<exists>es. hist (snd (f m)) = hist m @ es \<and> list_all free es" for m
    using assms unfolding emits_def by blast
  then show "upholds (ordered fw) f" and "upholds (prepared fw W) f"
    by (auto simp: upholds_def prepared_def ordered_def)
      (metis guards_free, metis guards_free, metis passed_append, metis Un_iff set_append subsetD)
qed

lemmas triple_free = triple_upholds [OF upholds_free(2) prepared_ordered]

lemma free_simps [simp]:
  "free (Exec p a r1)" "free (Audit l r2)" "free (UnixTime t)" "free (ClockRead now)" "free (Sleep d)"
  "free (ReadFile p r3)" "free (CreateDirAll p r2)" "free (OpenAppend p r2)" "free (SetNonblocking k r2)"
  by (simp_all add: free_def)

lemma free_logs: "logs ev msg e \<Longrightarrow> free e"
  by (auto simp: logs_def split: event.splits)

lemma emits_log_free: "emits free (server_log os ev msg)"
  by (rule emits_server_log) (rule free_logs)

lemma emits_run_free: "emits free (run (system_run_status os) c)"
  by (rule emits_mono [OF sys.emits_run]) auto

lemma emits_process_free: "emits free (process_packet os (system_run_status os) addr proto port n)"
  unfolding process_packet_def Let_def instant_now_def log_packet_telemetry_def add_ip_def ban_ip_def
  by (auto intro!: emits_intros emits_with_srv emits_log_free emits_run_free split: sum.split)

section \<open>Start-up\<close>

lemma run_passed:
  assumes "run (system_run_status os) c m = (Inr (), m')"
  shows "passed c (hist m')"
  using assms
  by (auto simp: run_def system_run_status_def exec_def call_def bind_io_def or_fail_def io_defs passed_def
      split: sum.splits if_splits)

lemma preflight_passed:
  "triple (ordered fw) (preflight fw (system_run_status os)) (\<lambda>_. prepared fw {}) (ordered fw)"
proof (rule tripleI)
  have keep: "upholds (ordered fw) (preflight fw (system_run_status os))"
    unfolding preflight_def by (intro upholds_bind upholds_free(1) emits_run_free)
  fix m r m'
  assume o: "ordered fw m" and step: "preflight fw (system_run_status os) m = (Inr r, m')"
  from step obtain m1 m2 where
    1: "run (system_run_status os) (preflight_commands fw ! 0) m = (Inr (), m1)" and
    2: "run (system_run_status os) (preflight_commands fw ! 1) m1 = (Inr (), m2)" and
    3: "run (system_run_status os) (preflight_commands fw ! 2) m2 = (Inr (), m')"
    unfolding preflight_def preflight_commands_def by (elim bind_io_Inr) (auto simp: numeral_2_eq_2)
  have "passed c (hist m1) \<Longrightarrow> passed c (hist m2)" and "passed c (hist m2) \<Longrightarrow> passed c (hist m')" for c
    using emitsD [OF emits_run_free 2] emitsD [OF emits_run_free 3] passed_append by metis+
  with run_passed [OF 1] run_passed [OF 2] run_passed [OF 3]
  have "\<forall>c\<in>set (preflight_commands fw). passed c (hist m')"
    by (auto simp: preflight_commands_def numeral_2_eq_2)
  with upholdsD [OF keep step o] show "prepared fw {} m'" by (simp add: prepared_def)
next
  fix m e m'
  assume "ordered fw m" and "preflight fw (system_run_status os) m = (Inl e, m')"
  then show "ordered fw m'"
    using upholdsD [of "ordered fw" "preflight fw (system_run_status os)"] upholds_free(1) [OF emits_run_free]
    unfolding preflight_def by (metis upholds_bind)
qed

definition address_of :: "config \<Rightarrow> socket \<Rightarrow> string" where
  "address_of c k = (case k of IcmpSocket v6 \<Rightarrow> [] | _ \<Rightarrow> listen c)"

definition up :: "config \<Rightarrow> socket \<Rightarrow> event set" where
  "up c k = {Open k (address_of c k) None, SetNonblocking k None}"

fun listening :: "config \<Rightarrow> u16 list \<times> u16 list \<times> bool \<Rightarrow> event set" where
  "listening c (udp, tcp, icmp) = (\<Union>p\<in>set udp. up c (UdpSocket p)) \<union> (\<Union>p\<in>set tcp. up c (TcpListener p))
     \<union> (if icmp then up c (IcmpSocket (address_family c = Ipv6)) else {})"

lemma triple_open:
  "triple (prepared fw W) (open_socket os k a) (\<lambda>r. prepared fw (insert (Open k a r) W)) (ordered fw)"
  unfolding open_socket_def by (rule triple_call, rule prepared_event, assumption) (simp add: prepared_def)

lemma triple_nonblocking:
  "triple (prepared fw W) (set_nonblocking os k) (\<lambda>r. prepared fw (insert (SetNonblocking k r) W)) (ordered fw)"
  unfolding set_nonblocking_def by (rule triple_call, rule prepared_event, assumption) simp

lemma triple_none: "(\<And>m. P r m \<Longrightarrow> E m) \<Longrightarrow> triple (P r) (none_or_fail msg r) (\<lambda>_. P None) E"
  by (cases r) (auto simp: none_or_fail_def intro: triple_ret triple_throw)

text \<open>Opening one socket, up to its log line.\<close>

lemma triple_up:
  assumes "triple (prepared fw (W \<union> up c k)) f Q (ordered fw)"
  shows "triple (prepared fw W)
    (bind_io (open_socket os k (address_of c k)) (\<lambda>r. bind_io (none_or_fail msg r) (\<lambda>_.
      bind_io (set_nonblocking os k) (\<lambda>r. bind_io (none_or_fail msg' r) (\<lambda>_.
      bind_io (server_log os ev txt) (\<lambda>_. f)))))) Q (ordered fw)"
proof -
  let ?W = "insert (Open k (address_of c k) None) W"
  have f: "triple (prepared fw (insert (SetNonblocking k None) ?W)) f Q (ordered fw)"
    using assms by (simp add: up_def insert_commute)
  show ?thesis
    by (rule triple_bind [OF triple_open] triple_bind [OF triple_nonblocking]
        triple_bind [OF triple_none [of "\<lambda>r. prepared fw (insert (Open k (address_of c k) r) W)"]]
        triple_bind [OF triple_none [of "\<lambda>r. prepared fw (insert (SetNonblocking k r) ?W)"]]
        triple_bind [OF triple_free [OF emits_log_free]] f prepared_ordered | assumption)+
qed

lemma listening_snoc:
  "listening c (udp @ [p], tcp, icmp) = listening c (udp, tcp, icmp) \<union> up c (UdpSocket p)"
  "listening c (udp, tcp @ [p], icmp) = listening c (udp, tcp, icmp) \<union> up c (TcpListener p)"
  "listening c (udp, tcp, True) = listening c (udp, tcp, False) \<union> up c (IcmpSocket (address_family c = Ipv6))"
  by auto

lemma triple_no_port: "triple (prepared fw W) (bind_io (of_result (Inl e)) f) Q (ordered fw)"
  by (simp add: of_result_def [abs_def] bind_io_def triple_def prepared_def)

lemma bind_port: "bind_io (of_result (Inr p)) f = f p"
  by (simp add: of_result_def flip: ret_def)

lemma triple_bind_listeners:
  "triple (prepared fw (listening c (udp, tcp, icmp))) (bind_listeners os c steps udp tcp icmp)
    (\<lambda>ls. prepared fw (listening c ls)) (ordered fw)"
proof (induction steps arbitrary: udp tcp icmp)
  case Nil
  then show ?case by (simp add: triple_ret)
next
  case (Cons step steps)
  note udp = triple_up [OF Cons.IH [of "udp @ [_]" tcp icmp, unfolded listening_snoc]]
  note tcp = triple_up [OF Cons.IH [of udp "tcp @ [_]" icmp, unfolded listening_snoc]]
  note icmp = triple_up [OF Cons.IH [of udp tcp True, unfolded listening_snoc]]
  show ?case
  proof (cases "step_protocol step")
    case Udp
    then show ?thesis
      using udp Cons.IH
      by (cases "step_port step") (simp_all add: triple_no_port bind_port address_of_def del: listening.simps)
  next
    case Tcp
    then show ?thesis
      using tcp Cons.IH
      by (cases "step_port step") (simp_all add: triple_no_port bind_port address_of_def del: listening.simps)
  next
    case Icmp
    then show ?thesis
      using icmp Cons.IH
      by (cases icmp) (simp_all add: bind_icmp_socket_def bind_assoc address_of_def del: listening.simps)
  qed
qed

section \<open>The loop\<close>

lemma prepared_usable: "prepared fw W m \<Longrightarrow> up c k \<subseteq> W \<Longrightarrow> usable k (hist m)"
  by (auto simp: prepared_def up_def usable_def)

lemma triple_receive:
  assumes "\<And>m r. prepared fw W m \<Longrightarrow> in_order fw (hist m) (ev r)"
  shows "triple (prepared fw W) (call ask ev) (\<lambda>r. prepared fw (insert (ev r) W)) (ordered fw)"
    and "triple (prepared fw W) (call ask ev) (\<lambda>_. prepared fw W) (ordered fw)"
  using prepared_event assms prepared_mono [OF _ subset_insertI] by (intro triple_call; blast)+

lemmas triple_packet = triple_free [OF emits_process_free]

lemma poll_udp_ordered:
  assumes "(\<Union>p\<in>set ports. up c (UdpSocket p)) \<subseteq> W"
  shows "triple (prepared fw W) (poll_udp os (system_run_status os) c' ports) (\<lambda>_. prepared fw W) (ordered fw)"
  using assms
proof (induction ports)
  case Nil
  then show ?case by (simp add: triple_ret)
next
  case (Cons port ports)
  have r: "triple (prepared fw W) (call (\<lambda>h. os_recv_udp os h port) (RecvUdp port)) (\<lambda>_. prepared fw W) (ordered fw)"
    by (rule triple_receive(2)) (use Cons.prems prepared_usable in \<open>fastforce\<close>)
  have IH: "triple (prepared fw W) (poll_udp os (system_run_status os) c' ports) (\<lambda>_. prepared fw W) (ordered fw)"
    using Cons by simp
  show ?case
    unfolding poll_udp.simps
    by (rule triple_bind [OF r])
      (auto intro!: IH triple_bind [OF triple_packet IH] triple_throw prepared_ordered split: sum.split)
qed

lemma poll_icmp_ordered:
  assumes "icmp \<Longrightarrow> up c (IcmpSocket v6) \<subseteq> W"
  shows "triple (prepared fw W) (poll_icmp os (system_run_status os) c' icmp) (\<lambda>_. prepared fw W) (ordered fw)"
proof -
  have r: "triple (prepared fw W) (call (os_recv_icmp os) RecvIcmp) (\<lambda>_. prepared fw W) (ordered fw)" if icmp
    by (rule triple_receive(2)) (use assms that prepared_usable in fastforce)
  have src: "triple (prepared fw W) (of_result (context_opt a msg)) (\<lambda>_. prepared fw W) (ordered fw)" for a msg
    by (simp add: triple_def of_result_def prepared_ordered split: sum.split)
  show ?thesis
    unfolding poll_icmp_def
    by (auto intro!: triple_bind [OF r] triple_bind [OF src] triple_packet triple_throw triple_ret prepared_ordered
        split: sum.split)
qed

definition held :: "pending_tcp list \<Rightarrow> event set" where
  "held ps = (\<Union>p\<in>set ps. {AcceptTcp (pt_port p) (Inr (pt_stream p, pt_addr p)),
     SetNonblocking (TcpStream (pt_stream p)) None})"

lemma held_swap_remove: "i < length ps \<Longrightarrow> held (swap_remove ps i) \<subseteq> held ps"
  using set_swap_remove [of i ps] by (auto simp: held_def)

lemma accept_all_ordered:
  assumes "up c (TcpListener port) \<subseteq> W"
  shows "triple (prepared fw (W \<union> held ps)) (accept_all os now timeout max_pending port ps)
    (\<lambda>ps. prepared fw (W \<union> held ps)) (ordered fw)"
proof (induction "max_pending - length ps" arbitrary: ps rule: less_induct)
  case less
  show ?case
  proof (cases "max_pending \<le> length ps")
    case True
    then show ?thesis by (subst accept_all.simps) (simp add: triple_ret)
  next
    case False
    let ?P = "\<lambda>W'. prepared fw (W' \<union> (W \<union> held ps))"
    have r: "triple (prepared fw (W \<union> held ps)) (call (\<lambda>h. os_accept os h port) (AcceptTcp port))
        (\<lambda>r. prepared fw (insert (AcceptTcp port r) (W \<union> held ps))) (ordered fw)"
      by (rule triple_receive(1)) (use assms prepared_usable in fastforce)
    have again: "triple (prepared fw (insert (SetNonblocking (TcpStream s) None)
          (insert (AcceptTcp port (Inr (s, a))) (W \<union> held ps))))
        (accept_all os now timeout max_pending port
          (ps @ [\<lparr> pt_port = port, pt_stream = s, pt_addr = a, pt_deadline = d \<rparr>]))
        (\<lambda>ps. prepared fw (W \<union> held ps)) (ordered fw)" for s a d
    proof -
      let ?ps = "ps @ [\<lparr> pt_port = port, pt_stream = s, pt_addr = a, pt_deadline = d \<rparr>]"
      have "insert (SetNonblocking (TcpStream s) None) (insert (AcceptTcp port (Inr (s, a))) (W \<union> held ps))
          = W \<union> held ?ps" by (auto simp: held_def)
      then show ?thesis using less [of ?ps] False by simp
    qed
    show ?thesis
      using False
      by (subst accept_all.simps)
        (auto intro!: triple_bind [OF r] triple_bind [OF triple_nonblocking] triple_throw triple_ret again
          triple_bind [OF triple_none [of "\<lambda>q. prepared fw (insert (SetNonblocking (TcpStream _) q)
            (insert (AcceptTcp port (Inr (_, _))) (W \<union> held ps)))"]]
          dest: prepared_ordered intro: prepared_mono split: sum.split option.split)
  qed
qed

lemma accept_ports_ordered:
  assumes "(\<Union>p\<in>set ports. up c (TcpListener p)) \<subseteq> W"
  shows "triple (prepared fw (W \<union> held ps)) (accept_ports os now timeout max_pending ports ps)
    (\<lambda>ps. prepared fw (W \<union> held ps)) (ordered fw)"
  using assms
  by (induction ports arbitrary: ps)
    (auto intro!: triple_ret triple_bind [OF accept_all_ordered [of c]])

lemma read_pending_ordered:
  "triple (prepared fw (W \<union> held ps)) (read_pending os (system_run_status os) c now index ps)
    (\<lambda>ps. prepared fw (W \<union> held ps)) (ordered fw)"
proof (induction "length ps - index" arbitrary: ps index rule: less_induct)
  case less
  let ?I = "\<lambda>ps. prepared fw (W \<union> held ps)" and ?p = "ps ! index"
  show ?case
  proof (cases "index < length ps")
    case False
    then show ?thesis by (subst read_pending.simps) (simp add: triple_ret)
  next
    case True
    then have "?p \<in> set ps" by simp
    then have "AcceptTcp (pt_port ?p) (Inr (pt_stream ?p, pt_addr ?p)) \<in> held ps"
      and "SetNonblocking (TcpStream (pt_stream ?p)) None \<in> held ps"
      unfolding held_def by blast+
    then have "in_order fw (hist m) (ReadTcp (pt_stream ?p) r)" if "?I ps m" for m r
      unfolding in_order.simps using that [unfolded prepared_def] by blast
    then have "triple (?I ps) (call (\<lambda>h. os_read_tcp os h (pt_stream ?p)) (ReadTcp (pt_stream ?p))) (\<lambda>_. ?I ps) (ordered fw)"
      by (rule triple_receive(2))
    then have read: "triple (?I ps) (read_tcp_knock os (pt_stream ?p) (buffer_len c)) (\<lambda>_. ?I ps) (ordered fw)"
      unfolding read_tcp_knock_def
      by (rule triple_bind) (auto intro!: triple_ret triple_throw prepared_ordered split: sum.split)
    have "length (swap_remove ps index) - index < length ps - index" using True by simp
    from less [OF this] have
      drop: "triple (?I ps) (read_pending os (system_run_status os) c now index (swap_remove ps index)) ?I (ordered fw)"
      by (rule triple_weaken) (use held_swap_remove [OF True] in \<open>auto elim!: prepared_mono\<close>)
    have skip: "triple (?I ps) (read_pending os (system_run_status os) c now (Suc index) ps) ?I (ordered fw)"
      using less True by simp
    show ?thesis
      using True
      by (subst read_pending.simps)
        (auto intro!: triple_bind [OF read] triple_bind [OF triple_packet] drop skip split: option.split)
  qed
qed

lemma poll_once_ordered:
  "triple (prepared fw (listening c ls \<union> held ps)) (poll_once os (system_run_status os) c' ls ps)
    (\<lambda>ps. prepared fw (listening c ls \<union> held ps)) (ordered fw)"
proof -
  obtain udp tcp icmp where ls: "ls = (udp, tcp, icmp)" by (cases ls)
  have free: "emits free (instant_now os)" "emits free (sleep d)" for d
    by (simp_all add: instant_now_def sleep_def emits_call)
  show ?thesis
    unfolding poll_once_def ls prod.case
    by (rule triple_bind [OF poll_udp_ordered [where c = c]] triple_bind [OF triple_free [OF free(1)]]
        triple_bind [OF accept_ports_ordered [where c = c]] triple_bind [OF read_pending_ordered]
        triple_bind [OF poll_icmp_ordered [where c = c and ?v6.0 = "address_family c = Ipv6"]]
        triple_bind [OF triple_free [OF free(2)]] triple_ret | assumption | force)+
qed

lemma poll_rounds_ordered:
  "triple (prepared fw (listening c ls \<union> held ps)) (poll_rounds os (system_run_status os) c' ls n ps)
    (\<lambda>ps. prepared fw (listening c ls \<union> held ps)) (ordered fw)"
  by (induction n arbitrary: ps) (auto intro: triple_ret triple_bind [OF poll_once_ordered])

lemma start_ordered:
  "triple (\<lambda>m. ordered fw m \<and> srv_firewall (srv m) = fw \<and> srv_config (srv m) = c)
    (server_start os (system_run_status os)) (\<lambda>ls. prepared fw (listening c ls)) (ordered fw)"
    (is "triple ?I _ _ _")
proof -
  have log: "triple ?I (server_log os ev msg) (\<lambda>_. ?I) (ordered fw)" for ev msg
  proof (rule triple_upholds)
    show "upholds ?I (server_log os ev msg)"
      using upholds_free(1) [OF emits_log_free, of fw os ev msg] frame_server_log [of os ev msg]
      unfolding upholds_def frame_def by (metis srv_more)
  qed simp
  have get: "triple ?I (gets srv) (\<lambda>s m. ordered fw m \<and> srv_firewall s = fw \<and> srv_config s = c) (ordered fw)"
    by (simp add: triple_def gets_def)
  have fail: "triple (ordered fw) (bind_io (server_log os ev msg) (\<lambda>_. throw e)) Q (ordered fw)" for ev msg e Q
    by (rule triple_bind [OF triple_upholds [OF upholds_free(1) [OF emits_log_free]]])
      (auto intro: triple_throw)
  have alloc: "triple (prepared fw W) (alloc_bytes n) (\<lambda>_. prepared fw W) (ordered fw)" for W n
    by (auto simp: alloc_bytes_def intro!: triple_ret triple_throw prepared_ordered)
  have none: "listening c ([], [], False) = {}" by simp
  have rest: "triple (prepared fw {}) (bind_io (server_log os ev msg) (\<lambda>_.
      bind_io (bind_listeners os c (sequence (knock c)) [] [] False) (\<lambda>ls.
      bind_io (alloc_bytes (buffer_len c)) (\<lambda>_. bind_io (alloc_bytes (icmp_buffer_len c)) (\<lambda>_. ret ls)))))
      (\<lambda>ls. prepared fw (listening c ls)) (ordered fw)" for ev msg
    by (rule triple_bind [OF triple_free [OF emits_log_free]]
        triple_bind [OF triple_bind_listeners [of fw c "[]" "[]" False, unfolded none]]
        triple_bind [OF alloc] triple_ret | assumption)+
  have pre: "triple (ordered fw) (attempt (preflight fw (system_run_status os)))
      (\<lambda>r. case r of Inl e \<Rightarrow> ordered fw | Inr x \<Rightarrow> prepared fw {}) (ordered fw)"
    by (rule triple_attempt [OF preflight_passed])
  let ?next = "\<lambda>c r. case r of
        Inl e \<Rightarrow> bind_io (server_log os ''firewall_preflight_failed'' (''error='' @ e)) (\<lambda>_. throw (Err e))
      | Inr _ \<Rightarrow> bind_io (server_log os ''firewall_preflight'' ''completed'') (\<lambda>_.
         bind_io (bind_listeners os c (sequence (knock c)) [] [] False) (\<lambda>ls.
         bind_io (alloc_bytes (buffer_len c)) (\<lambda>_. bind_io (alloc_bytes (icmp_buffer_len c)) (\<lambda>_. ret ls))))"
  have "triple (case r of Inl e \<Rightarrow> ordered fw | Inr x \<Rightarrow> prepared fw {}) (?next c r)
      (\<lambda>ls. prepared fw (listening c ls)) (ordered fw)" for r
    by (cases r) (simp_all only: sum.case fail rest)
  from triple_bind [OF pre this]
  have "triple (\<lambda>m. ordered fw m \<and> srv_firewall s = fw \<and> srv_config s = c)
      (bind_io (attempt (preflight (srv_firewall s) (system_run_status os))) (?next (srv_config s)))
      (\<lambda>ls. prepared fw (listening c ls)) (ordered fw)" for s
    by (auto simp: triple_def)
  then show ?thesis
    unfolding server_start_def
    by (intro triple_bind [OF log] triple_bind [OF get])
qed

lemma emits_load_free: "emits free (bind_io (from_path os parse path) (server_new os))"
  unfolding from_path_def server_new_def logger_new_def read_file_def
  by (auto intro!: emits_intros split: option.split)

lemma daemon_ordered:
  assumes "bind_io (from_path os parse path) (server_new os) \<lparr> hist = [] \<rparr> = (Inr s, w)"
    and "server_rounds os (system_run_status os) n (machine_of w s) = (r, m)"
  shows "ordered (srv_firewall s) m"
proof -
  let ?fw = "srv_firewall s" and ?c = "srv_config s"
  from emitsD [OF emits_load_free assms(1)] have "list_all free (hist w)" by auto
  from guards_free [OF guards_Nil this] have "ordered ?fw (machine_of w s)" by (simp add: ordered_def machine_of_def)
  then have P: "ordered ?fw (machine_of w s) \<and> srv_firewall (srv (machine_of w s)) = ?fw
      \<and> srv_config (srv (machine_of w s)) = ?c" by (simp add: machine_of_def)
  have get: "triple (prepared ?fw W) (gets g) (\<lambda>_. prepared ?fw W) (ordered ?fw)" for W and g :: "machine \<Rightarrow> 'z"
    by (simp add: triple_def gets_def)
  have rounds: "triple (prepared ?fw (listening ?c ls)) (poll_rounds os (system_run_status os) c' ls n [])
      (\<lambda>ps. prepared ?fw (listening ?c ls \<union> held ps)) (ordered ?fw)" for c' ls
    using poll_rounds_ordered [of ?fw ?c ls "[]"] by (simp add: held_def)
  have "triple (\<lambda>m. ordered ?fw m \<and> srv_firewall (srv m) = ?fw \<and> srv_config (srv m) = ?c)
      (server_rounds os (system_run_status os) n) (\<lambda>_. ordered ?fw) (ordered ?fw)"
    unfolding server_rounds_def
    by (rule triple_bind [OF start_ordered], rule triple_bind [OF get], rule triple_weaken [OF rounds])
      (auto intro: prepared_ordered)
  from triple_ok [OF this P] triple_fail [OF this P] assms(2) show ?thesis by (cases r) auto
qed

text \<open>
  C6: the daemon listens only behind a checked firewall, and never blocks on a peer. In any run,
  from loading the configuration through any number of rounds: a socket is opened only after
  \<open>ipset list\<close> succeeded for both sets and the rules could be listed; UDP and ICMP are received,
  and connections accepted, only on a socket that was opened and made non-blocking before; and data
  is read only from a connection that was accepted and made non-blocking before.
\<close>

theorem sockets_in_order:
  "bind_io (from_path os parse path) (server_new os) \<lparr> hist = [] \<rparr> = (Inr s, w) \<Longrightarrow>
    server_rounds os (system_run_status os) n (machine_of w s) = (r, m) \<Longrightarrow>
    hist m = h1 @ e # h2 \<Longrightarrow> in_order (srv_firewall s) h1 e"
  using daemon_ordered [of os parse path s w n r m] guardsD [of "\<lambda>_. True" "in_order (srv_firewall s)" h1 e h2]
  by (simp add: ordered_def)

theorem sockets_in_order_witness:
  "\<exists>m m' h1 h2. server_rounds knocking_os (system_run_status knocking_os) 1 m = (Inr [], m')
    \<and> hist m' = h1 @ RecvUdp 40101 (Inr (64, knocker)) # h2 \<and> usable (UdpSocket 40101) h1"
proof -
  obtain w where w: "bind_io (from_path knocking_os (\<lambda>_. Some example_raw) ''/etc/sshknockd.toml'')
      (server_new knocking_os) \<lparr> hist = [] \<rparr> = (Inr example_server, w)"
    using load_example_ok by (auto simp: load_example_def)
  have "srv (machine_of w example_server) = example_server" by (simp add: machine_of_def)
  from knocking_rounds [OF this] obtain m h h2 r where
    m: "server_rounds knocking_os (system_run_status knocking_os) 1 (machine_of w example_server) = (Inr [], m)"
      "hist m = h @ Exec ''ipset'' (args (add_ip_command example_firewall (fst knocker))) r # h2"
      "RecvUdp 40101 (Inr (64, knocker)) \<in> set h" by blast
  then obtain h1 h3 where h: "hist m = h1 @ RecvUdp 40101 (Inr (64, knocker)) # h3"
    by (metis append_Cons append_assoc split_list)
  from sockets_in_order [OF w m(1) h] have "usable (UdpSocket 40101) h1" by simp
  with m(1) h show ?thesis by blast
qed

end
