(* ===== verification/Invariants.thy ===== *)
theory Invariants
  imports DaemonSpec
begin

text \<open>
  Invariants of the running daemon. The locale \<open>server_invariant\<close> asks that the handling of one
  packet keeps a property of the machine, and that the other calls of start-up and of the poll loop
  keep it as well; then every run keeps it.
\<close>

section \<open>The events between packets\<close>

definition start_names :: "string set" where
  "start_names = {''daemon_start'', ''firewall_preflight'', ''firewall_preflight_failed'',
     ''bind_udp'', ''bind_tcp'', ''bind_icmp''}"

fun background :: "event \<Rightarrow> bool" where
  "background (Exec p a r) = (a = [] \<or> hd a \<noteq> ''add'')"
| "background (Audit l r) = (\<exists>ts ev msg. ev \<in> start_names \<and> l = audit_line ts ev msg)"
| "background e = True"

lemma background_logs: "logs ev msg e \<Longrightarrow> ev \<in> start_names \<Longrightarrow> background e"
  by (cases e) (auto simp: logs_def)

lemma emits_background_log: "ev \<in> start_names \<Longrightarrow> emits background (server_log os ev msg)"
  by (rule emits_server_log) (erule background_logs)

lemma emits_background_run:
  "args cmd = [] \<or> hd (args cmd) \<noteq> ''add'' \<Longrightarrow> emits background (run (system_run_status os) cmd)"
  by (rule emits_mono [OF sys.emits_run]) auto

section \<open>Runs keep an invariant\<close>

locale server_invariant =
  fixes P :: "machine \<Rightarrow> bool" and E :: "machine \<Rightarrow> bool" and os :: os
  assumes packet: "triple P (process_packet os (system_run_status os) addr proto port n) (\<lambda>_. P) E"
    and event: "P m \<Longrightarrow> background e \<Longrightarrow> P (m\<lparr>hist := hist m @ [e]\<rparr>)"
    and fail: "P m \<Longrightarrow> E m"
begin

lemma events: "P m \<Longrightarrow> list_all background es \<Longrightarrow> P (m\<lparr>hist := hist m @ es\<rparr>)"
proof (induction es rule: rev_induct)
  case (snoc e es)
  then show ?case using event [of "m\<lparr>hist := hist m @ es\<rparr>" e] by (cases m) simp
qed (cases m, simp)

lemma outside:
  assumes "emits background f" and "frame f"
  shows "triple P f (\<lambda>_. P) E"
proof (rule triple_upholds [OF _ fail])
  show "upholds P f"
    unfolding upholds_def
  proof (intro allI impI)
    fix m
    assume m: "P m"
    obtain es where es: "hist (snd (f m)) = hist m @ es" "list_all background es"
      using assms(1) unfolding emits_def by blast
    have "srv (snd (f m)) = srv m" using assms(2) unfolding frame_def by (blast intro: srv_more)
    then have "snd (f m) = m\<lparr>hist := hist m @ es\<rparr>" using es(1) by (cases m; cases "snd (f m)") simp
    then show "P (snd (f m))" using events [OF m es(2)] by simp
  qed
qed

lemma outside_call: "(\<And>r. background (ev r)) \<Longrightarrow> triple P (call ask ev) (\<lambda>_. P) E"
  by (intro outside emits_call frame_leaf)

lemma outside_log: "ev \<in> start_names \<Longrightarrow> triple P (server_log os' ev msg) (\<lambda>_. P) E"
  by (intro outside emits_background_log frame_server_log)

lemma pure: "triple P (none_or_fail msg r) (\<lambda>_. P) E" "triple P (of_result x) (\<lambda>_. P) E"
  "triple P (gets g) (\<lambda>_. P) E" "triple P (alloc_bytes n) (\<lambda>_. P) E"
  using fail by (auto simp: triple_def none_or_fail_def of_result_def gets_def alloc_bytes_def ret_def throw_def
      split: option.split sum.split)

lemma poll_udp: "triple P (poll_udp os (system_run_status os) c ports) (\<lambda>_. P) E"
proof (induction ports)
  case (Cons port ports)
  then show ?case
    unfolding poll_udp.simps
    by (intro triple_bind [OF outside_call])
      (auto intro!: triple_bind [OF packet] triple_throw fail split: sum.split)
qed (simp add: triple_ret)

lemma nonblocking: "triple P (set_nonblocking os k) (\<lambda>_. P) E"
  unfolding set_nonblocking_def by (rule outside_call) simp

lemma accept_all: "triple P (accept_all os now timeout max_pending port ps) (\<lambda>_. P) E"
proof (induction "max_pending - length ps" arbitrary: ps rule: less_induct)
  case less
  show ?case
  proof (cases "max_pending \<le> length ps")
    case True
    then show ?thesis by (subst accept_all.simps) (simp add: triple_ret)
  next
    case False
    then have again: "triple P (accept_all os now timeout max_pending port (ps @ [p])) (\<lambda>_. P) E" for p
      using less [of "ps @ [p]"] by simp
    show ?thesis
      using False
      by (subst accept_all.simps)
        (auto intro!: triple_bind [OF outside_call] triple_bind [OF nonblocking] triple_bind [OF pure(1)]
          triple_throw triple_ret again fail split: sum.split option.split)
  qed
qed

lemma accept_ports: "triple P (accept_ports os now timeout max_pending ports ps) (\<lambda>_. P) E"
  by (induction ports arbitrary: ps) (auto intro: triple_ret triple_bind [OF accept_all])

lemma read_knock: "triple P (read_tcp_knock os stream n) (\<lambda>_. P) E"
  unfolding read_tcp_knock_def
  by (intro triple_bind [OF outside_call]) (auto intro!: triple_ret triple_throw fail split: sum.split)

lemma read_pending: "triple P (read_pending os (system_run_status os) c now index ps) (\<lambda>_. P) E"
proof (induction "length ps - index" arbitrary: ps index rule: less_induct)
  case less
  show ?case
  proof (cases "index < length ps")
    case False
    then show ?thesis by (subst read_pending.simps) (simp add: triple_ret)
  next
    case True
    then have "length (swap_remove ps index) - index < length ps - index" "length ps - Suc index < length ps - index"
      by simp_all
    note again = less [OF this(1)] less [OF this(2)]
    show ?thesis
      using True
      by (subst read_pending.simps)
        (auto intro!: triple_bind [OF read_knock] triple_bind [OF packet] again split: option.split)
  qed
qed

lemma poll_icmp: "triple P (poll_icmp os (system_run_status os) c icmp) (\<lambda>_. P) E"
  unfolding poll_icmp_def
  by (auto intro!: triple_bind [OF outside_call] triple_bind [OF pure(2)] packet triple_ret triple_throw fail
      split: sum.split)

lemma poll_once: "triple P (poll_once os (system_run_status os) c ls ps) (\<lambda>_. P) E"
proof -
  have "triple P (instant_now os) (\<lambda>_. P) E" and "triple P (sleep d) (\<lambda>_. P) E" for d
    unfolding instant_now_def sleep_def by (rule outside_call, simp)+
  then show ?thesis
    unfolding poll_once_def
    by (cases ls) (auto intro!: triple_bind [OF poll_udp] triple_bind [OF accept_ports] triple_bind [OF read_pending]
        triple_bind [OF poll_icmp] triple_ret intro: triple_bind)
qed

lemma poll_rounds: "triple P (poll_rounds os (system_run_status os) c ls n ps) (\<lambda>_. P) E"
  by (induction n arbitrary: ps) (auto intro: triple_ret triple_bind [OF poll_once])

lemma open_call: "triple P (open_socket os k a) (\<lambda>_. P) E"
  unfolding open_socket_def by (rule outside_call) simp

lemma bind_listeners: "triple P (bind_listeners os c steps udp tcp icmp) (\<lambda>_. P) E"
proof (induction steps arbitrary: udp tcp icmp)
  case (Cons step steps)
  then show ?case
    by (auto simp: bind_icmp_socket_def bind_assoc start_names_def intro!: triple_bind [OF pure(2)] triple_bind [OF open_call]
        triple_bind [OF pure(1)] triple_bind [OF nonblocking] triple_bind [OF outside_log] split: protocol.split)
qed (simp add: triple_ret)

lemma rounds: "triple P (server_rounds os (system_run_status os) n) (\<lambda>_. P) E"
proof -
  have "emits background (preflight fw (system_run_status os) :: (machine, unit) io)" for fw
    unfolding preflight_def by (intro emits_bind emits_background_run) simp_all
  moreover have "frame (preflight fw (system_run_status os) :: (machine, unit) io)" for fw
    by (rule msys.frame_preflight)
  ultimately have pre: "triple P (attempt (preflight fw (system_run_status os))) (\<lambda>_. P) E" for fw
    by (intro outside emits_attempt frame_attempt)
  have start: "triple P (server_start os (system_run_status os)) (\<lambda>_. P) E"
    unfolding server_start_def
    by (auto simp: start_names_def intro!: triple_bind [OF outside_log] triple_bind [OF pure(3)]
        triple_bind [OF pre] triple_bind [OF bind_listeners] triple_bind [OF pure(4)] triple_throw triple_ret fail
        split: sum.split)
  show ?thesis
    unfolding server_rounds_def
    by (intro triple_bind [OF start] triple_bind [OF pure(3)] poll_rounds)
qed

end

end
