(* ===== verification/AuditSpec.thy ===== *)
theory AuditSpec
  imports Invariants
begin

text \<open>
  The audit trail of a running daemon: every address it has allowed was allowed by a command that
  succeeded, and the next thing the daemon did was to write the line that says so.
\<close>

section \<open>Audited transcripts\<close>

definition allow_line :: "config \<Rightarrow> ip_addr \<Rightarrow> nat option \<Rightarrow> string" where
  "allow_line c ip t = audit_line (case t of None \<Rightarrow> 0 | Some s \<Rightarrow> s) ''ssh_allow''
     (''source_ip='' @ ip_to_string ip @ '' allow_timeout_seconds='' @ dec (unat (ip_timeout c)))"

definition audited_allow :: "config \<Rightarrow> firewall \<Rightarrow> event \<Rightarrow> transcript \<Rightarrow> bool" where
  "audited_allow c fw e later = (\<exists>ip out t rest. out_success out
     \<and> e = Exec ''ipset'' (args (add_ip_command fw ip)) (Inr out)
     \<and> later = UnixTime t # Audit (allow_line c ip t) None # rest)"

definition audited :: "config \<Rightarrow> firewall \<Rightarrow> transcript \<Rightarrow> bool" where
  "audited c fw h = (\<forall>h1 e h2. h = h1 @ e # h2 \<longrightarrow> allow_of fw e \<longrightarrow> audited_allow c fw e h2)"

lemma audited_allow_more: "audited_allow c fw e h \<Longrightarrow> audited_allow c fw e (h @ h')"
  by (auto simp: audited_allow_def)

lemma audited_append:
  assumes "audited c fw h" and "audited c fw h'"
  shows "audited c fw (h @ h')"
  unfolding audited_def
proof (intro allI impI)
  fix h1 e h2
  assume split: "h @ h' = h1 @ e # h2" and e: "allow_of fw e"
  from split show "audited_allow c fw e h2"
  proof (cases rule: append_eq_append_conv2 [THEN iffD1, elim_format])
    assume "\<exists>us. h = h1 @ us \<and> us @ h' = e # h2 \<or> h @ us = h1 \<and> h' = us @ e # h2"
    then obtain us where us: "h = h1 @ us \<and> us @ h' = e # h2 \<or> h @ us = h1 \<and> h' = us @ e # h2" ..
    show ?thesis
    proof (cases "us = []")
      case True
      then have "h' = [] @ e # h2" using us by auto
      then show ?thesis using assms(2) e unfolding audited_def by blast
    next
      case False
      from us show ?thesis
      proof
        assume l: "h = h1 @ us \<and> us @ h' = e # h2"
        with False obtain us' where "us = e # us'" "h2 = us' @ h'" by (cases us) auto
        with l assms(1) e audited_allow_more show ?thesis unfolding audited_def by blast
      next
        assume "h @ us = h1 \<and> h' = us @ e # h2"
        then show ?thesis using assms(2) e unfolding audited_def by blast
      qed
    qed
  qed
qed

lemma audited_none: "list_all (\<lambda>e. \<not> allow_of fw e) es \<Longrightarrow> audited c fw es"
  by (auto simp: audited_def list_all_iff)

lemma audited_quiet: "audited c fw h \<Longrightarrow> list_all (\<lambda>e. \<not> allow_of fw e) es \<Longrightarrow> audited c fw (h @ es)"
  by (rule audited_append [OF _ audited_none])

lemma audited_pair:
  assumes "out_success out"
  shows "audited c fw [Exec ''ipset'' (args (add_ip_command fw ip)) (Inr out), UnixTime t, Audit (allow_line c ip t) None]"
  unfolding audited_def
proof (intro allI impI)
  fix h1 e h2
  assume split: "[Exec ''ipset'' (args (add_ip_command fw ip)) (Inr out), UnixTime t, Audit (allow_line c ip t) None] = h1 @ e # h2"
    and "allow_of fw e"
  then have "h1 = []" by (cases h1; cases "tl h1"; cases "tl (tl h1)") (auto simp: allow_of_def)
  with split assms show "audited_allow c fw e h2" by (auto simp: audited_allow_def)
qed

section \<open>The daemon keeps the trail\<close>

definition trail :: "config \<Rightarrow> firewall \<Rightarrow> machine \<Rightarrow> bool" where
  "trail c fw m = (fw_ipset_name fw \<noteq> fw_ban_ipset_name fw \<and> srv_config (srv m) = c \<and> srv_firewall (srv m) = fw
     \<and> audited c fw (hist m))"

abbreviation kept :: "config \<Rightarrow> firewall \<Rightarrow> (machine, 'a) io \<Rightarrow> bool" where
  "kept c fw f \<equiv> triple (trail c fw) f (\<lambda>_. trail c fw) (\<lambda>_. True)"

lemma kept_quiet:
  assumes "emits (\<lambda>e. \<not> allow_of fw e) f" and "keeps (\<lambda>s. srv_config s = c \<and> srv_firewall s = fw) f"
  shows "kept c fw f"
proof (rule triple_upholds)
  show "upholds (trail c fw) f"
    unfolding upholds_def
  proof (intro allI impI)
    fix m
    assume m: "trail c fw m"
    obtain es where "hist (snd (f m)) = hist m @ es" "list_all (\<lambda>e. \<not> allow_of fw e) es"
      using assms(1) unfolding emits_def by blast
    then show "trail c fw (snd (f m))"
      using m assms(2) audited_quiet [of c fw "hist m" es] unfolding trail_def keeps_def by auto
  qed
qed simp

lemma logs_not_allow: "logs ev msg e \<Longrightarrow> \<not> allow_of fw e"
  by (auto simp: logs_def allow_of_def split: event.splits)

lemma kept_log: "kept c fw (server_log os ev msg)"
  by (rule kept_quiet [OF emits_server_log keeps_frame [OF frame_server_log]]) (rule logs_not_allow)

lemma kept_telemetry: "kept c fw (log_packet_telemetry os ip oc now)"
proof (rule kept_quiet)
  show "emits (\<lambda>e. \<not> allow_of fw e) (log_packet_telemetry os ip oc now)"
    by (rule emits_mono [OF emits_telemetry]) (auto simp: telemetry_event_def logs_not_allow)
  show "keeps (\<lambda>s. srv_config s = c \<and> srv_firewall s = fw) (log_packet_telemetry os ip oc now)"
    unfolding log_packet_telemetry_def
    by (intro keeps_bind keeps_with_srv) (auto simp: telemetry_allow_def split: prod.splits intro!: keeps_intros)
qed

lemma kept_remember: "kept c fw (try_srv (\<lambda>s. remember_banned_source s ip now))"
  by (rule kept_quiet [OF emits_with_srv(2) keeps_try_srv])
    (use remember_fields in \<open>fastforce simp: same_core_def\<close>)

text \<open>An allow command that succeeds, and its line.\<close>

lemma run_ok_hist:
  "run (system_run_status os) cmd m = (Inr (), m') \<Longrightarrow>
    \<exists>out. out_success out \<and> m' = m\<lparr>hist := hist m @ [Exec (program cmd) (args cmd) (Inr out)]\<rparr>"
  by (auto simp: run_def system_run_status_def exec_def call_def bind_io_def or_fail_def io_defs
      split: sum.splits if_splits)

lemma log_ok_hist:
  "server_log os ev msg m = (Inr (), m') \<Longrightarrow>
    \<exists>t. m' = m\<lparr>hist := hist m @ [UnixTime t, Audit (audit_line (case t of None \<Rightarrow> 0 | Some s \<Rightarrow> s) ev msg) None]\<rparr>"
  by (auto simp: server_log_def log_def bind_io_def gets_def unix_time_def write_audit_def call_def none_or_fail_def
      Let_def ret_def throw_def split: if_splits option.splits)

lemma kept_allow:
  "kept c fw (bind_io (attempt (add_ip fw (system_run_status os) ip)) (\<lambda>r. case r of
     Inl e \<Rightarrow> bind_io (server_log os ev (msg e)) (\<lambda>_. throw (Err e))
   | Inr _ \<Rightarrow> server_log os ''ssh_allow''
       (''source_ip='' @ ip_to_string ip @ '' allow_timeout_seconds='' @ dec (unat (ip_timeout c)))))" (is "kept c fw ?f")
proof (rule tripleI)
  fix m r m'
  assume m: "trail c fw m" and step: "?f m = (Inr r, m')"
  from step obtain x m1 where 1: "attempt (add_ip fw (system_run_status os) ip) m = (Inr x, m1)"
    and 2: "(case x of Inl e \<Rightarrow> bind_io (server_log os ev (msg e)) (\<lambda>_. throw (Err e))
      | Inr _ \<Rightarrow> server_log os ''ssh_allow'' (''source_ip='' @ ip_to_string ip
          @ '' allow_timeout_seconds='' @ dec (unat (ip_timeout c)))) m1 = (Inr r, m')"
    by (rule bind_io_Inr)
  from 2 obtain u where x: "x = Inr u"
    by (cases x) (auto simp: bind_io_def throw_def split: prod.splits sum.splits)
  with 1 have "run (system_run_status os) (add_ip_command fw ip) m = (Inr (), m1)"
    by (auto simp: attempt_def add_ip_def split: prod.splits sum.splits failure.splits)
  from run_ok_hist [OF this] obtain out where
    m1: "out_success out" "m1 = m\<lparr>hist := hist m @ [Exec ''ipset'' (args (add_ip_command fw ip)) (Inr out)]\<rparr>"
    by (auto simp: add_ip_command_def)
  from 2 x log_ok_hist [of os "''ssh_allow''" _ m1 m'] obtain t where
    "m' = m1\<lparr>hist := hist m1 @ [UnixTime t, Audit (allow_line c ip t) None]\<rparr>"
    by (auto simp: allow_line_def)
  with m m1 audited_append [OF _ audited_pair [OF m1(1)]] show "trail c fw m'" by (simp add: trail_def)
qed simp

lemma kept_react:
  assumes "srv_config s = c" and "srv_firewall s = fw" and "fw_ipset_name fw \<noteq> fw_ban_ipset_name fw"
  shows "kept c fw (react os (system_run_status os) s ip now v)"
proof (cases v)
  case Dropped
  then show ?thesis by (simp add: triple_ret)
next
  case Banning
  have ban: "kept c fw (attempt (ban_ip fw (system_run_status os) ip))"
    unfolding ban_ip_def
    by (rule kept_quiet [OF emits_attempt [OF emits_mono [OF msys.emits_runs]] keeps_attempt [OF msys.keeps_run]])
      (use assms(3) in \<open>auto simp: runs_def allow_of_def ban_ip_command_def\<close>)
  show ?thesis
    unfolding Banning react.simps assms
    by (rule triple_bind [OF kept_remember triple_bind [OF ban]]) (auto intro: kept_log split: sum.split)
next
  case (Outcome oc)
  show ?thesis
    unfolding Outcome react.simps assms
    by (intro triple_bind [OF kept_telemetry] triple_if kept_allow) (simp add: triple_ret)
qed

interpretation audit: server_invariant "trail c fw" "\<lambda>_. True" os
proof unfold_locales
  fix addr proto port n
  show "kept c fw (process_packet os (system_run_status os) addr proto port n)"
  proof (rule triple_pre)
    fix m
    assume m: "trail c fw m"
    let ?now = "os_now os (hist m)"
    let ?d = "decide (packet_of addr proto port n) ?now (srv m)"
    have "trail c fw (m\<lparr>hist := hist m @ [ClockRead ?now], srv := snd ?d\<rparr>)"
      using m audited_quiet [of c fw "hist m" "[ClockRead ?now]"] by (simp add: trail_def allow_of_def)
    moreover have "kept c fw (react os (system_run_status os) (snd ?d) (fst addr) ?now (fst ?d))"
      by (rule kept_react) (use m in \<open>simp_all add: trail_def\<close>)
    ultimately show "triple (\<lambda>t. t = m) (process_packet os (system_run_status os) addr proto port n)
        (\<lambda>_. trail c fw) (\<lambda>_. True)"
      unfolding triple_def process_packet_eq Let_def by simp
  qed
next
  fix m and e :: event
  assume "trail c fw m" and "background e"
  moreover from this(2) have "\<not> allow_of fw e" by (cases e) (auto simp: allow_of_def split: list.splits)
  ultimately show "trail c fw (m\<lparr>hist := hist m @ [e]\<rparr>)"
    using audited_quiet [of c fw "hist m" "[e]"] by (simp add: trail_def)
qed simp

lemma daemon_audited:
  assumes load: "bind_io (from_path os parse path) (server_new os) \<lparr> hist = [] \<rparr> = (Inr s, w)"
    and names: "ipset_name (srv_config s) \<noteq> ban_ipset_name (srv_config s)"
    and run: "server_rounds os (system_run_status os) n (machine_of w s) = (Inr ps, m)"
  shows "audited (srv_config s) (srv_firewall s) (hist m)"
proof -
  obtain c fw lg where c: "s = server_of c fw lg"
    and fw: "firewall_new (ipset_name c) (ban_ipset_name c) (ip_timeout c) (ban_timeout c)
      (firewall_backend c) (address_family c) = Inr fw"
    using load_ok [OF load] by metis
  obtain es where es: "hist w = es" "list_all (plain fw) es"
    using emitsD [OF emits_load load] by auto
  then have "list_all (\<lambda>e. \<not> allow_of fw e) (hist w)" by (simp add: list_all_iff plain_def)
  from audited_none [OF this] have "trail c fw (machine_of w s)"
    using names firewall_new_ok(1) [OF fw] by (simp add: trail_def machine_of_def c server_of_def)
  from triple_ok [OF audit.rounds this run] show ?thesis by (simp add: trail_def c server_of_def)
qed

text \<open>
  C5: nobody is let in without a record, when the configuration gives the allow set and the ban set
  different names (with one name for both, which validation accepts, a ban adds to the allow set
  too). After any number of rounds of a daemon that runs, for every command in its transcript that
  adds something to the allow set: the command is the allow command of an address and it
  succeeded, and the next things the daemon did were to read the time of day and to write, with
  success, the audit line that names this address and the configured timeout.
\<close>

theorem allow_audited:
  "bind_io (from_path os parse path) (server_new os) \<lparr> hist = [] \<rparr> = (Inr s, w) \<Longrightarrow>
    ipset_name (srv_config s) \<noteq> ban_ipset_name (srv_config s) \<Longrightarrow>
    server_rounds os (system_run_status os) n (machine_of w s) = (Inr ps, m) \<Longrightarrow>
    hist m = h1 @ e # h2 \<Longrightarrow> allow_of (srv_firewall s) e \<Longrightarrow>
    \<exists>ip out t rest. out_success out \<and> e = Exec ''ipset'' (args (add_ip_command (srv_firewall s) ip)) (Inr out)
      \<and> h2 = UnixTime t # Audit (allow_line (srv_config s) ip t) None # rest"
  using daemon_audited [of os parse path s w n ps m] by (auto simp: audited_def audited_allow_def)

theorem allow_audited_witness:
  "\<exists>m0 m h1 h2 r t rest. server_rounds knocking_os (system_run_status knocking_os) 1 m0 = (Inr [], m)
    \<and> hist m = h1 @ Exec ''ipset'' (args (add_ip_command example_firewall (fst knocker))) r # h2
    \<and> h2 = UnixTime t # Audit (allow_line example_config (fst knocker) t) None # rest"
proof -
  obtain w where w: "bind_io (from_path knocking_os (\<lambda>_. Some example_raw) ''/etc/sshknockd.toml'')
      (server_new knocking_os) \<lparr> hist = [] \<rparr> = (Inr example_server, w)"
    using load_example_ok by (auto simp: load_example_def)
  have "srv (machine_of w example_server) = example_server" by (simp add: machine_of_def)
  from knocking_rounds [OF this] obtain m h1 h2 r where
    m: "server_rounds knocking_os (system_run_status knocking_os) 1 (machine_of w example_server) = (Inr [], m)"
      "hist m = h1 @ Exec ''ipset'' (args (add_ip_command example_firewall (fst knocker))) r # h2" by blast
  have "allow_of example_firewall (Exec ''ipset'' (args (add_ip_command example_firewall (fst knocker))) r)"
    by (simp add: allow_of_def add_ip_command_def)
  moreover have "ipset_name example_config \<noteq> ban_ipset_name example_config"
    by (simp add: example_config_simps)
  ultimately obtain ip t rest where "args (add_ip_command example_firewall (fst knocker)) = args (add_ip_command example_firewall ip)"
    "h2 = UnixTime t # Audit (allow_line example_config ip t) None # rest"
    using allow_audited [OF w _ m] by (auto simp: example_server_simps)
  moreover from this(1) have "fst knocker = ip"
    using add_ip_command_inj [of example_firewall "fst knocker" ip] by (simp add: add_ip_command_def)
  ultimately have "h2 = UnixTime t # Audit (allow_line example_config (fst knocker) t) None # rest" by simp
  with m show ?thesis by blast
qed

end
