(* ===== verification/Telemetry.thy ===== *)
theory Telemetry
  imports Invariants
begin

text \<open>
  How much packet telemetry a running daemon writes. Each logged packet takes a token of the
  telemetry limiter and writes two lines, so the lines are bounded by twice the tokens that the
  limiter has handed out.
\<close>

section \<open>What a bucket has handed out\<close>

text \<open>
  \<open>paid l t0 T n x\<close>: the bucket \<open>x\<close>, last used at \<open>T\<close>, has handed out at least \<open>n\<close> tokens since
  \<open>t0\<close>, all of them covered by the capacity and one capacity for every whole interval.
\<close>

definition allowance :: "'k limiter \<Rightarrow> instant \<Rightarrow> instant \<Rightarrow> nat" where
  "allowance l t0 t1 = unat (capacity l) + unat (capacity l) * ((t1 - t0) div interval l)"

definition paid :: "'k limiter \<Rightarrow> instant \<Rightarrow> instant \<Rightarrow> nat \<Rightarrow> bucket option \<Rightarrow> bool" where
  "paid l t0 T n x = (case x of None \<Rightarrow> n = 0
     | Some b \<Rightarrow> t0 \<le> last_refill b \<and> last_refill b \<le> bkt_last_seen b \<and> bkt_last_seen b \<le> T
         \<and> (\<forall>t1\<ge>T. n + credit l (unat (capacity l)) t1 b \<le> allowance l t0 t1))"



lemma paid_same: "same_limits l l' \<Longrightarrow> paid l' t0 T n x = paid l t0 T n x"
  by (simp add: paid_def same_limits_def credit_def allowance_def cong: option.case_cong)




section \<open>Telemetry lines\<close>

definition telemetry_names :: "string set" where
  "telemetry_names = {''packet_seen'', ''knock_outcome''}"

definition telemetry :: "event \<Rightarrow> bool" where
  "telemetry e = (\<exists>ts ev msg r. ev \<in> telemetry_names \<and> e = Audit (audit_line ts ev msg) r)"

definition telemetry_lines :: "transcript \<Rightarrow> nat" where
  "telemetry_lines h = length (filter telemetry h)"

lemma telemetry_lines_append: "telemetry_lines (h @ es) = telemetry_lines h + telemetry_lines es"
  by (simp add: telemetry_lines_def)





lemma telemetry_run: "runs c e \<Longrightarrow> \<not> telemetry e"
  by (auto simp: runs_def telemetry_def)

lemma telemetry_none: "list_all (\<lambda>e. \<not> telemetry e) es \<Longrightarrow> telemetry_lines es = 0"
  by (auto simp: telemetry_lines_def list_all_iff filter_empty_conv)

section \<open>The daemon counts\<close>

definition packet_limits :: "config \<Rightarrow> string limiter" where
  "packet_limits c = limiter_new (saturating_mul (invalid_burst_limit c) 10)
     (saturating_mul (invalid_refill_per_minute c) 10) (from_secs 60)"

text \<open>
  The lines written so far are covered by the tokens handed out, with \<open>k\<close> lines to spare; the
  limiter was last used at \<open>T\<close>.
\<close>

definition counted :: "os \<Rightarrow> config \<Rightarrow> nat \<Rightarrow> instant \<Rightarrow> machine \<Rightarrow> bool" where
  "counted os c k T m =
     (monotonic os \<and> srv_config (srv m) = c \<and> T \<le> os_now os (hist m)
      \<and> same_limits (packet_limits c) (packet_telemetry_limiter (srv m))
      \<and> hm_ok (buckets (packet_telemetry_limiter (srv m)))
      \<and> (\<exists>n. paid (packet_limits c) (os_now os []) T n
               (hm_get (buckets (packet_telemetry_limiter (srv m))) ''packet'')
           \<and> telemetry_lines (hist m) + k \<le> 2 * n
           \<and> (\<not> packet_telemetry_enabled (srv m) \<longrightarrow> n = 0)))"

definition metered :: "os \<Rightarrow> config \<Rightarrow> machine \<Rightarrow> bool" where
  "metered os c m = (\<exists>T. counted os c 0 T m)"

lemma counted_metered: "counted os c k T m \<Longrightarrow> metered os c m"
  by (fastforce simp: metered_def counted_def)

lemma enabled_config: "srv_config s = srv_config s' \<Longrightarrow> packet_telemetry_enabled s = packet_telemetry_enabled s'"
  by (simp add: packet_telemetry_enabled_def)

lemma counted_append:
  assumes "counted os c k T m" and "hist m' = hist m @ es" and "telemetry_lines es + j \<le> k"
    and "srv_config (srv m') = srv_config (srv m)"
    and "packet_telemetry_limiter (srv m') = packet_telemetry_limiter (srv m)"
  shows "counted os c j T m'"
proof -
  have "os_now os (hist m) \<le> os_now os (hist m')"
    using assms(1,2) by (simp add: counted_def monotonic_def)
  then show ?thesis
    using assms enabled_config [OF assms(4)]
    by (fastforce simp: counted_def telemetry_lines_append intro: order_trans)
qed

lemma counted_quiet:
  assumes "emits (\<lambda>e. \<not> telemetry e) f"
    and "\<And>L. keeps (\<lambda>s. srv_config s = c \<and> packet_telemetry_limiter s = L) f"
  shows "triple (counted os c k T) f (\<lambda>_. counted os c k T) (metered os c)"
proof (rule triple_upholds)
  show "upholds (counted os c k T) f"
    unfolding upholds_def
  proof (intro allI impI)
    fix m
    assume m: "counted os c k T m"
    then have "srv_config (srv m) = c" by (simp add: counted_def)
    then have srv: "srv_config (srv (snd (f m))) = c"
      "packet_telemetry_limiter (srv (snd (f m))) = packet_telemetry_limiter (srv m)"
      using assms(2) [of "packet_telemetry_limiter (srv m)"] unfolding keeps_def by blast+
    obtain es where "hist (snd (f m)) = hist m @ es" "list_all (\<lambda>e. \<not> telemetry e) es"
      using assms(1) unfolding emits_def by blast
    from counted_append [OF m this(1)] telemetry_none [OF this(2)] srv \<open>srv_config (srv m) = c\<close>
    show "counted os c k T (snd (f m))" by simp
  qed
qed (rule counted_metered)




lemma counted_run: "triple (counted os c k T) (run (system_run_status os) cmd) (\<lambda>_. counted os c k T) (metered os c)"
  by (rule counted_quiet [OF emits_mono [OF msys.emits_runs] msys.keeps_run]) (rule telemetry_run)










end
