(* ===== verification/ServerLive.thy ===== *)
theory ServerLive
  imports Knocking
begin

text \<open>
  What the server does for a source over many packets, whatever other sources send in between:
  a source that knocks is allowed, and a source that sends invalid packets is banned exactly when
  it exceeds its limit.
\<close>

section \<open>What one packet does\<close>

definition executed_between :: "command_spec \<Rightarrow> 'z world_scheme \<Rightarrow> 'y world_scheme \<Rightarrow> bool" where
  "executed_between c w w' = (\<exists>e\<in>set (drop (length (hist w)) (hist w')). runs c e)"

lemma executed_betweenI: "hist w' = hist w @ es1 @ Exec (program c) (args c) r # es2 \<Longrightarrow> executed_between c w w'"
  by (auto simp: executed_between_def runs_def)

lemma executed_between_extend:
  "executed_between c w w' \<Longrightarrow> hist w' = hist w @ es \<Longrightarrow> hist w'' = hist w' @ es' \<Longrightarrow> executed_between c w w''"
  by (auto simp: executed_between_def)

lemma executed_between_later:
  "executed_between c w' w'' \<Longrightarrow> hist w' = hist w @ es \<Longrightarrow> executed_between c w w''"
proof -
  assume "executed_between c w' w''" and w: "hist w' = hist w @ es"
  then obtain e where e: "e \<in> set (drop (length (hist w')) (hist w''))" "runs c e"
    by (auto simp: executed_between_def)
  have "drop (length (hist w')) (hist w'') = drop (length es) (drop (length (hist w)) (hist w''))"
    by (simp add: w add.commute)
  then have "e \<in> set (drop (length (hist w)) (hist w''))"
    using e(1) in_set_dropD by metis
  then show ?thesis using e(2) by (auto simp: executed_between_def)
qed

lemma snd_attempt: "snd (attempt f s) = snd (f s)"
  by (auto simp: attempt_def split: prod.split sum.split failure.split)

text \<open>A ban concerns only the source that is banned.\<close>

definition unbanned :: "ip_addr \<Rightarrow> server \<Rightarrow> bool" where
  "unbanned ip s = (hm_ok (banned_sources s) \<and> hm_get (banned_sources s) ip = None)"

lemma unbanned_expire: "unbanned ip s \<Longrightarrow> unbanned ip (expire_banned_sources s now)"
  by (auto simp: unbanned_def get_expired) (simp add: expire_banned_sources_def)

lemma unbanned_remember:
  "unbanned ip s \<Longrightarrow> ip' \<noteq> ip \<Longrightarrow> remember_banned_source s ip' now = Inr s' \<Longrightarrow> unbanned ip s'"
  using unbanned_expire [of ip s now]
  by (auto simp: remember_banned_source_def Let_def unbanned_def split: if_splits option.splits)

lemma unbanned_telemetry: "unbanned ip s \<Longrightarrow> unbanned ip (snd (telemetry_allow now s))"
  by (simp add: telemetry_allow_def unbanned_def split: prod.splits)

lemma decide_banned:
  "banned_sources (snd (decide p now s)) = banned_sources (expire_banned_sources s now)"
  by (simp add: decide_def is_source_banned_def Let_def split_beta)

context machine_runner begin

lemma run_event: "\<exists>r. hist (snd (run run_status c w)) = hist w @ [Exec (program c) (args c) r]"
  using one_exec by (simp add: run_hist)

lemma bind_exec:
  assumes "bind_io (attempt (run run_status c)) k m = (r, m')" and k: "\<And>x. emits (\<lambda>_. True) (k x)"
  shows "executed_between c m m'"
proof -
  obtain e where e: "hist (snd (attempt (run run_status c) m)) = hist m @ [Exec (program c) (args c) e]"
    using run_event [of c m] by (auto simp: snd_attempt)
  from assms(1) show ?thesis
  proof (cases rule: bind_io_cases)
    case (fail x)
    then show ?thesis using e by (intro executed_betweenI [of _ _ "[]" c e "[]"]) simp
  next
    case (ok x m2)
    then obtain es where "hist m' = hist m2 @ es"
      using emits_appends [OF k, of x m2] by auto
    then show ?thesis using e ok(1) by (intro executed_betweenI [of _ _ "[]" c e es]) simp
  qed
qed

lemma react_banning:
  assumes "react os run_status s ip now Banning m = (Inr (), m')"
  shows "executed_between (ban_ip_command (srv_firewall s) ip) m m'"
proof -
  from assms obtain x m1 k where 1: "try_srv (\<lambda>s. remember_banned_source s ip now) m = (Inr x, m1)"
    and 2: "bind_io (attempt (run run_status (ban_ip_command (srv_firewall s) ip))) k m1 = (Inr (), m')"
    and k: "\<And>x. emits (\<lambda>_. True) (k x)"
    unfolding react.simps ban_ip_def
    by (elim bind_io_Inr [of "try_srv _"]) (rule that, assumption, assumption, auto intro: emits_server_log split: sum.split)
  have "hist m1 = hist m @ []" using 1 by (auto simp: try_srv_def split: sum.splits)
  with bind_exec [OF 2 k] show ?thesis by (rule executed_between_later)
qed

lemma react_accepted:
  assumes "react os run_status s ip now (Outcome Accepted) m = (Inr (), m')"
  shows "executed_between (add_ip_command (srv_firewall s) ip) m m'"
proof -
  from assms obtain x m1 k where 1: "log_packet_telemetry os ip Accepted now m = (Inr x, m1)"
    and 2: "bind_io (attempt (run run_status (add_ip_command (srv_firewall s) ip))) k m1 = (Inr (), m')"
    and k: "\<And>x. emits (\<lambda>_. True) (k x)"
    unfolding react.simps add_ip_def if_True simp_thms
    by (elim bind_io_Inr [of "log_packet_telemetry _ _ _ _"])
      (rule that, assumption, assumption, auto intro!: emits_intros emits_server_log split: sum.split)
  obtain es where "hist m1 = hist m @ es"
    using emits_appends [OF emits_telemetry, of os ip Accepted now m] 1 by auto
  with bind_exec [OF 2 k] show ?thesis by (rule executed_between_later)
qed

lemma keeps_unbanned:
  assumes "v = Banning \<Longrightarrow> ip' \<noteq> ip"
  shows "keeps (unbanned ip) (react os run_status s ip' t v)"
proof (cases v)
  case Dropped
  then show ?thesis by (simp add: keeps_leaf)
next
  case Banning
  then show ?thesis
    using assms unbanned_remember
    by (auto simp: ban_ip_def intro!: keeps_intros keeps_try_srv keeps_run split: sum.splits)
next
  case (Outcome oc)
  show ?thesis
    unfolding Outcome react.simps log_packet_telemetry_def add_ip_def
    by (auto intro!: keeps_intros keeps_with_srv unbanned_telemetry keeps_run split: sum.splits)
qed

end

context machine_runner begin

lemma datagram_step:
  assumes len: "2 \<le> length (sequence (knock c))"
    and bt: "between os c tr m" and step: "process_datagram os run_status d m = (r, m')"
  defines "v \<equiv> decide (packet_in d) (os_now os (hist m)) (srv m)"
  shows "source_limiter (srv m') = source_limiter (snd v)"
    and "srv_tracker (srv m') = srv_tracker (snd v)"
    and "unbanned ip (srv m) \<Longrightarrow> fst v \<noteq> Banning \<or> source_ip (packet_in d) \<noteq> ip \<Longrightarrow> unbanned ip (srv m')"
    and "r = Inr () \<Longrightarrow> fst v = Banning \<Longrightarrow>
      executed_between (ban_ip_command (srv_firewall (srv m)) (source_ip (packet_in d))) m m'"
    and "r = Inr () \<Longrightarrow> fst v = Outcome Accepted \<Longrightarrow>
      executed_between (add_ip_command (srv_firewall (srv m)) (source_ip (packet_in d))) m m'"
proof -
  obtain addr proto port n where d: "d = (addr, proto, port, n)" by (cases d)
  let ?now = "os_now os (hist m)"
  let ?m1 = "m\<lparr>hist := hist m @ [ClockRead ?now], srv := snd v\<rparr>"
  from bt obtain T where ok: "server_ok (srv m) T" "T \<le> ?now" and c: "srv_config (srv m) = c"
    by (auto simp: between_def)
  have st: "process_packet os run_status addr proto port n m = (r, m')" using step d by simp
  then have react: "react os run_status (snd v) (source_ip (packet_in d)) ?now (fst v) ?m1 = (r, m')"
    by (simp add: process_packet_eq Let_def v_def d)
  from process_packet_step(1) [OF ok _ st] len c
  show "source_limiter (srv m') = source_limiter (snd v)" "srv_tracker (srv m') = srv_tracker (snd v)"
    by (simp_all add: core_ok_def same_core_def v_def d)
  show "unbanned ip (srv m')" if "unbanned ip (srv m)" "fst v \<noteq> Banning \<or> source_ip (packet_in d) \<noteq> ip"
  proof -
    have "unbanned ip (snd v)"
      using unbanned_expire [OF that(1), of ?now] by (simp add: v_def unbanned_def decide_banned)
    moreover have k: "keeps (unbanned ip) (react os run_status (snd v) (source_ip (packet_in d)) ?now (fst v))"
      using that(2) by (intro keeps_unbanned) auto
    ultimately show ?thesis using keepsD [OF k react] by simp
  qed
  have fw: "srv_firewall (snd v) = srv_firewall (srv m)" by (simp add: v_def)
  have h: "hist ?m1 = hist m @ [ClockRead ?now]" by simp
  show "executed_between (ban_ip_command (srv_firewall (srv m)) (source_ip (packet_in d))) m m'"
    if "r = Inr ()" "fst v = Banning"
    using executed_between_later [OF react_banning h] react that fw by metis
  show "executed_between (add_ip_command (srv_firewall (srv m)) (source_ip (packet_in d))) m m'"
    if "r = Inr ()" "fst v = Outcome Accepted"
    using executed_between_later [OF react_accepted h] react that fw by metis
qed

end

section \<open>The limit on invalid packets\<close>

text \<open>Fits no step of the sequence, or is too large.\<close>

definition invalid_packet :: "config \<Rightarrow> knock_packet \<Rightarrow> bool" where
  "invalid_packet c p =
     (max_payload_size c < payload_size p \<or> list_all (\<lambda>s. \<not> fits s p) (sequence (knock c)))"

definition limit_of :: "config \<Rightarrow> nat" where
  "limit_of c = unat (invalid_burst_limit c)"

definition from_ip :: "ip_addr \<Rightarrow> datagram list \<Rightarrow> datagram list" where
  "from_ip ip ds = filter (\<lambda>d. source_ip (packet_in d) = ip) ds"

text \<open>The source \<open>ip\<close> is not banned and has sent \<open>k\<close> invalid packets since \<open>t0\<close>.\<close>

definition charged :: "config \<Rightarrow> ip_addr \<Rightarrow> instant \<Rightarrow> nat \<Rightarrow> server \<Rightarrow> bool" where
  "charged c ip t0 k s =
     (let l = source_limiter s in
      capacity l = invalid_burst_limit c \<and> interval l = from_secs 60 \<and> unbanned ip s
      \<and> hm_ok (buckets l)
      \<and> (case hm_get (buckets l) ip of
           None \<Rightarrow> k = 0
         | Some b \<Rightarrow> unat (tokens b) + k = limit_of c \<and> t0 \<le> last_refill b \<and> t0 \<le> bkt_last_seen b))"

lemma minute_ttl: "interval l = from_secs 60 \<Longrightarrow> idle_ttl l = from_secs 120"
  by (simp add: idle_ttl_def duration_checked_mul_def duration_max_def from_secs_def nanos_per_sec_def)

lemma within_minute:
  assumes "interval l = from_secs 60" and "t0 \<le> t" and "(now :: instant) < t0 + from_secs 60"
  shows "duration_since now t < interval l" and "duration_since now t < idle_ttl l"
  using assms by (auto simp: minute_ttl duration_since_def from_secs_def nanos_per_sec_def)

lemma charge:
  assumes "interval l = from_secs 60" and "capacity l = invalid_burst_limit c" and "t0 \<le> now"
    and "now < t0 + from_secs 60"
    and "case x of None \<Rightarrow> k = 0
         | Some b \<Rightarrow> unat (tokens b) + k = limit_of c \<and> t0 \<le> last_refill b \<and> t0 \<le> bkt_last_seen b"
  shows "fst (bucket_step l x now) \<longleftrightarrow> k < limit_of c"
    and "k < limit_of c \<Longrightarrow> unat (tokens (snd (bucket_step l x now))) + Suc k = limit_of c"
    and "t0 \<le> last_refill (snd (bucket_step l x now))"
proof -
  define b where "b = (case not_idle l now x of None \<Rightarrow> full_bucket l now | Some b \<Rightarrow> b)\<lparr>bkt_last_seen := now\<rparr>"
  have b: "unat (tokens b) + k = limit_of c" "t0 \<le> last_refill b"
    using assms(5) within_minute(2) [OF assms(1) _ assms(4)] assms(2,3)
    by (auto simp: b_def not_idle_def full_bucket_def limit_of_def split: option.splits)
  have "refilled l b now = b"
    using within_minute(1) [OF assms(1) b(2) assms(4)] by (simp add: refilled_def Let_def not_le)
  then have step: "bucket_step l x now = (if tokens b = 0 then (False, b) else (True, b\<lparr>tokens := tokens b - 1\<rparr>))"
    by (simp add: bucket_step_def b_def Let_def)
  have pos: "tokens b \<noteq> 0 \<longleftrightarrow> k < limit_of c"
    using b(1) by (metis add_cancel_left_left less_add_same_cancel2 unat_0 unat_gt_0 unat_eq_0)
  show "fst (bucket_step l x now) \<longleftrightarrow> k < limit_of c"
    using pos by (cases "tokens b = 0") (simp_all add: step)
  show "t0 \<le> last_refill (snd (bucket_step l x now))" using b(2) by (simp add: step)
  assume "k < limit_of c"
  then show "unat (tokens (snd (bucket_step l x now))) + Suc k = limit_of c"
    using pos b(1) by (simp add: step unat_minus_one)
qed

lemma invalid_outcome:
  assumes ok: "server_ok s T" "T \<le> now" "2 \<le> length (sequence (knock (srv_config s)))"
    and inv: "invalid_packet (srv_config s) p"
  shows "fst (track p now (expire_banned_sources s now)) \<in> {Rejected, Oversized}"
proof -
  let ?t = "srv_tracker s"
  have len: "2 \<le> length (trk_sequence ?t)" using server_okD(6) [OF ok(1)] ok(3) by simp
  have size: "trk_max_payload ?t = max_payload_size (srv_config s)"
    using ok(1) by (simp add: server_ok_def Let_def)
  have "\<not> matches_step ?t i p" if "\<not> max_payload_size (srv_config s) < payload_size p" for i
    using inv that nth_mem [of i "trk_sequence ?t"]
    by (auto simp: invalid_packet_def matches_step_def step_matches_fits list_all_iff server_okD(6) [OF ok(1)]
        simp del: nth_mem)
  then have "fst (source_step ?t f x p now) \<in> {Rejected, Oversized}" for f x
    by (auto simp: source_step_def size split: option.split)
  then show ?thesis
    using process_outcome [OF server_okD(1) [OF ok(1)] ok(2) len, of p]
    by (simp add: track_def split_beta)
qed

lemma decide_unbanned:
  fixes now :: instant
  assumes "unbanned (source_ip p) s"
  defines "e \<equiv> expire_banned_sources s now"
  shows "decide p now s = (let (over, s3) = over_limit (fst (track p now e)) (source_ip p) now (snd (track p now e))
    in (if over then Banning else Outcome (fst (track p now e)), s3))"
  using unbanned_expire [OF assms(1), of now]
  by (simp add: decide_def is_source_banned_def Let_def split_beta unbanned_def e_def)

lemma limiter_after:
  assumes "hm_ok (buckets (source_limiter s))"
  shows "source_limiter (snd (decide p now s)) = source_limiter s
    \<or> source_limiter (snd (decide p now s)) = snd (allow (source_limiter s) (source_ip p) now)"
  by (simp add: decide_def is_source_banned_def Let_def split_beta over_limit_def)

lemma charged_other:
  assumes ch: "charged c ip t0 k s" and "source_limiter s' = source_limiter s
      \<or> source_limiter s' = snd (allow (source_limiter s) ip' now)"
    and "unbanned ip s'" and "ip' \<noteq> ip" and "t0 \<le> now" and "now < t0 + from_secs 60"
  shows "charged c ip t0 k s'"
proof (cases "source_limiter s' = source_limiter s")
  case True
  then show ?thesis using ch assms(3) by (simp add: charged_def Let_def)
next
  case False
  let ?l = "source_limiter s"
  have l': "source_limiter s' = snd (allow ?l ip' now)" using False assms(2) by blast
  have l: "hm_ok (buckets ?l)" "interval ?l = from_secs 60" using ch by (simp_all add: charged_def Let_def)
  have "not_idle ?l now (hm_get (buckets ?l) ip) = hm_get (buckets ?l) ip"
    using ch within_minute(2) [OF l(2) _ assms(6)]
    by (auto simp: charged_def Let_def not_idle_def split: option.splits)
  then have "hm_get (buckets (source_limiter s')) ip = hm_get (buckets ?l) ip"
    using assms(4) by (simp add: l' allow_get [OF l(1)])
  then show ?thesis
    using ch assms(3) by (simp add: charged_def Let_def l' allow_frame allow_ok l(1))
qed

context machine_runner begin

lemma charged_step:
  assumes len: "2 \<le> length (sequence (knock c))"
    and bt: "between os c tr m" and step: "process_datagram os run_status d m = (Inr (), m')"
    and ch: "charged c ip t0 k (srv m)"
    and t0: "t0 \<le> os_now os (hist m)" "os_now os (hist m) < t0 + from_secs 60"
    and inv: "source_ip (packet_in d) = ip \<Longrightarrow> invalid_packet c (packet_in d)"
  shows "if source_ip (packet_in d) = ip then
      (if k < limit_of c then charged c ip t0 (Suc k) (srv m')
       else executed_between (ban_ip_command (srv_firewall (srv m)) ip) m m')
    else charged c ip t0 k (srv m')"
proof -
  let ?now = "os_now os (hist m)" and ?p = "packet_in d" and ?l = "source_limiter (srv m)"
  note s = datagram_step [OF len bt step]
  from bt obtain T where ok: "server_ok (srv m) T" "T \<le> ?now" and c: "srv_config (srv m) = c"
    by (auto simp: between_def)
  have l: "hm_ok (buckets ?l)" "interval ?l = from_secs 60" "capacity ?l = invalid_burst_limit c"
    and ub: "unbanned ip (srv m)"
    using ch by (simp_all add: charged_def Let_def)
  show ?thesis
  proof (cases "source_ip ?p = ip")
    case False
    then have "charged c ip t0 k (srv m')"
      using charged_other [OF ch _ s(3) [OF ub] False t0] limiter_after [OF l(1), of ?p ?now] s(1) by auto
    then show ?thesis using False by simp
  next
    case True
    let ?e = "expire_banned_sources (srv m) ?now"
    let ?x = "hm_get (buckets ?l) ip"
    have "fst (track ?p ?now ?e) \<in> {Rejected, Oversized}"
      using invalid_outcome [OF ok] len inv True c by simp
    then have "over_limit (fst (track ?p ?now ?e)) ip ?now (snd (track ?p ?now ?e))
        = (\<not> fst (allow ?l ip ?now), (snd (track ?p ?now ?e))\<lparr>source_limiter := snd (allow ?l ip ?now)\<rparr>)"
      by (auto simp: over_limit_def split_beta)
    then have v: "fst (decide ?p ?now (srv m)) = Banning \<longleftrightarrow> \<not> fst (allow ?l ip ?now)"
      "source_limiter (snd (decide ?p ?now (srv m))) = snd (allow ?l ip ?now)"
      using decide_unbanned [of ?p "srv m" ?now] ub True by (simp_all add: Let_def)
    have "case ?x of None \<Rightarrow> k = 0
         | Some b \<Rightarrow> unat (tokens b) + k = limit_of c \<and> t0 \<le> last_refill b \<and> t0 \<le> bkt_last_seen b"
      using ch by (simp add: charged_def Let_def)
    note charge = charge [OF l(2,3) t0 this]
    show ?thesis
    proof (cases "k < limit_of c")
      case True
      then have "fst (decide ?p ?now (srv m)) \<noteq> Banning" using v(1) charge(1) by (simp add: allow_eq [OF l(1)])
      then have "unbanned ip (srv m')" using s(3) [OF ub] by simp
      then have "charged c ip t0 (Suc k) (srv m')"
        using charge(2,3) True t0(1) l
        by (simp add: charged_def Let_def s(1) v(2) allow_frame allow_ok allow_get)
      then show ?thesis using True \<open>source_ip ?p = ip\<close> by simp
    next
      case False
      then have "fst (decide ?p ?now (srv m)) = Banning" using v(1) charge(1) by (simp add: allow_eq [OF l(1)])
      then show ?thesis using s(4) False \<open>source_ip ?p = ip\<close> by simp
    qed
  qed
qed

lemma charged_run:
  assumes mono: "monotonic os" and len: "2 \<le> length (sequence (knock c))"
    and "between os c tr m" and "serve os run_status ds m = (Inr (), m')"
    and "charged c ip t0 k (srv m)" and "k \<le> limit_of c" and "t0 \<le> os_now os (hist m)"
    and "os_now os (hist m') < t0 + from_secs 60"
    and "list_all (\<lambda>d. invalid_packet c (packet_in d)) (from_ip ip ds)"
  shows "if k + length (from_ip ip ds) \<le> limit_of c
    then charged c ip t0 (k + length (from_ip ip ds)) (srv m')
    else executed_between (ban_ip_command (srv_firewall (srv m)) ip) m m'"
  using assms(3-)
proof (induction ds arbitrary: tr m k)
  case Nil
  then show ?case by (simp add: from_ip_def ret_def)
next
  case (Cons d ds)
  from Cons.prems(2) obtain m1 where 1: "process_datagram os run_status d m = (Inr (), m1)"
    and 2: "serve os run_status ds m1 = (Inr (), m')"
    by (auto elim: bind_io_Inr)
  let ?now = "os_now os (hist m)" and ?ban = "ban_ip_command (srv_firewall (srv m)) ip"
  note b = between_step [OF mono len Cons.prems(1) 1]
  obtain es1 where es1: "hist m1 = hist m @ es1" using process_appends [of os d m] 1 by auto
  obtain es2 where es2: "hist m' = hist m1 @ es2" using serve_appends [OF 2] by blast
  have le: "?now \<le> os_now os (hist m1)" "os_now os (hist m1) \<le> os_now os (hist m')"
    using mono unfolding es1 es2 monotonic_def by blast+
  have inv: "source_ip (packet_in d) = ip \<Longrightarrow> invalid_packet c (packet_in d)"
    using Cons.prems(7) by (simp add: from_ip_def)
  have "?now < t0 + from_secs 60" using le Cons.prems(6) by simp
  note st = charged_step [OF len Cons.prems(1) 1 Cons.prems(3) Cons.prems(5) this inv]
  have rest: "list_all (\<lambda>d. invalid_packet c (packet_in d)) (from_ip ip ds)"
    using Cons.prems(7) by (auto simp: from_ip_def split: if_splits)
  have t0: "t0 \<le> os_now os (hist m1)" using Cons.prems(5) le(1) by simp
  note IH = Cons.IH [OF b(1) 2 _ _ t0 Cons.prems(6) rest]
  show ?case
  proof (cases "source_ip (packet_in d) = ip")
    case False
    then have "charged c ip t0 k (srv m1)" using st by simp
    from IH [OF this Cons.prems(4)] False show ?thesis
      using executed_between_later [OF _ es1] by (auto simp: from_ip_def b(2) split: if_splits)
  next
    case True
    show ?thesis
    proof (cases "k < limit_of c")
      case k: True
      then have "charged c ip t0 (Suc k) (srv m1)" using st True by simp
      from IH [OF this] k True show ?thesis
        using executed_between_later [OF _ es1] by (auto simp: from_ip_def b(2) split: if_splits)
    next
      case False
      then have "executed_between ?ban m m1" using st True by simp
      then show ?thesis using executed_between_extend [OF _ es1 es2] False True by (simp add: from_ip_def)
    qed
  qed
qed

end

section \<open>Knocking\<close>

definition arrived :: "os \<Rightarrow> machine runner \<Rightarrow> ip_addr \<Rightarrow> datagram list \<Rightarrow> machine \<Rightarrow> arrival list" where
  "arrived os runner ip ds m = of_source ip (arrivals os runner ds m)"

lemma decide_track:
  fixes now :: instant
  assumes "unbanned (source_ip p) s"
  shows "srv_tracker (snd (decide p now s)) = snd (process (srv_tracker s) p now)"
    and "fst (process (srv_tracker s) p now) \<notin> {Rejected, Oversized} \<Longrightarrow>
      fst (decide p now s) = Outcome (fst (process (srv_tracker s) p now))"
  unfolding decide_unbanned [OF assms]
  by (simp_all add: Let_def split_beta track_def) (simp add: over_limit_def)

lemma decide_other:
  assumes ok: "server_ok s T" "T \<le> now" "2 \<le> length (sequence (knock (srv_config s)))"
    and "source_ip p \<noteq> ip" and "hm_get (states (srv_tracker s)) ip = Some st"
    and "live (srv_tracker s) now st"
  shows "hm_get (states (srv_tracker (snd (decide p now s)))) ip = Some st"
proof -
  let ?t = "srv_tracker s"
  have len: "2 \<le> length (trk_sequence ?t)" using server_okD(6) [OF ok(1)] ok(3) by simp
  have "hm_get (states (snd (process ?t p now))) ip = Some st"
    using process_get_other [OF server_okD(1) [OF ok(1)] ok(2) len, of ip p] assms(4-6)
    by (simp add: alive_Some)
  then show ?thesis
    using assms(5) by (simp add: decide_def is_source_banned_def Let_def split_beta)
      (simp add: track_def split_beta)
qed

context machine_runner begin

lemma arrivals_Cons:
  "process_datagram os run_status d m = (Inr (), m1) \<Longrightarrow> arrivals os run_status (d # ds) m =
    (packet_in d, os_now os (hist m)) # arrivals os run_status ds m1"
  by simp

lemma arrivals_bounds:
  assumes "monotonic os" and "serve os run_status ds m = (Inr (), m')"
    and "e \<in> set (arrivals os run_status ds m)"
  shows "os_now os (hist m) \<le> snd e"
  using assms(2,3)
proof (induction ds arbitrary: m)
  case (Cons d ds)
  from Cons.prems(1) obtain m1 where 1: "process_datagram os run_status d m = (Inr (), m1)"
    and 2: "serve os run_status ds m1 = (Inr (), m')" by (auto elim: bind_io_Inr)
  obtain es1 where "hist m1 = hist m @ es1" using process_appends [of os d m] 1 by auto
  then have "os_now os (hist m) \<le> os_now os (hist m1)" using assms(1) by (simp add: monotonic_def)
  then show ?case using Cons.IH [OF 2] Cons.prems(2) unfolding arrivals_Cons [OF 1] by fastforce
qed simp

lemma knock_run:
  assumes mono: "monotonic os" and len: "2 \<le> length (sequence (knock c))"
    and size: "\<forall>s\<in>set (sequence (knock c)). step_size s \<le> max_payload_size c"
    and "between os c tr m" and "serve os run_status ds m = (Inr (), m')"
    and "unbanned ip (srv m)" and "hm_get (states (srv_tracker (srv m))) ip = Some st"
    and "list_all2 fits (drop (next_step st) (sequence (knock c))) (map fst (arrived os run_status ip ds m))"
    and "paced (from_secs (partial_state_timeout c)) (last_seen st # map snd (arrived os run_status ip ds m))"
    and "duration_since (snd (last (arrived os run_status ip ds m))) (first_seen st) \<le> from_secs (sequence_window c)"
  shows "executed_between (add_ip_command (srv_firewall (srv m)) ip) m m'"
  using assms(4-)
proof (induction ds arbitrary: tr m st)
  case Nil
  then obtain T where "server_ok (srv m) T" "srv_config (srv m) = c" by (auto simp: between_def)
  then have "next_step st < length (sequence (knock c))"
    using server_okD(1,6) Nil.prems(4) by (fastforce simp: tracker_ok_def)
  then show ?case using Nil.prems(5) by (simp add: arrived_def of_source_def)
next
  case (Cons d ds)
  from Cons.prems(2) obtain m1 where 1: "process_datagram os run_status d m = (Inr (), m1)"
    and 2: "serve os run_status ds m1 = (Inr (), m')" by (auto elim: bind_io_Inr)
  let ?now = "os_now os (hist m)" and ?p = "packet_in d" and ?t = "srv_tracker (srv m)"
  let ?mine = "arrived os run_status ip ds m1" and ?sq = "sequence (knock c)"
  from Cons.prems(1) obtain T where ok: "server_ok (srv m) T" "T \<le> ?now" and c: "srv_config (srv m) = c"
    by (auto simp: between_def)
  have len': "2 \<le> length (sequence (knock (srv_config (srv m))))" using len c by simp
  note t = server_okD(6-8) [OF ok(1), unfolded c]
  have maxp: "trk_max_payload ?t = max_payload_size c" using ok(1) c by (simp add: server_ok_def Let_def)
  have tok: "tracker_ok ?t T" by (rule server_okD(1) [OF ok(1)])
  have lent: "2 \<le> length (trk_sequence ?t)" using len t(1) by simp
  note b = between_step [OF mono len Cons.prems(1) 1] and s = datagram_step [OF len Cons.prems(1) 1]
  obtain es1 where es1: "hist m1 = hist m @ es1" using process_appends [of os d m] 1 by auto
  obtain es2 where es2: "hist m' = hist m1 @ es2" using serve_appends [OF 2] by blast
  have le: "?now \<le> os_now os (hist m1)" using mono unfolding es1 monotonic_def by blast
  have later: "?now \<le> snd e" if "e \<in> set ?mine" for e
    using arrivals_bounds [OF mono 2, of e] that le by (auto simp: arrived_def of_source_def)
  show ?case
  proof (cases "source_ip ?p = ip")
    case False
    then have mine: "arrived os run_status ip (d # ds) m = ?mine"
      unfolding arrived_def arrivals_Cons [OF 1] by (simp add: of_source_def)
    have "next_step st < length ?sq" using tok Cons.prems(4) t(1) by (simp add: tracker_ok_def)
    then have "?mine \<noteq> []" using Cons.prems(5) unfolding mine by auto
    then obtain a as where a: "?mine = a # as" by (cases ?mine) auto
    have "?now \<le> snd a" "?now \<le> snd (last ?mine)" using later a \<open>?mine \<noteq> []\<close> by auto
    moreover have "duration_since (snd a) (last_seen st) \<le> from_secs (partial_state_timeout c)"
      using Cons.prems(6) by (simp add: mine a paced_def)
    ultimately have "live ?t ?now st"
      using Cons.prems(7) unfolding mine by (auto simp: live_def duration_since_def t)
    then have "hm_get (states (srv_tracker (srv m1))) ip = Some st"
      unfolding s(2) by (intro decide_other [OF ok len' False Cons.prems(4)])
    from Cons.IH [OF b(1) 2 s(3) [OF Cons.prems(3)] this] Cons.prems(5-7) False
    show ?thesis unfolding mine b(2) using executed_between_later [OF _ es1] by simp
  next
    case True
    then have mine: "arrived os run_status ip (d # ds) m = (?p, ?now) # ?mine"
      unfolding arrived_def arrivals_Cons [OF 1] by (simp add: of_source_def)
    have less: "next_step st < length ?sq" using tok Cons.prems(4) t(1) by (simp add: tracker_ok_def)
    then have drop: "drop (next_step st) ?sq = (?sq ! next_step st) # drop (Suc (next_step st)) ?sq"
      by (simp add: Cons_nth_drop_Suc)
    have fit: "fits (?sq ! next_step st) ?p"
      and rest: "list_all2 fits (drop (Suc (next_step st)) ?sq) (map fst ?mine)"
      using Cons.prems(5) by (auto simp: mine drop)
    have m: "matches_step ?t (next_step st) ?p" using fit less by (simp add: matches_step_def t step_matches_fits)
    have small: "\<not> trk_max_payload ?t < payload_size ?p"
      using fit size nth_mem [OF less] by (auto simp: maxp fits_def not_less)
    have "?now \<le> snd (last ((?p, ?now) # ?mine))" using later by (cases "?mine = []") auto
    then have lv: "live ?t ?now st"
      using Cons.prems(6,7) by (auto simp: mine paced_def live_def duration_since_def t)
    have src: "source_ip ?p = ip" by (rule True)
    have ub: "unbanned (source_ip ?p) (srv m)" using Cons.prems(3) src by simp
    have step: "source_step ?t (table_full ?t ?now) (hm_get (states ?t) ip) ?p ?now =
        (if Suc (next_step st) = length ?sq then (Accepted, None)
         else (Progress (Suc (next_step st)),
           Some \<lparr> next_step = Suc (next_step st), first_seen = first_seen st, last_seen = ?now \<rparr>))"
      using m small lv Cons.prems(4) by (simp add: source_step_def alive_def t)
    note own = process_outcome [OF tok ok(2) lent, of ?p] process_get_own [OF tok ok(2) lent, of ?p]
    show ?thesis
    proof (cases "Suc (next_step st) = length ?sq")
      case True
      then have "fst (decide ?p ?now (srv m)) = Outcome Accepted"
        using decide_track(2) [OF ub] own step src by simp
      from executed_between_extend [OF s(5) [OF refl this] es1 es2] src show ?thesis by simp
    next
      case False
      let ?s = "\<lparr> next_step = Suc (next_step st), first_seen = first_seen st, last_seen = ?now \<rparr>"
      have "fst (decide ?p ?now (srv m)) \<noteq> Banning"
        using decide_track(2) [OF ub] own step src False by simp
      moreover have "hm_get (states (srv_tracker (srv m1))) ip = Some ?s"
        unfolding s(2) decide_track(1) [OF ub] using own step src False by simp
      moreover have "?mine \<noteq> []" using rest False less by auto
      ultimately have "executed_between (add_ip_command (srv_firewall (srv m1)) ip) m1 m'"
        using Cons.IH [OF b(1) 2 s(3) [OF Cons.prems(3)], of ?s] Cons.prems(6,7) rest
        by (simp add: mine paced_def)
      then show ?thesis using executed_between_later [OF _ es1] by (simp add: b(2))
    qed
  qed
qed

end

lemma served_between:
  assumes new: "server_new os c w = (Inr s, w1)" and mono: "monotonic os" and len: "2 \<le> length (sequence (knock c))"
    and run: "serve os (system_run_status os) ds \<lparr> hist = hist w1, srv = s \<rparr> = (r, m)"
  shows "\<exists>tr. between os c tr m" and "srv_firewall (srv m) = srv_firewall s"
proof -
  from new obtain fw lg where s: "s = server_of c fw lg"
    unfolding server_new_def by (elim bind_io_Inr) (fastforce simp: ret_def)
  have b0: "between os c [] \<lparr> hist = hist w1, srv = s \<rparr>"
    using server_of_ok [of c fw lg 0]
    by (auto simp: between_def s server_of_def knock_tracker_new_def ghost_ok_def intro!: exI [of _ 0])
  from msys.serve_between [OF mono len this run] show "\<exists>tr. between os c tr m" by simp
  have "between os c tr m0 \<Longrightarrow> serve os (system_run_status os) ds m0 = (r, m) \<Longrightarrow>
      srv_firewall (srv m) = srv_firewall (srv m0)" for tr m0
  proof (induction ds arbitrary: tr m0)
    case (Cons d ds)
    obtain r1 m1 where 1: "process_datagram os (system_run_status os) d m0 = (r1, m1)"
      by (cases "process_datagram os (system_run_status os) d m0")
    note b = msys.between_step [OF mono len Cons.prems(1) 1]
    show ?case using Cons.prems(2) Cons.IH [OF b(1)] 1 b(2) by (cases r1) (auto simp: bind_io_def)
  qed (simp add: ret_def)
  from this [OF b0 run] show "srv_firewall (srv m) = srv_firewall s" by simp
qed

lemma knock_from_idle:
  assumes mono: "monotonic os" and valid: "valid_config c" and bt: "between os c tr m"
    and run: "serve os (system_run_status os) (d # ds) m = (Inr (), m')"
    and src: "source_ip (packet_in d) = ip"
    and idle: "hm_get (banned_sources (srv m)) ip = None" "hm_get (states (srv_tracker (srv m))) ip = None"
      "\<not> table_full (srv_tracker (srv m)) (os_now os (hist m))"
    and fits: "list_all2 fits (sequence (knock c)) (map fst (arrived os (system_run_status os) ip (d # ds) m))"
    and paced: "paced (from_secs (partial_state_timeout c)) (map snd (arrived os (system_run_status os) ip (d # ds) m))"
    and window: "duration_since (snd (last (arrived os (system_run_status os) ip (d # ds) m))) (os_now os (hist m))
      \<le> from_secs (sequence_window c)"
  shows "executed_between (add_ip_command (srv_firewall (srv m)) ip) m m'"
proof -
  let ?rs = "system_run_status os" and ?now = "os_now os (hist m)" and ?p = "packet_in d"
  let ?sq = "sequence (knock c)" and ?t = "srv_tracker (srv m)"
  have len: "2 \<le> length ?sq" and size: "\<forall>s\<in>set ?sq. step_size s \<le> max_payload_size c"
    using valid by (auto simp: valid_config_def valid_step_def)
  from run obtain m1 where 1: "process_datagram os ?rs d m = (Inr (), m1)"
    and 2: "serve os ?rs ds m1 = (Inr (), m')" by (auto elim: bind_io_Inr)
  from bt obtain T where ok: "server_ok (srv m) T" "T \<le> ?now" and c: "srv_config (srv m) = c"
    by (auto simp: between_def)
  note t = server_okD(6-8) [OF ok(1), unfolded c]
  have tok: "tracker_ok ?t T" by (rule server_okD(1) [OF ok(1)])
  have lent: "2 \<le> length (trk_sequence ?t)" using len t(1) by simp
  note b = msys.between_step [OF mono len bt 1] and s = msys.datagram_step [OF len bt 1]
  obtain es1 where es1: "hist m1 = hist m @ es1" using msys.process_appends [of os os d m] 1 by auto
  let ?mine = "arrived os ?rs ip ds m1"
  have mine: "arrived os ?rs ip (d # ds) m = (?p, ?now) # ?mine"
    unfolding arrived_def msys.arrivals_Cons [OF 1] using src by (simp add: of_source_def)
  obtain s0 sq where sq: "?sq = s0 # sq" using len by (cases ?sq) auto
  have fit: "fits s0 ?p" and rest: "list_all2 fits sq (map fst ?mine)"
    using fits by (simp_all add: mine sq)
  have "\<not> trk_max_payload ?t < payload_size ?p"
    using fit size ok(1) c by (auto simp: fits_def sq server_ok_def Let_def not_less)
  then have step: "source_step ?t (table_full ?t ?now) (hm_get (states ?t) ip) ?p ?now
      = (Progress 1, Some (fresh_state ?now))"
    using fit idle by (simp add: source_step_def alive_def matches_step_def t sq step_matches_fits)
  have ub: "unbanned ip (srv m)" using idle(1) server_okD(2) [OF ok(1)] by (simp add: unbanned_def)
  note own = process_outcome [OF tok ok(2) lent, of ?p] process_get_own [OF tok ok(2) lent, of ?p]
  have "fst (decide ?p ?now (srv m)) \<noteq> Banning"
    using decide_track(2) [of ?p "srv m" ?now] ub own step src by simp
  then have "unbanned ip (srv m1)" using s(3) [OF ub] by simp
  moreover have "hm_get (states (srv_tracker (srv m1))) ip = Some (fresh_state ?now)"
    unfolding s(2) using decide_track(1) [of ?p "srv m" ?now] ub own step src by simp
  moreover have "?mine \<noteq> []" using rest len sq by auto
  ultimately have "executed_between (add_ip_command (srv_firewall (srv m1)) ip) m1 m'"
    using msys.knock_run [OF mono len size b(1) 2, of ip "fresh_state ?now"] rest paced window
    by (simp add: mine fresh_state_def sq)
  then show ?thesis using executed_between_later [OF _ es1] by (simp add: b(2))
qed

section \<open>Properties\<close>

text \<open>
  C2: a knock opens the port. At any time in the life of a server with a valid configuration, when
  a source that is neither banned nor in the middle of a knock sends the sequence, each step in
  time and all within the window, while the tracker has room for it, then the allow command for
  its address is executed, whatever packets of other sources arrive in between.
\<close>

theorem knocking_opens_port:
  "server_new os c w = (Inr s, w1) \<Longrightarrow> monotonic os \<Longrightarrow> valid_config c \<Longrightarrow>
    serve os (system_run_status os) ds0 \<lparr> hist = hist w1, srv = s \<rparr> = (Inr (), m) \<Longrightarrow>
    serve os (system_run_status os) (d # ds) m = (Inr (), m') \<Longrightarrow>
    source_ip (packet_in d) = ip \<Longrightarrow>
    hm_get (banned_sources (srv m)) ip = None \<Longrightarrow> hm_get (states (srv_tracker (srv m))) ip = None \<Longrightarrow>
    \<not> table_full (srv_tracker (srv m)) (os_now os (hist m)) \<Longrightarrow>
    list_all2 fits (sequence (knock c)) (map fst (arrived os (system_run_status os) ip (d # ds) m)) \<Longrightarrow>
    paced (from_secs (partial_state_timeout c)) (map snd (arrived os (system_run_status os) ip (d # ds) m)) \<Longrightarrow>
    duration_since (snd (last (arrived os (system_run_status os) ip (d # ds) m))) (os_now os (hist m))
      \<le> from_secs (sequence_window c) \<Longrightarrow>
    executed_between (add_ip_command (srv_firewall s) ip) m m'"
proof -
  assume new: "server_new os c w = (Inr s, w1)" and mono: "monotonic os" and valid: "valid_config c"
    and run0: "serve os (system_run_status os) ds0 \<lparr> hist = hist w1, srv = s \<rparr> = (Inr (), m)"
  have "2 \<le> length (sequence (knock c))" using valid by (simp add: valid_config_def)
  note m = served_between [OF new mono this run0]
  from m(1) obtain tr where "between os c tr m" by blast
  note opens = knock_from_idle [OF mono valid this, unfolded m(2)]
  assume "serve os (system_run_status os) (d # ds) m = (Inr (), m')"
    "source_ip (packet_in d) = ip"
    "hm_get (banned_sources (srv m)) ip = None" "hm_get (states (srv_tracker (srv m))) ip = None"
    "\<not> table_full (srv_tracker (srv m)) (os_now os (hist m))"
    "list_all2 fits (sequence (knock c)) (map fst (arrived os (system_run_status os) ip (d # ds) m))"
    "paced (from_secs (partial_state_timeout c)) (map snd (arrived os (system_run_status os) ip (d # ds) m))"
    "duration_since (snd (last (arrived os (system_run_status os) ip (d # ds) m))) (os_now os (hist m))
      \<le> from_secs (sequence_window c)"
  then show ?thesis by (rule opens)
qed

lemma knock_served:
  assumes "srv m = example_server"
  shows "\<exists>m'. serve knocking_os (system_run_status knocking_os)
      [(knocker, Udp, Some 40101, 64), (knocker, Udp, Some 40102, 128), (knocker, Udp, Some 40103, 96)] m = (Inr (), m')"
    and "arrivals knocking_os (system_run_status knocking_os)
      [(knocker, Udp, Some 40101, 64), (knocker, Udp, Some 40102, 128), (knocker, Udp, Some 40103, 96)] m
      = [(packet_of knocker Udp (Some 40101) 64, 0), (packet_of knocker Udp (Some 40102) 128, 0),
         (packet_of knocker Udp (Some 40103) 96, 0)]"
proof -
  let ?m1 = "m\<lparr>hist := hist m @ [ClockRead 0], srv := after_knock 1\<rparr>"
  let ?m2 = "?m1\<lparr>hist := hist ?m1 @ [ClockRead 0], srv := after_knock 2\<rparr>"
  have 1: "process_packet knocking_os (system_run_status knocking_os) knocker Udp (Some 40101) 64 m = (Inr (), ?m1)"
    by (rule knock_silent [OF assms knock_decisions(1)])
  have 2: "process_packet knocking_os (system_run_status knocking_os) knocker Udp (Some 40102) 128 ?m1 = (Inr (), ?m2)"
    by (rule knock_silent [OF _ knock_decisions(2)]) simp
  obtain m3 where 3: "process_packet knocking_os (system_run_status knocking_os) knocker Udp (Some 40103) 96 ?m2
      = (Inr (), m3)"
    using knock_accepted [of ?m2] by auto
  show "\<exists>m'. serve knocking_os (system_run_status knocking_os)
      [(knocker, Udp, Some 40101, 64), (knocker, Udp, Some 40102, 128), (knocker, Udp, Some 40103, 96)] m = (Inr (), m')"
    using 3 1 2 by (simp add: bind_io_def ret_def del: One_nat_def)
  show "arrivals knocking_os (system_run_status knocking_os)
      [(knocker, Udp, Some 40101, 64), (knocker, Udp, Some 40102, 128), (knocker, Udp, Some 40103, 96)] m
      = [(packet_of knocker Udp (Some 40101) 64, 0), (packet_of knocker Udp (Some 40102) 128, 0),
         (packet_of knocker Udp (Some 40103) 96, 0)]"
    using 3 1 2 by (simp add: knocking_now del: One_nat_def)
qed

lemma knocking_server_new: "server_new knocking_os example_config w =
    (Inr example_server, snd (server_new knocking_os example_config w))"
proof -
  have "server_new knocking_os example_config w = server_new quiet_os example_config w"
    by (simp add: server_new_def logger_new_def knocking_os_def cong: option.case_cong)
  then show ?thesis using example_server_new [of w] by simp
qed

theorem knocking_opens_port_witness:
  "\<exists>m'. serve knocking_os (system_run_status knocking_os)
      [(knocker, Udp, Some 40101, 64), (knocker, Udp, Some 40102, 128), (knocker, Udp, Some 40103, 96)]
      \<lparr> hist = hist (snd (server_new knocking_os example_config \<lparr> hist = [] \<rparr>)), srv = example_server \<rparr> = (Inr (), m')
    \<and> executed_between (add_ip_command example_firewall (ipv4 10 0 0 1))
     \<lparr> hist = hist (snd (server_new knocking_os example_config \<lparr> hist = [] \<rparr>)), srv = example_server \<rparr> m'"
proof -
  let ?m = "\<lparr> hist = hist (snd (server_new knocking_os example_config \<lparr> hist = [] \<rparr>)), srv = example_server \<rparr>"
  let ?rs = "system_run_status knocking_os"
  have srv: "srv ?m = example_server" by simp
  obtain m' where run: "serve knocking_os ?rs
      ((knocker, Udp, Some 40101, 64) # [(knocker, Udp, Some 40102, 128), (knocker, Udp, Some 40103, 96)]) ?m
      = (Inr (), m')"
    using knock_served(1) [OF srv] by blast
  have "executed_between (add_ip_command (srv_firewall example_server) (ipv4 10 0 0 1)) ?m m'"
  proof (rule knocking_opens_port [OF knocking_server_new knocking_monotonic _ _ run])
    show "valid_config example_config" using validate_iff example_config_valid by blast
    show "serve knocking_os ?rs [] ?m = (Inr (), ?m)" by (simp add: ret_def)
  qed (simp_all only: arrived_def knock_served(2) [OF srv],
      simp_all add: knocker_def of_source_def packet_of_def fits_def paced_def duration_since_def
        example_machine_simps table_full_def expire_def hm_defs)
  then show ?thesis using run unfolding example_server_simps by blast
qed

lemma ban_run_fresh:
  assumes new: "server_new os c w = (Inr s, w1)" and mono: "monotonic os" and len: "2 \<le> length (sequence (knock c))"
    and run: "serve os (system_run_status os) ds \<lparr> hist = hist w1, srv = s \<rparr> = (Inr (), m')"
    and minute: "os_now os (hist m') < os_now os (hist w1) + from_secs 60"
    and inv: "list_all (\<lambda>d. invalid_packet c (packet_in d)) (from_ip ip ds)"
  shows "if length (from_ip ip ds) \<le> limit_of c then hm_get (banned_sources (srv m')) ip = None
    else executed_between (ban_ip_command (srv_firewall s) ip) \<lparr> hist = hist w1, srv = s \<rparr> m'"
proof -
  let ?m0 = "\<lparr> hist = hist w1, srv = s \<rparr>"
  from new obtain fw lg where s: "s = server_of c fw lg"
    unfolding server_new_def by (elim bind_io_Inr) (fastforce simp: ret_def)
  have "serve os (system_run_status os) [] ?m0 = (Inr (), ?m0)" by (simp add: ret_def)
  from served_between(1) [OF new mono len this] obtain tr where "between os c tr ?m0" by blast
  moreover have "charged c ip (os_now os (hist w1)) 0 s"
    by (simp add: charged_def s server_of_def limiter_new_def Let_def unbanned_def)
  ultimately show ?thesis
    using msys.charged_run [OF mono len _ run, of tr ip "os_now os (hist w1)" 0] minute inv
    by (auto simp: charged_def Let_def unbanned_def split: if_splits)
qed

text \<open>
  C3: the limit is exact. Take the packets that a new server receives in its first minute, from
  any sources, where all packets of one source \<open>ip\<close> fit no step or are too large. When they are
  at most \<open>invalid_burst_limit\<close>, the source is not banned; when they are more, the ban command
  for its address has been executed.
\<close>

theorem banned_at_limit:
  "server_new os c w = (Inr s, w1) \<Longrightarrow> monotonic os \<Longrightarrow> 2 \<le> length (sequence (knock c)) \<Longrightarrow>
    serve os (system_run_status os) ds \<lparr> hist = hist w1, srv = s \<rparr> = (Inr (), m') \<Longrightarrow>
    os_now os (hist m') < os_now os (hist w1) + from_secs 60 \<Longrightarrow>
    list_all (\<lambda>d. invalid_packet c (packet_in d)) (from_ip ip ds) \<Longrightarrow>
    if length (from_ip ip ds) \<le> unat (invalid_burst_limit c)
    then hm_get (banned_sources (srv m')) ip = None
    else executed_between (ban_ip_command (srv_firewall s) ip) \<lparr> hist = hist w1, srv = s \<rparr> m'"
  unfolding limit_of_def [symmetric] by (rule ban_run_fresh)

text \<open>A server that allows one invalid packet, and a source that sends two.\<close>

definition strict_config :: config where
  "strict_config = example_config\<lparr>invalid_burst_limit := 1\<rparr>"

definition strict_server :: server where
  "strict_server = server_of strict_config example_firewall
     \<lparr> log_path = ''/var/log/sshknockd/sshknockd.log'', lock_poisoned = False \<rparr>"

definition strict_machine :: machine where
  "strict_machine = \<lparr> hist = hist (snd (server_new quiet_os strict_config \<lparr> hist = [] \<rparr>)), srv = strict_server \<rparr>"

definition large_datagram :: datagram where
  "large_datagram = ((ipv4 10 0 0 9, 5000), Udp, Some 40103, 1000)"

lemma strict_server_new: "server_new quiet_os strict_config w =
    (Inr strict_server, snd (server_new quiet_os strict_config w))"
  by (simp add: server_new_def bind_io_def io_defs strict_config_def example_config_simps
      example_firewall_new [simplified]
      logger_new_def path_parent_def call_def quiet_os_def none_or_fail_def strict_server_def
      example_firewall_def validate_ipset_name_def firewall_new_def ipset_char_def is_ascii_alphanumeric_def
      split: prod.split sum.split option.split)

lemmas strict_simps = strict_machine_def strict_server_def strict_config_def example_machine_simps decide_def
  is_source_banned_def Let_def expire_banned_sources_def track_def process_def packet_of_def expire_def
  remove_source_def over_limit_def hm_defs allow_def prune_idle_def idle_ttl_def
  duration_checked_mul_def duration_max_def duration_since_def

definition strict_charged :: server where
  "strict_charged = strict_server\<lparr>source_limiter := (source_limiter strict_server)
     \<lparr>buckets := [(ipv4 10 0 0 9, \<lparr> tokens = 0, last_refill = 0, bkt_last_seen = 0 \<rparr>)]\<rparr>\<rparr>"

lemma strict_first: "512 < n \<Longrightarrow> decide (packet_of (ipv4 10 0 0 9, 5000) Udp (Some port) n) 0 strict_server
    = (Outcome Oversized, strict_charged)"
  by (simp add: strict_simps strict_charged_def)

lemma strict_second:
  "512 < n \<Longrightarrow> fst (decide (packet_of (ipv4 10 0 0 9, 5000) Udp (Some port) n) 0 strict_charged) = Banning"
  by (simp add: strict_simps strict_charged_def)

lemma banning_table:
  assumes "fst (decide (packet_of addr proto port n) (os_now os (hist m)) (srv m)) = Banning"
    and s': "remember_banned_source (snd (decide (packet_of addr proto port n) (os_now os (hist m)) (srv m)))
      (fst addr) (os_now os (hist m)) = Inr s'"
  shows "srv (snd (process_packet os (system_run_status os) addr proto port n m)) = s'"
proof -
  let ?now = "os_now os (hist m)" and ?s = "snd (decide (packet_of addr proto port n) (os_now os (hist m)) (srv m))"
  let ?f = "bind_io (attempt (ban_ip (srv_firewall (srv m)) (system_run_status os) (fst addr))) (\<lambda>r. case r of
      Inr _ \<Rightarrow> server_log os ''rate_limit_ban'' (''source_ip='' @ ip_to_string (fst addr)
        @ '' ban_timeout_seconds='' @ dec (unat (ban_timeout (srv_config (srv m)))))
    | Inl e \<Rightarrow> server_log os ''firewall_ban_failed'' (''source_ip='' @ ip_to_string (fst addr) @ '' error='' @ e))"
  let ?m2 = "m\<lparr>hist := hist m @ [ClockRead ?now], srv := s'\<rparr>"
  have k: "keeps ((=) s') ?f"
    unfolding ban_ip_def by (auto intro!: keeps_intros msys.keeps_run split: sum.splits)
  have "process_packet os (system_run_status os) addr proto port n m = ?f ?m2"
    using assms by (simp add: process_packet_eq Let_def bind_io_def try_srv_def split: prod.split sum.split)
  moreover have "s' = srv (snd (?f ?m2))"
    by (rule keepsD [OF k, of ?m2 "fst (?f ?m2)"]) simp_all
  ultimately show ?thesis by simp
qed

text \<open>The second of two large packets of one source bans it.\<close>

lemma strict_first_packet:
  assumes "512 < n" and "srv m = strict_server" and "\<And>h. os_now os h = 0"
  shows "process_packet os (system_run_status os) (ipv4 10 0 0 9, 5000) Udp (Some port) n m
    = (Inr (), m\<lparr>hist := hist m @ [ClockRead 0], srv := strict_charged\<rparr>)"
proof -
  have "\<not> packet_telemetry_enabled strict_charged"
    by (simp add: packet_telemetry_enabled_def eq_ignore_ascii_case_def to_ascii_lowercase_def strict_server_def
        server_of_def strict_config_def example_config_simps strict_charged_def)
  then show ?thesis
    by (simp add: process_packet_eq assms Let_def strict_first log_packet_telemetry_def bind_io_def with_srv_def
        telemetry_allow_def ret_def)
qed

lemma strict_second_packet:
  assumes n: "512 < n" and m: "srv m = strict_charged" and now: "\<And>h. os_now os h = 0" and "\<And>h l. os_write os h l = None"
  shows "\<exists>m'. process_packet os (system_run_status os) (ipv4 10 0 0 9, 5000) Udp (Some port) n m = (Inr (), m')
    \<and> hm_get (banned_sources (srv m')) (ipv4 10 0 0 9) = Some (from_secs (ban_timeout strict_config))"
proof -
  let ?d = "decide (packet_of (ipv4 10 0 0 9, 5000) Udp (Some port) n) 0 strict_charged"
  let ?step = "process_packet os (system_run_status os) (ipv4 10 0 0 9, 5000) Udp (Some port) n m"
  have c: "srv_config strict_charged = strict_config" "banned_sources strict_charged = []" "\<not> lock_poisoned (srv_logger strict_charged)"
    by (simp_all add: strict_charged_def strict_server_def server_of_def hm_defs)
  have lw: "log_works os m" using assms c by (simp add: log_works_def)
  have ok: "fst ?step = Inr ()"
    by (rule banning_survives(1) [OF _ _ lw])
      (use strict_second [OF n] in \<open>simp_all add: now m c strict_config_def
        example_config_simps instant_max_def from_secs_def nanos_per_sec_def\<close>)
  have d: "banned_sources (snd ?d) = []" "srv_config (snd ?d) = strict_config"
    by (simp_all add: decide_banned expire_banned_sources_def hm_defs c)
  then obtain s' where s': "remember_banned_source (snd ?d) (ipv4 10 0 0 9) 0 = Inr s'"
    "hm_get (banned_sources s') (ipv4 10 0 0 9) = Some (from_secs (ban_timeout strict_config))"
    by (auto simp: remember_banned_source_def Let_def expire_banned_sources_def hm_defs instant_checked_add_def
        strict_config_def example_config_simps from_secs_def nanos_per_sec_def instant_max_def)
  from banning_table [of "(ipv4 10 0 0 9, 5000)" Udp "Some port" n os m s'] s'(1) strict_second [OF n]
  have "srv (snd ?step) = s'" by (simp add: now m)
  with ok s'(2) show ?thesis by (cases ?step) auto
qed

lemma strict_run:
  "\<exists>m'. serve quiet_os (system_run_status quiet_os) [large_datagram, large_datagram] strict_machine = (Inr (), m')
    \<and> hm_get (banned_sources (srv m')) (ipv4 10 0 0 9) = Some (from_secs (ban_timeout strict_config))"
proof -
  let ?m1 = "strict_machine\<lparr>hist := hist strict_machine @ [ClockRead 0], srv := strict_charged\<rparr>"
  have "srv strict_machine = strict_server" by (simp add: strict_machine_def)
  from strict_first_packet [OF _ this, of 1000 quiet_os 40103] strict_second_packet [of 1000 ?m1 quiet_os 40103]
  show ?thesis by (auto simp: large_datagram_def bind_io_def ret_def quiet_os_def)
qed

theorem banned_at_limit_witness:
  "\<exists>m'. serve quiet_os (system_run_status quiet_os) [large_datagram, large_datagram] strict_machine = (Inr (), m')
    \<and> executed_between (ban_ip_command example_firewall (ipv4 10 0 0 9)) strict_machine m'"
proof -
  from strict_run obtain m2 where
    run: "serve quiet_os (system_run_status quiet_os) [large_datagram, large_datagram] strict_machine = (Inr (), m2)"
    by blast
  have "2 \<le> length (sequence (knock strict_config))"
    by (simp add: strict_config_def example_config_simps)
  from banned_at_limit [OF strict_server_new quiet_monotonic this run [unfolded strict_machine_def], of "ipv4 10 0 0 9"]
  have "executed_between (ban_ip_command (srv_firewall strict_server) (ipv4 10 0 0 9)) strict_machine m2"
    by (simp add: strict_machine_def quiet_os_def from_secs_def nanos_per_sec_def from_ip_def large_datagram_def
        packet_of_def invalid_packet_def strict_config_def example_config_simps)
  then show ?thesis using run by (auto simp: strict_server_def server_of_def)
qed

end
