(* ===== verification/ServerBan.thy ===== *)
theory ServerBan
  imports ServerLive
begin

text \<open>
  What a ban means for the source while it lasts: whatever the server receives, the source is not
  allowed. The table entry is kept by every reaction (\<open>banned_until\<close>), and a banned source's
  packets are dropped before the tracker sees them.
\<close>

section \<open>A source while it is banned\<close>

lemma runs_same: "runs a x \<Longrightarrow> runs b x \<Longrightarrow> a = (b :: command_spec)"
  by (auto simp: runs_def)

definition banned_until :: "ip_addr \<Rightarrow> instant \<Rightarrow> server \<Rightarrow> bool" where
  "banned_until ip e s = (hm_ok (banned_sources s) \<and> hm_get (banned_sources s) ip = Some e)"

lemma banned_expire: "banned_until ip e s \<Longrightarrow> now < e \<Longrightarrow> banned_until ip e (expire_banned_sources s now)"
  by (auto simp: banned_until_def get_expired) (simp add: expire_banned_sources_def)

lemma banned_remember:
  "banned_until ip e s \<Longrightarrow> now < e \<Longrightarrow> ip' \<noteq> ip \<Longrightarrow> remember_banned_source s ip' now = Inr s' \<Longrightarrow>
    banned_until ip e s'"
  using banned_expire [of ip e s now]
  by (auto simp: remember_banned_source_def Let_def banned_until_def split: if_splits option.splits)

lemma banned_telemetry: "banned_until ip e s \<Longrightarrow> banned_until ip e (snd (telemetry_allow now s))"
  by (simp add: telemetry_allow_def banned_until_def split: prod.splits)

context machine_runner begin

lemma keeps_banned:
  assumes "t < e" and "v = Banning \<Longrightarrow> ip' \<noteq> ip"
  shows "keeps (banned_until ip e) (react os run_status s ip' t v)"
proof (cases v)
  case Dropped
  then show ?thesis by (simp add: keeps_leaf)
next
  case Banning
  then show ?thesis
    using assms banned_remember
    by (auto simp: ban_ip_def intro!: keeps_intros keeps_try_srv keeps_run split: sum.splits)
next
  case (Outcome oc)
  show ?thesis
    unfolding Outcome react.simps log_packet_telemetry_def add_ip_def
    by (auto intro!: keeps_intros keeps_with_srv banned_telemetry keeps_run split: sum.splits)
qed

lemma banned_step:
  assumes "process_datagram os run_status d m = (r, m')"
    and b: "banned_until ip e (srv m)" and now: "os_now os (hist m) < e"
    and names: "fw_ipset_name (srv_firewall (srv m)) \<noteq> fw_ban_ipset_name (srv_firewall (srv m))"
  shows "banned_until ip e (srv m')"
    and "\<exists>es. hist m' = hist m @ es \<and> list_all (\<lambda>x. \<not> runs (add_ip_command (srv_firewall (srv m)) ip) x) es"
proof -
  obtain addr proto port n where d: "d = (addr, proto, port, n)" by (cases d)
  let ?now = "os_now os (hist m)" and ?fw = "srv_firewall (srv m)"
  let ?v = "decide (packet_of addr proto port n) ?now (srv m)"
  let ?m1 = "m\<lparr>hist := hist m @ [ClockRead ?now], srv := snd ?v\<rparr>"
  have react: "react os run_status (snd ?v) (fst addr) ?now (fst ?v) ?m1 = (r, m')"
    using assms(1) by (simp add: d process_packet_eq Let_def)
  have exp: "banned_until ip e (expire_banned_sources (srv m) ?now)" by (rule banned_expire [OF b now])
  have drop: "fst ?v = Dropped" if "fst addr = ip"
    using exp that by (simp add: decide_def is_source_banned_def Let_def banned_until_def)
  have k: "keeps (banned_until ip e) (react os run_status (snd ?v) (fst addr) ?now (fst ?v))"
    using drop by (intro keeps_banned now) auto
  have "banned_until ip e (srv ?m1)" using exp by (simp add: banned_until_def decide_banned)
  from keepsD [OF k react this] show "banned_until ip e (srv m')" .
  from emitsD [OF emits_react react] obtain es where
    es: "hist m' = hist ?m1 @ es" "list_all (reaction_event (snd ?v) (fst addr) (fst ?v)) es" by blast
  have "\<not> runs (add_ip_command ?fw ip) x" if "reaction_event (snd ?v) (fst addr) (fst ?v) x" for x
  proof
    assume r: "runs (add_ip_command ?fw ip) x"
    then have nl: "\<not> logs ev msg x" for ev msg by (auto simp: logs_def runs_def)
    have "runs (ban_ip_command ?fw (fst addr)) x \<or> fst ?v = Outcome Accepted \<and> runs (add_ip_command ?fw (fst addr)) x"
      using that nl by (auto simp: reaction_event_def telemetry_event_def split: verdict.splits if_splits)
    then show False
    proof
      assume "runs (ban_ip_command ?fw (fst addr)) x"
      from runs_same [OF r this] show False using add_not_ban [OF names] by blast
    next
      assume acc: "fst ?v = Outcome Accepted \<and> runs (add_ip_command ?fw (fst addr)) x"
      then have "runs (add_ip_command ?fw (fst addr)) x" ..
      from runs_same [OF r this] have "fst addr = ip" by (simp add: add_ip_command_inj)
      from drop [OF this] acc show False by simp
    qed
  qed
  then have "list_all (\<lambda>x. \<not> runs (add_ip_command ?fw ip) x) es"
    using es(2) by (auto simp: list_all_iff)
  moreover have "\<not> runs (add_ip_command ?fw ip) (ClockRead ?now)" by (simp add: runs_def)
  ultimately show "\<exists>es. hist m' = hist m @ es \<and> list_all (\<lambda>x. \<not> runs (add_ip_command ?fw ip) x) es"
    using es(1) by (intro exI [of _ "ClockRead ?now # es"]) simp
qed

lemma banned_run:
  assumes mono: "monotonic os" and "serve os run_status ds m = (r, m')"
    and "banned_until ip e (srv m)" and "os_now os (hist m') < e"
    and "fw_ipset_name (srv_firewall (srv m)) \<noteq> fw_ban_ipset_name (srv_firewall (srv m))"
    and "2 \<le> length (sequence (knock c))" and "between os c tr m"
  shows "\<exists>es. hist m' = hist m @ es \<and> list_all (\<lambda>x. \<not> runs (add_ip_command (srv_firewall (srv m)) ip) x) es"
  using assms(2-5,7)
proof (induction ds arbitrary: m tr)
  case Nil
  then show ?case by (simp add: ret_def)
next
  case (Cons d ds)
  obtain r1 m1 where 1: "process_datagram os run_status d m = (r1, m1)"
    by (cases "process_datagram os run_status d m")
  note b = between_step [OF mono assms(6) Cons.prems(5) 1]
  obtain es1 where es1: "hist m1 = hist m @ es1" using process_appends [of os d m] 1 by auto
  show ?case
  proof (cases r1)
    case (Inl x)
    then have "m' = m1" using Cons.prems(1) 1 by (simp add: bind_io_def)
    moreover have "os_now os (hist m) \<le> os_now os (hist m1)"
      using mono by (simp add: monotonic_def es1)
    ultimately have "os_now os (hist m) < e" using Cons.prems(3) by simp
    from banned_step(2) [OF 1 Cons.prems(2) this Cons.prems(4)] show ?thesis unfolding \<open>m' = m1\<close> .
  next
    case (Inr u)
    then have 2: "serve os run_status ds m1 = (r, m')" using Cons.prems(1) 1 by (simp add: bind_io_def)
    obtain es2 where es2: "hist m' = hist m1 @ es2" using serve_appends [OF 2] by blast
    have "os_now os (hist m) \<le> os_now os (hist m')"
      using mono by (simp add: monotonic_def es1 es2)
    then have "os_now os (hist m) < e" using Cons.prems(3) by simp
    note st = banned_step [OF 1 Cons.prems(2) this Cons.prems(4)]
    from Cons.IH [OF 2 st(1) Cons.prems(3) _ b(1)] Cons.prems(4) obtain es' where
      "hist m' = hist m1 @ es'" "list_all (\<lambda>x. \<not> runs (add_ip_command (srv_firewall (srv m)) ip) x) es'"
      by (auto simp: b(2))
    with st(2) show ?thesis by auto
  qed
qed

end

lemma banned_run_fresh:
  assumes new: "server_new os c w = (Inr s, w1)" and mono: "monotonic os" and len: "2 \<le> length (sequence (knock c))"
    and names: "ipset_name c \<noteq> ban_ipset_name c"
    and run0: "serve os (system_run_status os) ds0 \<lparr> hist = hist w1, srv = s \<rparr> = (r0, m)"
    and ban: "hm_get (banned_sources (srv m)) ip = Some e"
    and run: "serve os (system_run_status os) ds m = (r, m')" and e: "os_now os (hist m') < e"
  shows "\<not> executed_between (add_ip_command (srv_firewall s) ip) m m'"
proof -
  note m = served_between [OF new mono len run0]
  from m(1) obtain tr where bt: "between os c tr m" by blast
  then have "hm_ok (banned_sources (srv m))" by (auto simp: between_def dest: server_okD(2))
  then have b: "banned_until ip e (srv m)" using ban by (simp add: banned_until_def)
  have "fw_ipset_name (srv_firewall s) \<noteq> fw_ban_ipset_name (srv_firewall s)"
    using new names unfolding server_new_def
    by (elim bind_io_Inr) (auto simp: ret_def of_result_def server_of_def firewall_new_def and_then_def
        split: sum.splits if_splits)
  then have "fw_ipset_name (srv_firewall (srv m)) \<noteq> fw_ban_ipset_name (srv_firewall (srv m))" by (simp add: m(2))
  from msys.banned_run [OF mono run b e this len bt] show ?thesis
    unfolding executed_between_def m(2) by (auto simp: list_all_iff)
qed

text \<open>
  A ban is not overridden by a knock. From any state that a server reaches, while the ban of a
  source has not run out, the allow command for its address is not executed, whatever it
  or any other source sends: not even the complete knock sequence.
\<close>

theorem banned_source_not_allowed:
  "server_new os c w = (Inr s, w1) \<Longrightarrow> monotonic os \<Longrightarrow> 2 \<le> length (sequence (knock c)) \<Longrightarrow>
    ipset_name c \<noteq> ban_ipset_name c \<Longrightarrow>
    serve os (system_run_status os) ds0 \<lparr> hist = hist w1, srv = s \<rparr> = (r0, m) \<Longrightarrow>
    hm_get (banned_sources (srv m)) ip = Some e \<Longrightarrow>
    serve os (system_run_status os) ds m = (r, m') \<Longrightarrow> os_now os (hist m') < e \<Longrightarrow>
    \<not> executed_between (add_ip_command (srv_firewall s) ip) m m'"
  by (rule banned_run_fresh)

text \<open>The banned source of the previous example knocks the whole sequence.\<close>

definition late_knock :: "datagram list" where
  "late_knock = map (\<lambda>(port, n). ((ipv4 10 0 0 9, 5000), Udp, Some port, n)) [(40101, 64), (40102, 128), (40103, 96)]"

theorem banned_source_not_allowed_witness:
  "\<exists>m r m'. serve quiet_os (system_run_status quiet_os) [large_datagram, large_datagram] strict_machine = (Inr (), m)
    \<and> serve quiet_os (system_run_status quiet_os) late_knock m = (r, m')
    \<and> \<not> executed_between (add_ip_command example_firewall (ipv4 10 0 0 9)) m m'"
proof -
  from strict_run obtain m where
    run: "serve quiet_os (system_run_status quiet_os) [large_datagram, large_datagram] strict_machine = (Inr (), m)"
      "hm_get (banned_sources (srv m)) (ipv4 10 0 0 9) = Some (from_secs (ban_timeout strict_config))" by blast
  obtain r m' where late: "serve quiet_os (system_run_status quiet_os) late_knock m = (r, m')"
    by (cases "serve quiet_os (system_run_status quiet_os) late_knock m")
  have "2 \<le> length (sequence (knock strict_config))" "ipset_name strict_config \<noteq> ban_ipset_name strict_config"
    by (simp_all add: strict_config_def example_config_simps)
  from banned_source_not_allowed [OF strict_server_new quiet_monotonic this run(1) [unfolded strict_machine_def]
      run(2) late]
  have "\<not> executed_between (add_ip_command (srv_firewall strict_server) (ipv4 10 0 0 9)) m m'"
    by (simp add: quiet_os_def from_secs_def nanos_per_sec_def strict_config_def example_config_simps)
  then show ?thesis using run(1) late by (auto simp: strict_server_def server_of_def)
qed

end
