(* ===== verification/BanSpec.thy ===== *)
theory BanSpec
  imports Invariants ServerBan DaemonSpec
begin

text \<open>
  Bans in the running daemon: as long as the ban of a source has not run out, no round of the poll
  loop executes the allow command for it.
\<close>

definition barred :: "os \<Rightarrow> firewall \<Rightarrow> ip_addr \<Rightarrow> instant \<Rightarrow> transcript \<Rightarrow> machine \<Rightarrow> bool" where
  "barred os fw ip e h0 m = (monotonic os \<and> fw_ipset_name fw \<noteq> fw_ban_ipset_name fw \<and> srv_firewall (srv m) = fw
     \<and> (os_now os (hist m) < e \<longrightarrow> banned_until ip e (srv m)
          \<and> (\<exists>es. hist m = h0 @ es \<and> list_all (\<lambda>x. \<not> runs (add_ip_command fw ip) x) es)))"

lemma barred_later:
  assumes "barred os fw ip e h0 m" and "hist m' = hist m @ es" and "srv_firewall (srv m') = srv_firewall (srv m)"
    and "os_now os (hist m) < e \<Longrightarrow> banned_until ip e (srv m')
      \<and> list_all (\<lambda>x. \<not> runs (add_ip_command fw ip) x) es"
  shows "barred os fw ip e h0 m'"
proof -
  have "os_now os (hist m) \<le> os_now os (hist m')" using assms(1,2) by (simp add: barred_def monotonic_def)
  then have "os_now os (hist m') < e \<Longrightarrow> os_now os (hist m) < e" by simp
  then show ?thesis using assms by (fastforce simp: barred_def)
qed

lemma packet_firewall:
  "srv_firewall (srv (snd (process_packet os (system_run_status os) addr proto port n m))) = srv_firewall (srv m)"
proof -
  let ?s = "snd (decide (packet_of addr proto port n) (os_now os (hist m)) (srv m))"
  let ?v = "fst (decide (packet_of addr proto port n) (os_now os (hist m)) (srv m))"
  have "keeps (\<lambda>s. srv_firewall s = srv_firewall (srv m)) (react os (system_run_status os) ?s (fst addr) t ?v)" for t
  proof (cases ?v)
    case Dropped
    then show ?thesis by (simp add: keeps_leaf)
  next
    case Banning
    then show ?thesis
      using remember_fields
      by (auto simp: ban_ip_def same_core_def intro!: keeps_intros keeps_try_srv msys.keeps_run split: sum.splits)
  next
    case (Outcome oc)
    then show ?thesis
      by (auto simp: add_ip_def log_packet_telemetry_def telemetry_allow_def
          intro!: keeps_intros keeps_with_srv msys.keeps_run split: sum.splits prod.splits)
  qed
  then show ?thesis by (simp add: process_packet_eq Let_def keeps_def)
qed

interpretation ban: server_invariant "barred os fw ip e h0" "barred os fw ip e h0" os
proof unfold_locales
  fix addr proto port n
  show "triple (barred os fw ip e h0) (process_packet os (system_run_status os) addr proto port n)
      (\<lambda>_. barred os fw ip e h0) (barred os fw ip e h0)"
  proof (rule triple_upholds)
    show "upholds (barred os fw ip e h0) (process_packet os (system_run_status os) addr proto port n)"
      unfolding upholds_def
    proof (intro allI impI)
      fix m
      assume m: "barred os fw ip e h0 m"
      let ?m' = "snd (process_packet os (system_run_status os) addr proto port n m)"
      obtain r where step: "process_datagram os (system_run_status os) (addr, proto, port, n) m = (r, ?m')"
        by (metis prod.collapse process_datagram.simps)
      obtain es where es: "hist ?m' = hist m @ es"
        using msys.process_appends [of os os "(addr, proto, port, n)" m] by auto
      show "barred os fw ip e h0 ?m'"
      proof (rule barred_later [OF m es packet_firewall])
        assume now: "os_now os (hist m) < e"
        then have "banned_until ip e (srv m)" "fw_ipset_name (srv_firewall (srv m)) \<noteq> fw_ban_ipset_name (srv_firewall (srv m))"
          and fw: "srv_firewall (srv m) = fw"
          using m by (auto simp: barred_def)
        from msys.banned_step [OF step this(1) now this(2)] es fw
        show "banned_until ip e (srv ?m') \<and> list_all (\<lambda>x. \<not> runs (add_ip_command fw ip) x) es" by auto
      qed
    qed
  qed
next
  fix m and x :: event
  assume m: "barred os fw ip e h0 m" and "background x"
  then have "\<not> runs (add_ip_command fw ip) x" by (cases x) (auto simp: runs_def add_ip_command_def)
  with barred_later [OF m, of "m\<lparr>hist := hist m @ [x]\<rparr>" "[x]"] m
  show "barred os fw ip e h0 (m\<lparr>hist := hist m @ [x]\<rparr>)" by (simp add: barred_def)
qed simp

lemma rounds_barred:
  assumes "monotonic os" and "fw_ipset_name (srv_firewall (srv m)) \<noteq> fw_ban_ipset_name (srv_firewall (srv m))"
    and "banned_until ip e (srv m)" and run: "poll_rounds os (system_run_status os) c ls n ps m = (r, m')"
    and e: "os_now os (hist m') < e"
  shows "\<not> executed_between (add_ip_command (srv_firewall (srv m)) ip) m m'"
proof -
  have b: "barred os (srv_firewall (srv m)) ip e (hist m) m"
    using assms(1-3) by (auto simp: barred_def intro: exI [of _ "[]"])
  have "barred os (srv_firewall (srv m)) ip e (hist m) m'"
    using triple_ok [OF ban.poll_rounds b] triple_fail [OF ban.poll_rounds b] run by (cases r) blast+
  with e show ?thesis by (auto simp: barred_def executed_between_def list_all_iff)
qed

lemma fresh_rounds_barred:
  assumes new: "server_new os c \<lparr> hist = [] \<rparr> = (Inr s, w)" and mono: "monotonic os"
    and len: "2 \<le> length (sequence (knock c))" and names: "ipset_name c \<noteq> ban_ipset_name c"
    and run0: "poll_rounds os (system_run_status os) c ls0 n0 [] (machine_of w s) = (Inr ps, m)"
    and ban: "hm_get (banned_sources (srv m)) ip = Some e"
    and run: "poll_rounds os (system_run_status os) c ls n ps m = (r, m')" and e: "os_now os (hist m') < e"
  shows "\<not> executed_between (add_ip_command (srv_firewall s) ip) m m'"
proof -
  obtain fw lg where fw: "firewall_new (ipset_name c) (ban_ipset_name c) (ip_timeout c) (ban_timeout c)
      (firewall_backend c) (address_family c) = Inr fw" and s: "s = server_of c fw lg"
    using new unfolding server_new_def by (elim bind_io_Inr) (auto simp: ret_def of_result_def split: sum.splits)
  have "emits (plain fw) (server_new os c)"
    unfolding server_new_def logger_new_def by (auto intro!: emits_intros plain_files split: option.split)
  from emitsD [OF this new] have "list_all (plain fw) (hist w)" by auto
  then have start: "loop_inv os c fw [] (machine_of w s)" unfolding s by (rule fresh_loop_inv [OF fw])
  have distinct: "fw_ipset_name fw \<noteq> fw_ban_ipset_name fw" using names firewall_new_ok(1) [OF fw] by simp
  from triple_ok [OF msys.triple_poll_rounds [OF mono len distinct] start run0] have "loop_inv os c fw ps m" .
  then have "hm_ok (banned_sources (srv m))" and f: "srv_firewall (srv m) = fw"
    by (auto simp: loop_inv_def traced_def between_def dest: server_okD(2))
  with ban have "banned_until ip e (srv m)" by (simp add: banned_until_def)
  from rounds_barred [OF mono _ this run e] distinct show ?thesis by (simp add: f s server_of_def)
qed

text \<open>
  C4: a ban holds, for a configuration that gives the allow set and the ban set different names
  (validation does not ask for it: with one name for both, banning a source would itself add it to
  the allow set), that has at least two steps, and on a system whose clock is monotonic. From any
  state that the poll loop reaches from a fresh server with this configuration, for as long as the
  ban of a source has not run out, no round of the loop executes the allow command for its address,
  whatever arrives on the UDP, TCP and ICMP sockets: not even the complete knock sequence.
\<close>

theorem ban_holds:
  "server_new os c \<lparr> hist = [] \<rparr> = (Inr s, w) \<Longrightarrow> monotonic os \<Longrightarrow> 2 \<le> length (sequence (knock c)) \<Longrightarrow>
    ipset_name c \<noteq> ban_ipset_name c \<Longrightarrow>
    poll_rounds os (system_run_status os) c ls0 n0 [] (machine_of w s) = (Inr ps, m) \<Longrightarrow>
    hm_get (banned_sources (srv m)) ip = Some e \<Longrightarrow>
    poll_rounds os (system_run_status os) c ls n ps m = (r, m') \<Longrightarrow> os_now os (hist m') < e \<Longrightarrow>
    \<not> executed_between (add_ip_command (srv_firewall s) ip) m m'"
  by (rule fresh_rounds_barred)

text \<open>Two large datagrams of one source ban it; then it sends the whole knock sequence.\<close>

definition banned_os :: os where
  "banned_os = quiet_os\<lparr> os_recv_udp := \<lambda>h p. Inr
     (if p = 40101 then 64 else if p = 40102 then 128 else if p = 40103 then 96 else 513, (ipv4 10 0 0 9, 5000)) \<rparr>"

lemma banned_os_calls: "os_now banned_os h = 0" "os_write banned_os h l = None"
  "os_recv_udp banned_os h p
    = Inr (if p = 40101 then 64 else if p = 40102 then 128 else if p = 40103 then 96 else 513, (ipv4 10 0 0 9, 5000))"
  by (simp_all add: banned_os_def quiet_os_def)

lemma banned_os_new: "server_new banned_os strict_config w =
    (Inr strict_server, snd (server_new quiet_os strict_config w))"
proof -
  have "server_new banned_os strict_config w = server_new quiet_os strict_config w"
    by (simp add: server_new_def banned_os_def logger_new_def split: option.split)
  then show ?thesis using strict_server_new by metis
qed

lemma banned_os_round:
  assumes m: "srv m = strict_server"
  shows "\<exists>m'. poll_rounds banned_os (system_run_status banned_os) strict_config ([1, 1], [], False) 1 [] m = (Inr [], m')
    \<and> hm_get (banned_sources (srv m')) (ipv4 10 0 0 9) = Some (from_secs (ban_timeout strict_config))"
proof -
  let ?ev = "RecvUdp 1 (Inr (513, (ipv4 10 0 0 9, 5000)))"
  let ?m1 = "\<lparr>hist = hist m @ [?ev, ClockRead 0, ?ev], srv = strict_charged\<rparr>"
  have size: "delivered 513 (buffer_len strict_config) = 513"
    by (simp add: delivered_def buffer_len_def saturating_add_def strict_config_def example_config_simps)
  from strict_first_packet [of 513 "m\<lparr>hist := hist m @ [?ev]\<rparr>" banned_os 1] m
  have 1: "process_packet banned_os (system_run_status banned_os) (ipv4 10 0 0 9, 5000) Udp (Some 1) 513
      (m\<lparr>hist := hist m @ [?ev]\<rparr>) = (Inr (), \<lparr>hist = hist m @ [?ev, ClockRead 0], srv = strict_charged\<rparr>)"
    by (cases m) (simp add: banned_os_calls)
  from strict_second_packet [of 513 ?m1 banned_os 1] obtain m2 where
    2: "process_packet banned_os (system_run_status banned_os) (ipv4 10 0 0 9, 5000) Udp (Some 1) 513 ?m1 = (Inr (), m2)"
      "hm_get (banned_sources (srv m2)) (ipv4 10 0 0 9) = Some (from_secs (ban_timeout strict_config))"
    by (auto simp: banned_os_calls)
  have udp: "poll_udp banned_os (system_run_status banned_os) strict_config [1, 1] m = (Inr (), m2)"
    using 1 2(1) by (simp add: bind_io_def call_def banned_os_calls size ret_def)
  have "poll_once banned_os (system_run_status banned_os) strict_config ([1, 1], [], False) [] m
      = (Inr [], m2\<lparr>hist := hist m2 @ [ClockRead 0, Sleep 10000000]\<rparr>)"
    by (simp add: poll_once_def bind_io_def udp del: poll_udp.simps)
      (simp add: instant_now_def call_def banned_os_calls ret_def read_pending.simps poll_icmp_def sleep_def)
  then show ?thesis using 2(2) by (simp add: bind_io_def ret_def)
qed

theorem ban_holds_witness:
  "\<exists>m0 m r m'. poll_rounds banned_os (system_run_status banned_os) strict_config ([1, 1], [], False) 1 [] m0 = (Inr [], m)
    \<and> poll_rounds banned_os (system_run_status banned_os) strict_config ([40101, 40102, 40103], [], False) 1 [] m = (r, m')
    \<and> \<not> executed_between (add_ip_command example_firewall (ipv4 10 0 0 9)) m m'"
proof -
  let ?m0 = "machine_of (snd (server_new quiet_os strict_config \<lparr> hist = [] \<rparr>)) strict_server"
  have "srv ?m0 = strict_server" by (simp add: machine_of_def)
  from banned_os_round [OF this] obtain m where
    m: "poll_rounds banned_os (system_run_status banned_os) strict_config ([1, 1], [], False) 1 [] ?m0 = (Inr [], m)"
      "hm_get (banned_sources (srv m)) (ipv4 10 0 0 9) = Some (from_secs (ban_timeout strict_config))" by blast
  obtain r m' where late: "poll_rounds banned_os (system_run_status banned_os) strict_config
      ([40101, 40102, 40103], [], False) 1 [] m = (r, m')" by (meson surj_pair)
  have len: "2 \<le> length (sequence (knock strict_config))" and names: "ipset_name strict_config \<noteq> ban_ipset_name strict_config"
    by (simp_all add: strict_config_def example_config_simps)
  have mono: "monotonic banned_os" by (simp add: monotonic_def banned_os_calls)
  have "os_now banned_os (hist m') < from_secs (ban_timeout strict_config)"
    by (simp add: banned_os_calls from_secs_def nanos_per_sec_def strict_config_def example_config_simps)
  from ban_holds [OF banned_os_new mono len names m late this]
  have "\<not> executed_between (add_ip_command example_firewall (ipv4 10 0 0 9)) m m'"
    by (simp add: strict_server_def server_of_def)
  with m(1) late show ?thesis by blast
qed

end
