(* ===== verification/PollLive.thy ===== *)
theory PollLive
  imports PollSpec
begin

text \<open>
  When the poll loop ends and when it does not: with a system that works it runs for ever, whatever
  packets arrive, and a connection that is reset ends it.
\<close>

section \<open>A round that does not fail\<close>

text \<open>
  A system on which nothing the loop relies on fails. The ban command may fail, and so may the
  commands of other programs.
\<close>

definition healthy :: "os \<Rightarrow> config \<Rightarrow> firewall \<Rightarrow> bool" where
  "healthy os c fw = ((\<forall>h l. os_write os h l = None)
     \<and> (\<forall>h ip. command_works (os_exec os h ''ipset'' (args (add_ip_command fw ip))))
     \<and> (\<forall>h k. os_nonblocking os h k = None)
     \<and> (\<forall>h p e. os_recv_udp os h p = Inl e \<longrightarrow> error_kind_of e = WouldBlock)
     \<and> (\<forall>h p e. os_accept os h p = Inl e \<longrightarrow> error_kind_of e = WouldBlock)
     \<and> (\<forall>h s e. os_read_tcp os h s = Inl e \<longrightarrow> error_kind_of e = WouldBlock \<or> error_kind_of e = TimedOut)
     \<and> (\<forall>h e. os_recv_icmp os h = Inl e \<longrightarrow> error_kind_of e = WouldBlock)
     \<and> (\<forall>h n. os_recv_icmp os h \<noteq> Inr (n, None))
     \<and> (\<forall>h. os_now os h + from_secs (partial_state_timeout c) \<le> instant_max)
     \<and> (\<forall>h. os_now os h + from_secs (ban_timeout c) \<le> instant_max))"

definition steady :: "config \<Rightarrow> firewall \<Rightarrow> machine \<Rightarrow> bool" where
  "steady c fw m = (srv_config (srv m) = c \<and> srv_firewall (srv m) = fw \<and> \<not> lock_poisoned (srv_logger (srv m)))"

text \<open>\<open>lasts c fw f\<close>: from a steady state, \<open>f\<close> does not fail and leads to a steady state.\<close>

abbreviation lasts :: "config \<Rightarrow> firewall \<Rightarrow> (machine, 'a) io \<Rightarrow> bool" where
  "lasts c fw f \<equiv> triple (steady c fw) f (\<lambda>_. steady c fw) (\<lambda>_. False)"

lemma lasts_ret: "lasts c fw (ret x)"
  by (simp add: triple_ret)

lemma lasts_bind: "lasts c fw f \<Longrightarrow> (\<And>x. lasts c fw (g x)) \<Longrightarrow> lasts c fw (bind_io f g)"
  by (rule triple_bind)

text \<open>A call is followed by what its answer can lead to.\<close>

lemma lasts_call: "(\<And>h. lasts c fw (g (ask h))) \<Longrightarrow> lasts c fw (bind_io (call ask ev) g)"
  by (simp add: triple_def bind_io_def call_def steady_def)

lemma lasts_with_srv:
  "(\<And>s. srv_config (snd (f s)) = srv_config s \<and> srv_firewall (snd (f s)) = srv_firewall s
      \<and> srv_logger (snd (f s)) = srv_logger s) \<Longrightarrow> lasts c fw (with_srv f)"
  by (simp add: triple_def with_srv_def steady_def split_beta)

lemma lasts_log: "healthy os c fw \<Longrightarrow> lasts c fw (server_log os ev msg)"
proof (rule tripleI)
  fix m x m'
  assume "steady c fw m" and "server_log os ev msg m = (Inr x, m')"
  then show "steady c fw m'"
    using srv_more [OF frameD [OF frame_server_log]] by (metis steady_def)
next
  fix m e m'
  assume "healthy os c fw" and "steady c fw m" and "server_log os ev msg m = (Inl e, m')"
  then show False using server_log_ok [of os m ev msg] by (simp add: healthy_def steady_def log_works_def)
qed

lemma lasts_attempt_run: "lasts c fw (attempt (run (system_run_status os) cmd))"
  by (simp add: triple_def attempt_def run_answer Let_def steady_def)

lemma lasts_allow:
  assumes "healthy os c fw"
  shows "lasts c fw (bind_io (attempt (run (system_run_status os) (add_ip_command fw ip)))
    (\<lambda>r. case r of Inl e \<Rightarrow> g e | Inr _ \<Rightarrow> server_log os ev msg))"
proof -
  have "command_works (os_exec os h (program (add_ip_command fw ip)) (args (add_ip_command fw ip)))" for h
    using assms by (simp add: healthy_def add_ip_command_def)
  moreover have "lasts c fw (server_log os ev msg)" by (rule lasts_log [OF assms])
  ultimately show ?thesis
    by (simp add: triple_def bind_io_def attempt_def run_answer Let_def steady_def)
qed

lemma lasts_remember:
  assumes "now + from_secs (ban_timeout c) \<le> instant_max"
  shows "lasts c fw (try_srv (\<lambda>s. remember_banned_source s ip now))"
proof -
  have "\<exists>s'. remember_banned_source s ip now = Inr s'" if "srv_config s = c" for s
    using assms that by (auto simp: remember_banned_source_def Let_def instant_checked_add_def)
  then show ?thesis
    using remember_fields by (fastforce simp: triple_def try_srv_def steady_def same_core_def split: sum.split)
qed

lemma lasts_telemetry: "healthy os c fw \<Longrightarrow> lasts c fw (log_packet_telemetry os ip oc now)"
  unfolding log_packet_telemetry_def
  by (auto simp: telemetry_allow_def split: prod.split intro!: lasts_bind lasts_with_srv lasts_ret lasts_log)

lemma lasts_react:
  assumes "healthy os c fw" and "srv_firewall s = fw" and "now + from_secs (ban_timeout c) \<le> instant_max"
  shows "lasts c fw (react os (system_run_status os) s ip now v)"
proof (cases v)
  case Dropped
  then show ?thesis by (simp add: lasts_ret)
next
  case Banning
  then show ?thesis
    by (auto simp: ban_ip_def intro!: lasts_bind lasts_remember [OF assms(3)] lasts_attempt_run
        lasts_log [OF assms(1)] split: sum.split)
next
  case (Outcome oc)
  show ?thesis
    unfolding Outcome react.simps add_ip_def assms(2)
    by (intro lasts_bind lasts_telemetry triple_if lasts_allow lasts_ret assms(1))
qed

lemma lasts_packet:
  assumes "healthy os c fw"
  shows "lasts c fw (process_packet os (system_run_status os) addr proto port n)"
proof (rule triple_pre)
  fix m
  assume m: "steady c fw m"
  let ?now = "os_now os (hist m)" and ?d = "decide (packet_of addr proto port n) (os_now os (hist m)) (srv m)"
  have s: "steady c fw (m\<lparr>hist := hist m @ [ClockRead ?now], srv := snd ?d\<rparr>)" "srv_firewall (snd ?d) = fw"
    using m decide_fields [of "packet_of addr proto port n" ?now "srv m"] by (simp_all add: steady_def)
  have "?now + from_secs (ban_timeout c) \<le> instant_max" using assms by (simp add: healthy_def)
  note react = lasts_react [OF assms s(2) this, of "fst addr" "fst ?d"]
  have eq: "process_packet os (system_run_status os) addr proto port n m = react os (system_run_status os)
      (snd ?d) (fst addr) ?now (fst ?d) (m\<lparr>hist := hist m @ [ClockRead ?now], srv := snd ?d\<rparr>)"
    by (simp only: process_packet_eq Let_def)
  show "triple (\<lambda>t. t = m) (process_packet os (system_run_status os) addr proto port n)
      (\<lambda>_. steady c fw) (\<lambda>_. False)"
    using react s(1) by (intro tripleI) (auto simp: eq dest: triple_ok triple_fail)
qed

lemma lasts_poll_udp: "healthy os c fw \<Longrightarrow> lasts c fw (poll_udp os (system_run_status os) c ports)"
proof (induction ports)
  case (Cons port ports)
  then show ?case
    unfolding poll_udp.simps
    by (intro lasts_call) (auto simp: healthy_def split: sum.split intro!: lasts_bind [OF lasts_packet])
qed (simp add: lasts_ret)

text \<open>The deadline of a connection is representable when the clock reading is not too late.\<close>

lemma lasts_accept_all:
  assumes "healthy os c fw" and "now + from_secs (partial_state_timeout c) \<le> instant_max"
  shows "lasts c fw (accept_all os now (from_secs (partial_state_timeout c)) max_pending port ps)"
proof (induction "max_pending - length ps" arbitrary: ps rule: less_induct)
  case less
  show ?case
  proof (cases "max_pending \<le> length ps")
    case True
    then show ?thesis by (subst accept_all.simps) (simp add: lasts_ret)
  next
    case False
    then have "lasts c fw (accept_all os now (from_secs (partial_state_timeout c)) max_pending port (ps @ [p]))" for p
      using less [of "ps @ [p]"] by simp
    then show ?thesis
      using False assms
      by (subst accept_all.simps)
        (auto simp: healthy_def instant_checked_add_def set_nonblocking_def none_or_fail_def
          intro!: lasts_call lasts_ret split: sum.split)
  qed
qed

lemma lasts_accept_ports:
  "healthy os c fw \<Longrightarrow> now + from_secs (partial_state_timeout c) \<le> instant_max \<Longrightarrow>
    lasts c fw (accept_ports os now (from_secs (partial_state_timeout c)) max_pending ports ps)"
  by (induction ports arbitrary: ps) (auto intro!: lasts_ret lasts_bind lasts_accept_all)

lemma lasts_read_pending:
  assumes "healthy os c fw"
  shows "lasts c fw (read_pending os (system_run_status os) c now index ps)"
proof (induction "length ps - index" arbitrary: ps index rule: less_induct)
  case less
  show ?case
  proof (cases "index < length ps")
    case False
    then show ?thesis by (subst read_pending.simps) (simp add: lasts_ret)
  next
    case True
    then have "length (swap_remove ps index) - index < length ps - index" "length ps - Suc index < length ps - index"
      by simp_all
    note again = less [OF this(1)] less [OF this(2)]
    have "lasts c fw (read_tcp_knock os stream (buffer_len c))" for stream
      unfolding read_tcp_knock_def
      by (rule lasts_call) (use assms in \<open>auto simp: healthy_def intro!: lasts_ret split: sum.split\<close>)
    then show ?thesis
      using True
      by (subst read_pending.simps)
        (auto intro!: lasts_bind lasts_packet [OF assms] again split: option.split)
  qed
qed

lemma lasts_poll_icmp:
  assumes "healthy os c fw"
  shows "lasts c fw (poll_icmp os (system_run_status os) c icmp)"
proof -
  have "lasts c fw (case r of
          Inr (n, addr) \<Rightarrow>
            bind_io (of_result (context_opt addr ''failed to read ICMP source address'')) (\<lambda>addr.
              process_packet os (system_run_status os) addr Icmp None
                (of_nat (unat (delivered n (icmp_buffer_len c)) - icmp_header_len)))
        | Inl e \<Rightarrow> if error_kind_of e = WouldBlock then ret () else throw (Err (error_text e)))"
    if "r = os_recv_icmp os h" for r h
  proof (cases r)
    case (Inl e)
    then show ?thesis using that assms by (auto simp: healthy_def lasts_ret)
  next
    case (Inr x)
    have "os_recv_icmp os h \<noteq> Inr (fst x, None)" using assms by (simp add: healthy_def)
    with Inr that obtain n a where "r = Inr (n, Some a)" by (cases x) auto
    then show ?thesis using lasts_packet [OF assms] by (simp add: of_result_def bind_io_def)
  qed
  then show ?thesis
    unfolding poll_icmp_def by (auto intro!: lasts_ret lasts_call)
qed

lemma lasts_poll_once:
  assumes "healthy os c fw"
  shows "lasts c fw (poll_once os (system_run_status os) c ls ps)"
proof -
  obtain udp tcp icmp where ls: "ls = (udp, tcp, icmp)" by (cases ls)
  have now: "os_now os h + from_secs (partial_state_timeout c) \<le> instant_max" for h
    using assms by (simp add: healthy_def)
  show ?thesis
    unfolding poll_once_def ls prod.case instant_now_def sleep_def
    by (intro lasts_bind lasts_call lasts_poll_udp lasts_accept_ports lasts_read_pending lasts_poll_icmp
        lasts_ret now assms)
qed

lemma lasts_poll_rounds: "healthy os c fw \<Longrightarrow> lasts c fw (poll_rounds os (system_run_status os) c ls n ps)"
  by (induction n arbitrary: ps) (auto intro!: lasts_ret lasts_bind lasts_poll_once)

text \<open>So the endless loop does not end.\<close>

lemma steady_loop:
  assumes "healthy os c (srv_firewall (srv m))" and "steady c (srv_firewall (srv m)) m"
  shows "poll_loop os (system_run_status os) c ls ps m = None
    \<and> (\<exists>ps' m'. poll_rounds os (system_run_status os) c ls n ps m = (Inr ps', m'))"
proof -
  have rounds: "\<exists>ps' m'. poll_rounds os (system_run_status os) c ls n ps m = (Inr ps', m')" for n
    using triple_fail [OF lasts_poll_rounds [OF assms(1)] assms(2)]
    by (metis (no_types, opaque_lifting) old.sum.exhaust surj_pair)
  have "poll_loop os (system_run_status os) c ls ps m \<noteq> Some (e, m')" for e m'
    using rounds poll_loop_rounds by (metis Pair_inject sum.distinct(1))
  with rounds show ?thesis by (cases "poll_loop os (system_run_status os) c ls ps m") auto
qed

section \<open>A read that fails\<close>

text \<open>
  \<open>stops f\<close>: \<open>f\<close> appends to the transcript; a read of a connection that fails otherwise than with
  \<open>WouldBlock\<close> and \<open>TimedOut\<close> is the last thing it does, and its error the one it returns.
\<close>

definition stops :: "(machine, 'a) io \<Rightarrow> bool" where
  "stops f = (\<forall>m. \<exists>es. hist (snd (f m)) = hist m @ es
     \<and> (\<forall>s t. ReadTcp s (Inl (IoError OtherKind t)) \<in> set es \<longrightarrow> fst (f m) = Inl (Err t))
     \<and> (\<forall>s t. ReadTcp s (Inl (IoError OtherKind t)) \<notin> set (butlast es)))"

lemma stopsD:
  assumes "stops f" and "f m = (r, m')"
  obtains es where "hist m' = hist m @ es"
    and "\<forall>s t. ReadTcp s (Inl (IoError OtherKind t)) \<in> set es \<longrightarrow> r = Inl (Err t)"
    and "\<forall>s t. ReadTcp s (Inl (IoError OtherKind t)) \<notin> set (butlast es)"
  using assms unfolding stops_def by (metis fst_conv snd_conv)

lemma stops_emits:
  assumes "emits (\<lambda>e. \<forall>s t. e \<noteq> ReadTcp s (Inl (IoError OtherKind t))) f"
  shows "stops f"
  unfolding stops_def
proof
  fix m
  obtain es where "hist (snd (f m)) = hist m @ es" "\<forall>e\<in>set es. \<forall>s t. e \<noteq> ReadTcp s (Inl (IoError OtherKind t))"
    using assms unfolding emits_def list_all_iff by blast
  then show "\<exists>es. hist (snd (f m)) = hist m @ es
     \<and> (\<forall>s t. ReadTcp s (Inl (IoError OtherKind t)) \<in> set es \<longrightarrow> fst (f m) = Inl (Err t))
     \<and> (\<forall>s t. ReadTcp s (Inl (IoError OtherKind t)) \<notin> set (butlast es))"
    by (intro exI [of _ es]) (auto dest: in_set_butlastD)
qed

lemma stops_bind:
  assumes f: "stops f" and g: "\<And>x. stops (g x)"
  shows "stops (bind_io f g)"
  unfolding stops_def
proof
  fix m
  obtain r m1 where 1: "f m = (r, m1)" by (cases "f m")
  from f 1 obtain es where es: "hist m1 = hist m @ es"
    "\<forall>s t. ReadTcp s (Inl (IoError OtherKind t)) \<in> set es \<longrightarrow> r = Inl (Err t)"
    "\<forall>s t. ReadTcp s (Inl (IoError OtherKind t)) \<notin> set (butlast es)" by (rule stopsD)
  show "\<exists>es. hist (snd (bind_io f g m)) = hist m @ es
     \<and> (\<forall>s t. ReadTcp s (Inl (IoError OtherKind t)) \<in> set es \<longrightarrow> fst (bind_io f g m) = Inl (Err t))
     \<and> (\<forall>s t. ReadTcp s (Inl (IoError OtherKind t)) \<notin> set (butlast es))"
  proof (cases r)
    case (Inl e)
    then show ?thesis using 1 es by (intro exI [of _ es]) (auto simp: bind_io_def)
  next
    case (Inr x)
    obtain r' m' where 2: "g x m1 = (r', m')" by (cases "g x m1")
    from g 2 obtain es' where es': "hist m' = hist m1 @ es'"
      "\<forall>s t. ReadTcp s (Inl (IoError OtherKind t)) \<in> set es' \<longrightarrow> r' = Inl (Err t)"
      "\<forall>s t. ReadTcp s (Inl (IoError OtherKind t)) \<notin> set (butlast es')" by (rule stopsD)
    have eq: "bind_io f g m = (r', m')" using 1 2 Inr by (simp add: bind_io_def)
    have "ReadTcp s (Inl (IoError OtherKind t)) \<notin> set es" for s t using es(2) Inr by blast
    then show ?thesis unfolding eq using es(1,3) es'
      by (intro exI [of _ "es @ es'"]) (auto simp: butlast_append)
  qed
qed

lemma stops_packet: "stops (process_packet os (system_run_status os) addr proto port n)"
proof (rule stops_emits)
  have quiet: "reaction_event s ip v e \<Longrightarrow> e \<noteq> ReadTcp k (Inl (IoError OtherKind t))" for s ip v e k t
    using reaction_not_clock by (auto simp: reaction_event_def runs_def telemetry_event_def logs_def
        split: verdict.splits)
  show "emits (\<lambda>e. \<forall>s t. e \<noteq> ReadTcp s (Inl (IoError OtherKind t)))
      (process_packet os (system_run_status os) addr proto port n)"
    unfolding emits_def
  proof
    fix m :: machine
    let ?now = "os_now os (hist m)"
    let ?d = "decide (packet_of addr proto port n) ?now (srv m)"
    let ?m = "m\<lparr>hist := hist m @ [ClockRead ?now], srv := snd ?d\<rparr>"
    obtain r m' where r: "react os (system_run_status os) (snd ?d) (fst addr) ?now (fst ?d) ?m = (r, m')"
      by (cases "react os (system_run_status os) (snd ?d) (fst addr) ?now (fst ?d) ?m")
    then have eq: "process_packet os (system_run_status os) addr proto port n m = (r, m')"
      by (simp only: process_packet_eq Let_def)
    from emitsD [OF msys.emits_react r] obtain es where "hist m' = hist ?m @ es"
      "list_all (reaction_event (snd ?d) (fst addr) (fst ?d)) es" by blast
    then show "\<exists>es. hist (snd (process_packet os (system_run_status os) addr proto port n m)) = hist m @ es
        \<and> list_all (\<lambda>e. \<forall>s t. e \<noteq> ReadTcp s (Inl (IoError OtherKind t))) es"
      by (intro exI [of _ "ClockRead ?now # es"]) (auto simp: eq list_all_iff dest!: bspec quiet)
  qed
qed

lemma stops_read: "stops (read_tcp_knock os stream buf)"
  unfolding stops_def
proof
  fix m
  show "\<exists>es. hist (snd (read_tcp_knock os stream buf m)) = hist m @ es
     \<and> (\<forall>s t. ReadTcp s (Inl (IoError OtherKind t)) \<in> set es \<longrightarrow> fst (read_tcp_knock os stream buf m) = Inl (Err t))
     \<and> (\<forall>s t. ReadTcp s (Inl (IoError OtherKind t)) \<notin> set (butlast es))"
    by (intro exI [of _ "[ReadTcp stream (os_read_tcp os (hist m) stream)]"])
      (auto simp: read_tcp_knock_def bind_io_def call_def ret_def throw_def split: sum.split)
qed

lemma stops_read_pending: "stops (read_pending os (system_run_status os) c now index ps)"
proof (induction "length ps - index" arbitrary: ps index rule: less_induct)
  case less
  show ?case
  proof (cases "index < length ps")
    case False
    then show ?thesis by (subst read_pending.simps) (simp add: stops_def ret_def)
  next
    case True
    then have "length (swap_remove ps index) - index < length ps - index" "length ps - Suc index < length ps - index"
      by simp_all
    note again = less [OF this(1)] less [OF this(2)]
    show ?thesis
      using True
      by (subst read_pending.simps)
        (auto intro!: stops_bind [OF stops_read] stops_bind [OF stops_packet] again split: option.split)
  qed
qed

text \<open>The pass reads every connection that is not in front of the index, or fails before.\<close>

lemma in_swap_remove:
  assumes "p \<in> set (drop i ps)" and "i < length ps" and "p \<noteq> ps ! i"
  shows "p \<in> set (drop i (swap_remove ps i))"
proof -
  from assms(1) obtain k where k: "k < length (drop i ps)" "drop i ps ! k = p" by (auto simp: in_set_conv_nth)
  then have j: "i + k < length ps" "p = ps ! (i + k)" by simp_all
  with assms(3) have pos: "0 < k" by (cases k) simp_all
  show ?thesis
  proof (cases "Suc (i + k) = length ps")
    case True
    with j pos have "p = last ps" by (cases ps rule: rev_cases) (auto simp: nth_append)
    then have "drop i (swap_remove ps i) ! 0 = p" and "0 < length (drop i (swap_remove ps i))"
      using True pos by (simp_all add: swap_remove_def)
    then show ?thesis by (metis nth_mem)
  next
    case False
    then have "drop i (swap_remove ps i) ! k = p" and "k < length (drop i (swap_remove ps i))"
      using j pos by (simp_all add: swap_remove_def nth_butlast)
    then show ?thesis by (metis nth_mem)
  qed
qed

lemma read_pending_reset:
  fixes m :: machine
  shows "p \<in> set (drop index ps) \<Longrightarrow>
    (\<And>es. os_read_tcp os (hist m @ es) (pt_stream p) = Inl (IoError OtherKind t)) \<Longrightarrow>
    \<exists>e m'. read_pending os (system_run_status os) c now index ps m = (Inl e, m')"
proof (induction "length ps - index" arbitrary: ps index m rule: less_induct)
  case less
  have i: "index < length ps" using less.prems(1) by (cases "index < length ps") simp_all
  show ?case
  proof (cases "p = ps ! index")
    case True
    then show ?thesis using i less.prems(2) [of "[]"]
      by (subst read_pending.simps) (simp add: bind_io_def read_tcp_knock_def call_def throw_def)
  next
    case False
    let ?swap = "swap_remove ps index"
    have less': "length ?swap - index < length ps - index" "length ps - Suc index < length ps - index"
      using i by simp_all
    have mem: "p \<in> set (drop index ?swap)" "p \<in> set (drop (Suc index) ps)"
      using in_swap_remove [OF less.prems(1) i False] less.prems(1) i False
      by (auto simp: Cons_nth_drop_Suc [OF i, symmetric])
    have later: "\<And>es'. os_read_tcp os (hist m1 @ es') (pt_stream p) = Inl (IoError OtherKind t)"
      if "hist m1 = hist m @ es" for m1 :: machine and es
      using less.prems(2) by (simp add: that)
    obtain r m1 where 1: "read_tcp_knock os (pt_stream (ps ! index)) (buffer_len c) m = (r, m1)"
      by (cases "read_tcp_knock os (pt_stream (ps ! index)) (buffer_len c) m")
    from stops_read 1 obtain es where es: "hist m1 = hist m @ es" by (rule stopsD)
    note IH = less.hyps [OF less'(1) mem(1)] less.hyps [OF less'(2) mem(2) later [OF es]]
    show ?thesis
    proof (cases r)
      case (Inl e)
      then show ?thesis using 1 i by (subst read_pending.simps) (simp add: bind_io_def)
    next
      case (Inr x)
      show ?thesis
      proof (cases x)
        case None
        then show ?thesis using 1 i Inr IH(1) [OF later [OF es]] IH(2)
          by (subst read_pending.simps) (auto simp: bind_io_def)
      next
        case (Some n)
        obtain r2 m2 where 2: "process_packet os (system_run_status os) (pt_addr (ps ! index)) Tcp
            (Some (pt_port (ps ! index))) n m1 = (r2, m2)"
          by (cases "process_packet os (system_run_status os) (pt_addr (ps ! index)) Tcp
            (Some (pt_port (ps ! index))) n m1")
        from stops_packet 2 obtain es2 where "hist m2 = hist m1 @ es2" by (rule stopsD)
        then have "hist m2 = hist m @ (es @ es2)" using es by simp
        from IH(1) [OF later [OF this]] show ?thesis
          using 1 2 i Inr Some by (subst read_pending.simps) (cases r2; auto simp: bind_io_def)
      qed
    qed
  qed
qed

section \<open>Properties\<close>

text \<open>
  C35: the daemon does not stop as long as nothing it relies on fails. If the audit log can be
  written, the allow commands succeed, sockets fail with nothing but \<open>WouldBlock\<close> (and reads with
  \<open>TimedOut\<close>), ICMP packets have a sender and the times are representable, then no packet makes
  a round of the poll loop fail, in any state and for any number of rounds: the loop runs for
  ever. Other failures, such as that of a ban command, do not stop it.
\<close>

theorem poll_loop_runs_for_ever:
  "healthy os c (srv_firewall (srv m)) \<Longrightarrow> srv_config (srv m) = c \<Longrightarrow> \<not> lock_poisoned (srv_logger (srv m)) \<Longrightarrow>
    poll_loop os (system_run_status os) c ls ps m = None
    \<and> (\<exists>ps' m'. poll_rounds os (system_run_status os) c ls n ps m = (Inr ps', m'))"
  by (rule steady_loop) (simp_all add: steady_def)

theorem poll_loop_runs_for_ever_witness:
  "poll_loop quiet_os (system_run_status quiet_os) example_config ([40101, 40102, 40103], [], False) [] example_machine = None"
proof -
  have "healthy quiet_os example_config (srv_firewall (srv example_machine))"
    by (simp add: healthy_def quiet_os_def command_works_def ok_output_def would_block_def from_secs_def
        nanos_per_sec_def instant_max_def example_config_simps)
  moreover have "srv_config (srv example_machine) = example_config" "\<not> lock_poisoned (srv_logger (srv example_machine))"
    by (simp_all add: example_machine_def example_server_def server_of_def)
  ultimately show ?thesis using poll_loop_runs_for_ever by blast
qed

text \<open>
  C39: one connection that is reset stops the daemon. When the connections of a round are accepted,
  and any of the pending ones, from whatever host and at any place in the table, answers its read
  with an error other than \<open>WouldBlock\<close> and \<open>TimedOut\<close>, then the poll loop ends with a failure in this
  pass. A read that failed like this is the last call of the loop, and its error is the one that is
  returned (only an earlier failure in the same pass can come before it).
\<close>

theorem tcp_read_error_ends_loop:
  "poll_udp os (system_run_status os) c udp m = (Inr (), m1) \<Longrightarrow>
    accept_ports os (os_now os (hist m1)) (from_secs (partial_state_timeout c)) (unat (max_partial_states c)) tcp ps
      (m1\<lparr>hist := hist m1 @ [ClockRead (os_now os (hist m1))]\<rparr>) = (Inr ps', m2) \<Longrightarrow>
    p \<in> set ps' \<Longrightarrow>
    (\<And>es. os_read_tcp os (hist m2 @ es) (pt_stream p) = Inl (IoError OtherKind t)) \<Longrightarrow>
    \<exists>e m' es. poll_loop os (system_run_status os) c (udp, tcp, icmp) ps m = Some (e, m')
      \<and> hist m' = hist m2 @ es
      \<and> (\<forall>h1 s t' h2. es = h1 @ ReadTcp s (Inl (IoError OtherKind t')) # h2 \<longrightarrow> h2 = [] \<and> e = Err t')"
proof -
  assume udp: "poll_udp os (system_run_status os) c udp m = (Inr (), m1)"
    and acc: "accept_ports os (os_now os (hist m1)) (from_secs (partial_state_timeout c)) (unat (max_partial_states c))
      tcp ps (m1\<lparr>hist := hist m1 @ [ClockRead (os_now os (hist m1))]\<rparr>) = (Inr ps', m2)"
    and p: "p \<in> set ps'" and reset: "\<And>es. os_read_tcp os (hist m2 @ es) (pt_stream p) = Inl (IoError OtherKind t)"
  from read_pending_reset [of p 0 ps' os m2 t c "os_now os (hist m1)"] p reset obtain e m'
    where fails: "read_pending os (system_run_status os) c (os_now os (hist m1)) 0 ps' m2 = (Inl e, m')" by auto
  have "poll_loop os (system_run_status os) c (udp, tcp, icmp) ps m = Some (e, m')"
    using udp acc fails by (subst poll_loop.simps) (simp add: poll_once_def bind_io_def instant_now_def call_def)
  moreover from stops_read_pending fails obtain es where es: "hist m' = hist m2 @ es"
    "\<forall>s t. ReadTcp s (Inl (IoError OtherKind t)) \<in> set es \<longrightarrow> (Inl e :: pending_tcp list result) = Inl (Err t)"
    "\<forall>s t. ReadTcp s (Inl (IoError OtherKind t)) \<notin> set (butlast es)" by (rule stopsD)
  moreover have "h2 = [] \<and> e = Err t'" if "es = h1 @ ReadTcp s (Inl (IoError OtherKind t')) # h2" for h1 s t' h2
    using es(2,3) that by (cases h2) (auto simp: butlast_append)
  ultimately show ?thesis by blast
qed

text \<open>A peer that connects to the port 40101 once and resets the connection.\<close>

definition reset_os :: os where
  "reset_os = quiet_os
     \<lparr> os_accept := \<lambda>h p. if \<exists>e\<in>set h. (case e of AcceptTcp _ _ \<Rightarrow> True | _ \<Rightarrow> False)
         then Inl would_block else Inr (7, (ipv4 10 0 0 9, 5000)),
       os_read_tcp := \<lambda>h s. Inl (IoError OtherKind ''Connection reset by peer (os error 104)'') \<rparr>"

lemma reset_accept:
  "\<exists>m d. accept_ports reset_os 0 (from_secs 10) 4096 [40101] [] (example_machine\<lparr>hist := [ClockRead 0]\<rparr>)
     = (Inr [conn 7 d], m)"
proof -
  let ?m = "example_machine\<lparr>hist := [ClockRead 0]\<rparr>"
  have d: "instant_checked_add 0 (from_secs 10) = Some (from_secs 10)"
    by (simp add: instant_checked_add_def instant_max_def from_secs_def nanos_per_sec_def)
  have first: "call (\<lambda>h. os_accept reset_os h 40101) (AcceptTcp 40101) ?m =
      (Inr (Inr (7, (ipv4 10 0 0 9, 5000))),
       ?m\<lparr>hist := [ClockRead 0, AcceptTcp 40101 (Inr (7, (ipv4 10 0 0 9, 5000)))]\<rparr>)"
    by (simp add: call_def reset_os_def)
  have nb: "set_nonblocking reset_os k m = (Inr None, m\<lparr>hist := hist m @ [SetNonblocking k None]\<rparr>)" for k m
    by (simp add: set_nonblocking_def call_def reset_os_def quiet_os_def)
  have again: "AcceptTcp q x \<in> set (hist m) \<Longrightarrow> call (\<lambda>h. os_accept reset_os h 40101) (AcceptTcp 40101) m =
      (Inr (Inl would_block), m\<lparr>hist := hist m @ [AcceptTcp 40101 (Inl would_block)]\<rparr>)" for q x m
    by (auto simp: call_def reset_os_def split: event.splits)
  show ?thesis
    by (subst accept_ports.simps, subst accept_all.simps)
      (simp add: bind_io_def first nb d none_or_fail_def ret_def accept_all.simps [of _ _ _ _ _ "[_]"]
        again [of 40101 "Inr (7, (ipv4 10 0 0 9, 5000))"] would_block_def conn_def)
qed

theorem tcp_read_error_ends_loop_witness:
  "\<exists>e m. poll_loop reset_os (system_run_status reset_os) example_config ([], [40101], False) [] example_machine
     = Some (e, m)"
proof -
  obtain m d where m: "accept_ports reset_os 0 (from_secs 10) 4096 [40101] []
      (example_machine\<lparr>hist := [ClockRead 0]\<rparr>) = (Inr [conn 7 d], m)" using reset_accept by blast
  have c: "partial_state_timeout example_config = 10" "unat (max_partial_states example_config) = 4096"
    by (simp_all add: example_config_simps)
  have h: "hist example_machine = []" and now: "os_now reset_os [] = 0"
    by (simp_all add: example_machine_def reset_os_def quiet_os_def)
  have "\<exists>e m' es. poll_loop reset_os (system_run_status reset_os) example_config ([], [40101], False) [] example_machine
      = Some (e, m') \<and> hist m' = hist m @ es
      \<and> (\<forall>h1 s t' h2. es = h1 @ ReadTcp s (Inl (IoError OtherKind t')) # h2 \<longrightarrow> h2 = [] \<and> e = Err t')"
  proof (rule tcp_read_error_ends_loop [where ?m1.0 = example_machine and ps' = "[conn 7 d]" and p = "conn 7 d"])
    show "os_read_tcp reset_os (hist m @ es) (pt_stream (conn 7 d))
        = Inl (IoError OtherKind ''Connection reset by peer (os error 104)'')" for es
      by (simp add: reset_os_def)
  qed (simp_all add: m c h now ret_def del: accept_ports.simps)
  then show ?thesis by blast
qed

end
