(* ===== verification/Conformance.thy ===== *)
theory Conformance
  imports ServerBan
begin

text \<open>
  The test module of \<open>src/server.rs\<close>, run on the model: each test is translated with its
  helpers, and is shown to pass. The temporary log file of a test is the list of the audit lines
  that were written; the recording runner records in the transcript.
\<close>

section \<open>The helpers of the tests\<close>

definition test_config :: "string \<Rightarrow> u64 \<Rightarrow> string \<Rightarrow> config" where
  "test_config level ban path =
    \<lparr> listen = ''127.0.0.1'',
      ssh_port = 22,
      ipset_name = ''ssh_allow'',
      firewall_backend = Iptables,
      address_family = Ipv4,
      sequence_window = 5,
      ip_timeout = 10,
      partial_state_timeout = 10,
      max_partial_states = 4096,
      max_payload_size = 512,
      log_level = level,
      log_file = path,
      invalid_burst_limit = 1,
      invalid_refill_per_minute = 1,
      ban_timeout = ban,
      ban_ipset_name = ''ssh_ban'',
      knock = \<lparr> sequence =
        [\<lparr> step_protocol = Tcp, step_port = Some 7001, step_size = 1 \<rparr>,
         \<lparr> step_protocol = Udp, step_port = Some 7002, step_size = 2 \<rparr>,
         \<lparr> step_protocol = Tcp, step_port = Some 7003, step_size = 3 \<rparr>] \<rparr> \<rparr>"

definition test_server_with_log_level :: "os \<Rightarrow> string \<Rightarrow> u64 \<Rightarrow> (world, server) io" where
  "test_server_with_log_level os level ban = server_new os (test_config level ban ''/tmp/.tmpAUDIT'')"

text \<open>A test: its server is made, then its body runs on it.\<close>

definition test_case :: "os \<Rightarrow> string \<Rightarrow> u64 \<Rightarrow> (machine, unit) io \<Rightarrow> unit result" where
  "test_case os level ban body = (case test_server_with_log_level os level ban \<lparr> hist = [] \<rparr> of
       (Inl e, w) \<Rightarrow> Inl e
     | (Inr s, w) \<Rightarrow> fst (body \<lparr> hist = hist w, srv = s \<rparr>))"

definition assert_that :: "(machine \<Rightarrow> bool) \<Rightarrow> (machine, unit) io" where
  "assert_that p = bind_io (gets p) (\<lambda>b. if b then ret () else throw (Panic ''assertion failed''))"

definition recording_runner :: "machine runner" where
  "recording_runner spec =
     bind_io (call (\<lambda>_. ok_output) (\<lambda>out. Exec (program spec) (args spec) (Inr out))) (\<lambda>_.
       ret \<lparr> cs_success = True, cs_code = Some 0, cs_diagnostics = [] \<rparr>)"

definition failing_ban_runner :: "machine runner" where
  "failing_ban_runner spec =
     bind_io (call (\<lambda>_. ok_output\<lparr>out_success := False, out_code := Some 1\<rparr>)
       (\<lambda>out. Exec (program spec) (args spec) (Inr out))) (\<lambda>_.
       ret \<lparr> cs_success = False, cs_code = Some 1, cs_diagnostics = ''ipset add failed: set is full'' \<rparr>)"

interpretation recording: machine_runner recording_runner
  by unfold_locales (auto simp: recording_runner_def call_def bind_io_def ret_def frame_def)

interpretation failing: machine_runner failing_ban_runner
  by unfold_locales (auto simp: failing_ban_runner_def call_def bind_io_def ret_def frame_def)

definition process_partial_knock :: "os \<Rightarrow> ip_addr \<Rightarrow> (machine, unit) io" where
  "process_partial_knock os ip =
     process_packet os (system_run_status os) (ip, 12345) Tcp (Some 7001) 1"

definition process_oversized_knock :: "os \<Rightarrow> machine runner \<Rightarrow> ip_addr \<Rightarrow> (machine, unit) io" where
  "process_oversized_knock os runner ip = process_packet os runner (ip, 12345) Tcp (Some 7001) 513"

text \<open>\<open>fs::read_to_string\<close> of the log file: the lines that were written with success.\<close>

definition log_content :: "transcript \<Rightarrow> string list" where
  "log_content h = concat (map (\<lambda>e. case e of Audit l None \<Rightarrow> [l] | _ \<Rightarrow> []) h)"

definition log_has :: "string \<Rightarrow> machine \<Rightarrow> bool" where
  "log_has p m = contains_str (concat (log_content (hist m))) p"

section \<open>The tests\<close>

definition accepts_complete_knock_sequence :: "os \<Rightarrow> unit result" where
  "accepts_complete_knock_sequence os = test_case os ''info'' 2 (
     let ip = ipv4 192 0 2 30; addr = (ip, 12345) in
     bind_io (process_packet os recording_runner addr Tcp (Some 7001) 1) (\<lambda>_.
     bind_io (process_packet os recording_runner addr Udp (Some 7002) 2) (\<lambda>_.
     bind_io (process_packet os recording_runner addr Tcp (Some 7003) 3) (\<lambda>_.
     bind_io (assert_that (\<lambda>m. executed (hist m) =
       [\<lparr> program = ''ipset'',
          args = [''add'', ''ssh_allow'', ''192.0.2.30'', ''timeout'', ''10'', ''-exist''] \<rparr>])) (\<lambda>_.
     bind_io (assert_that (log_has ''event=ssh_allow'')) (\<lambda>_.
       assert_that (log_has ''source_ip=192.0.2.30'')))))))"

definition info_suppresses_packet_telemetry :: "os \<Rightarrow> unit result" where
  "info_suppresses_packet_telemetry os = test_case os ''info'' 2 (
     bind_io (process_partial_knock os (ipv4 192 0 2 10)) (\<lambda>_.
     bind_io (assert_that (\<lambda>m. \<not> log_has ''event=packet_seen'' m)) (\<lambda>_.
       assert_that (\<lambda>m. \<not> log_has ''event=knock_outcome'' m))))"

definition debug_writes_packet_telemetry :: "os \<Rightarrow> unit result" where
  "debug_writes_packet_telemetry os = test_case os ''debug'' 2 (
     bind_io (process_partial_knock os (ipv4 192 0 2 11)) (\<lambda>_.
     bind_io (assert_that (log_has ''event=packet_seen'')) (\<lambda>_.
     bind_io (assert_that (log_has ''event=knock_outcome'')) (\<lambda>_.
     bind_io (assert_that (log_has ''outcome=progress'')) (\<lambda>_.
     bind_io (assert_that (\<lambda>m. \<not> log_has ''protocol='' m)) (\<lambda>_.
     bind_io (assert_that (\<lambda>m. \<not> log_has ''port=7001'' m)) (\<lambda>_.
     bind_io (assert_that (\<lambda>m. \<not> log_has ''size=1'' m)) (\<lambda>_.
     bind_io (assert_that (\<lambda>m. \<not> log_has ''next_step'' m)) (\<lambda>_.
       assert_that (\<lambda>m. \<not> log_has ''Progress {'' m))))))))))"

definition trace_writes_packet_telemetry :: "os \<Rightarrow> unit result" where
  "trace_writes_packet_telemetry os = test_case os ''trace'' 2 (
     bind_io (process_partial_knock os (ipv4 192 0 2 12)) (\<lambda>_.
     bind_io (assert_that (log_has ''event=packet_seen'')) (\<lambda>_.
       assert_that (log_has ''event=knock_outcome''))))"

fun for_each :: "('a \<Rightarrow> (machine, unit) io) \<Rightarrow> 'a list \<Rightarrow> (machine, unit) io" where
  "for_each f [] = ret ()"
| "for_each f (x # xs) = bind_io (f x) (\<lambda>_. for_each f xs)"

definition does_not_ban_unrelated_sources :: "os \<Rightarrow> unit result" where
  "does_not_ban_unrelated_sources os = test_case os ''info'' 2 (
     bind_io (for_each (process_oversized_knock os recording_runner) (map (ipv4 192 0 2) [1..<13])) (\<lambda>_.
     bind_io (assert_that (\<lambda>m. banned_sources (srv m) = [])) (\<lambda>_.
       assert_that (\<lambda>m. executed (hist m) = []))))"

definition bans_source_after_its_own_invalid_limit :: "os \<Rightarrow> unit result" where
  "bans_source_after_its_own_invalid_limit os = test_case os ''info'' 2 (
     let ip = ipv4 192 0 2 20 in
     bind_io (process_oversized_knock os recording_runner ip) (\<lambda>_.
     bind_io (process_oversized_knock os recording_runner ip) (\<lambda>_.
     bind_io (assert_that (\<lambda>m. hm_contains (banned_sources (srv m)) ip)) (\<lambda>_.
       assert_that (\<lambda>m. executed (hist m) =
         [\<lparr> program = ''ipset'',
            args = [''add'', ''ssh_ban'', ''192.0.2.20'', ''timeout'', ''2'', ''-exist''] \<rparr>])))))"

definition keeps_source_banned_before_timeout :: "os \<Rightarrow> unit result" where
  "keeps_source_banned_before_timeout os = test_case os ''info'' 2 (
     let ip = ipv4 192 0 2 10 in
     bind_io (instant_now os) (\<lambda>now.
     bind_io (try_srv (\<lambda>s. remember_banned_source s ip now)) (\<lambda>_.
     bind_io (with_srv (\<lambda>s. is_source_banned s ip (now + from_secs 1))) (\<lambda>banned.
       assert_that (\<lambda>_. banned)))))"

definition expires_source_ban_at_timeout :: "os \<Rightarrow> unit result" where
  "expires_source_ban_at_timeout os = test_case os ''info'' 2 (
     let ip = ipv4 192 0 2 10 in
     bind_io (instant_now os) (\<lambda>now.
     bind_io (try_srv (\<lambda>s. remember_banned_source s ip now)) (\<lambda>_.
     bind_io (with_srv (\<lambda>s. is_source_banned s ip (now + from_secs 2))) (\<lambda>banned.
       assert_that (\<lambda>_. \<not> banned)))))"

definition removes_expired_source_ban :: "os \<Rightarrow> unit result" where
  "removes_expired_source_ban os = test_case os ''info'' 2 (
     let ip = ipv4 192 0 2 10 in
     bind_io (instant_now os) (\<lambda>now.
     bind_io (try_srv (\<lambda>s. remember_banned_source s ip now)) (\<lambda>_.
     bind_io (with_srv (\<lambda>s. ((), expire_banned_sources s (now + from_secs 2)))) (\<lambda>_.
       assert_that (\<lambda>m. \<not> hm_contains (banned_sources (srv m)) ip)))))"

definition caps_banned_sources_map :: "os \<Rightarrow> unit result" where
  "caps_banned_sources_map os = test_case os ''info'' 60 (
     bind_io (gets (\<lambda>m. max_partial_states (srv_config (srv m)))) (\<lambda>cap.
     bind_io (instant_now os) (\<lambda>now.
     bind_io (for_each (\<lambda>index. try_srv (\<lambda>s. remember_banned_source s (V4 (of_nat index)) now))
       [0..<unat cap + 500]) (\<lambda>_.
       assert_that (\<lambda>m. hm_len (banned_sources (srv m)) = unat cap)))))"

definition keeps_running_when_ban_ipset_add_fails :: "os \<Rightarrow> unit result" where
  "keeps_running_when_ban_ipset_add_fails os = test_case os ''info'' 2 (
     let ip = ipv4 192 0 2 40 in
     bind_io (process_oversized_knock os failing_ban_runner ip) (\<lambda>_.
     bind_io (attempt (process_oversized_knock os failing_ban_runner ip)) (\<lambda>result.
     bind_io (assert_that (\<lambda>_. case result of Inl e \<Rightarrow> False | Inr _ \<Rightarrow> True)) (\<lambda>_.
     bind_io (assert_that (\<lambda>m. hm_contains (banned_sources (srv m)) ip)) (\<lambda>_.
       assert_that (log_has ''event=firewall_ban_failed''))))))"

section \<open>They pass\<close>

definition test_firewall :: "u64 \<Rightarrow> firewall" where
  "test_firewall ban = \<lparr> fw_ipset_name = ''ssh_allow'', fw_ban_ipset_name = ''ssh_ban'', fw_ip_timeout = 10,
     fw_ban_timeout = ban, fw_backend = Iptables, fw_family = Ipv4 \<rparr>"

definition test_server :: "string \<Rightarrow> u64 \<Rightarrow> server" where
  "test_server level ban = server_of (test_config level ban ''/tmp/.tmpAUDIT'') (test_firewall ban)
     \<lparr> log_path = ''/tmp/.tmpAUDIT'', lock_poisoned = False \<rparr>"

definition test_hist :: transcript where
  "test_hist = [CreateDirAll ''/tmp'' None, OpenAppend ''/tmp/.tmpAUDIT'' None]"

lemma test_server_new:
  assumes "ban \<noteq> 0"
  shows "test_server_with_log_level quiet_os level ban \<lparr> hist = [] \<rparr>
    = (Inr (test_server level ban), \<lparr> hist = test_hist \<rparr>)"
  using assms
  by (simp add: test_server_with_log_level_def server_new_def firewall_new_def validate_ipset_name_def ipset_char_def
      is_ascii_alphanumeric_def test_config_def test_firewall_def test_server_def test_hist_def bind_io_def io_defs
      logger_new_def path_parent_def call_def quiet_os_def none_or_fail_def)

lemma test_case_quiet:
  "ban \<noteq> 0 \<Longrightarrow> test_case quiet_os level ban body = fst (body \<lparr> hist = test_hist, srv = test_server level ban \<rparr>)"
  by (simp add: test_case_def test_server_new)

lemma quiet_now: "os_now quiet_os h = 0"
  by (simp add: quiet_os_def)

lemma quiet_log:
  "\<not> lock_poisoned (srv_logger (srv m)) \<Longrightarrow> server_log quiet_os ev msg m
    = (Inr (), m\<lparr>hist := hist m @ [UnixTime (Some 1700000000), Audit (audit_line 1700000000 ev msg) None]\<rparr>)"
  by (simp add: server_log_def log_def bind_io_def gets_def unix_time_def write_audit_def call_def none_or_fail_def
      quiet_os_def ret_def)

lemma recorded_run: "run recording_runner c m = (Inr (), m\<lparr>hist := hist m @ [Exec (program c) (args c) (Inr ok_output)]\<rparr>)"
  by (simp add: run_def recording_runner_def call_def bind_io_def ret_def)

text \<open>A packet whose decision is known, at a log level without telemetry.\<close>

lemma quiet_packet:
  assumes "decide (packet_of addr proto port n) 0 s0 = (Outcome oc, s)" and "srv m = s0"
    and "oc \<noteq> Accepted" and "\<not> packet_telemetry_enabled s"
  shows "process_packet quiet_os runner addr proto port n m = (Inr (), m\<lparr>hist := hist m @ [ClockRead 0], srv := s\<rparr>)"
  using assms
  by (simp add: process_packet_eq quiet_now Let_def log_packet_telemetry_def bind_io_def with_srv_def
      telemetry_allow_def ret_def)

lemma info_silent: "log_level (srv_config s) = ''info'' \<Longrightarrow> \<not> packet_telemetry_enabled s"
  by (simp add: packet_telemetry_enabled_def eq_ignore_ascii_case_def to_ascii_lowercase_def)

lemmas test_simps = test_server_def test_firewall_def server_of_def test_config_def limiter_new_def
  knock_tracker_new_def decide_def is_source_banned_def Let_def expire_banned_sources_def track_def process_def
  packet_of_def expire_def remove_source_def over_limit_def hm_defs allow_def prune_idle_def idle_ttl_def
  duration_checked_mul_def duration_max_def duration_since_def live_def matches_step_def step_matches_def
  start_partial_state_def start_or_reject_def from_secs_def nanos_per_sec_def

definition partial_server :: "string \<Rightarrow> u64 \<Rightarrow> ip_addr \<Rightarrow> nat \<Rightarrow> server" where
  "partial_server level ban ip n = (test_server level ban)\<lparr>srv_tracker := (srv_tracker (test_server level ban))
     \<lparr>states := [(ip, \<lparr> next_step = n, first_seen = 0, last_seen = 0 \<rparr>)]\<rparr>\<rparr>"

lemma test_knock_decisions:
  "decide (packet_of (ip, p) Tcp (Some 7001) 1) 0 (test_server level ban)
     = (Outcome (Progress 1), partial_server level ban ip 1)"
  "decide (packet_of (ip, p) Udp (Some 7002) 2) 0 (partial_server level ban ip 1)
     = (Outcome (Progress 2), partial_server level ban ip 2)"
  "decide (packet_of (ip, p) Tcp (Some 7003) 3) 0 (partial_server level ban ip 2)
     = (Outcome Accepted, test_server level ban)"
  by (simp_all add: partial_server_def test_simps)

lemma test_config_simps [simp]:
  "srv_config (test_server level ban) = test_config level ban ''/tmp/.tmpAUDIT''"
  "srv_config (partial_server level ban ip n) = test_config level ban ''/tmp/.tmpAUDIT''"
  "srv_firewall (test_server level ban) = test_firewall ban"
  "\<not> lock_poisoned (srv_logger (test_server level ban))"
  "log_level (test_config level ban path) = level"
  by (simp_all add: partial_server_def test_server_def server_of_def test_config_def)

lemma log_content_simps [simp]:
  "log_content [] = []" "log_content (h @ h') = log_content h @ log_content h'"
  "log_content (Audit l None # h) = l # log_content h" "log_content (UnixTime t # h) = log_content h"
  "log_content (ClockRead now # h) = log_content h" "log_content (Exec prog a r # h) = log_content h"
  "log_content test_hist = []"
  by (simp_all add: log_content_def test_hist_def)

lemma assert_passes: "p m \<Longrightarrow> assert_that p m = (Inr (), m)"
  by (simp add: assert_that_def bind_io_def gets_def ret_def)

lemma info_suppresses_passes: "info_suppresses_packet_telemetry quiet_os = Inr ()"
proof -
  let ?m = "\<lparr> hist = test_hist, srv = test_server ''info'' 2 \<rparr>"
  have 1: "process_partial_knock quiet_os (ipv4 192 0 2 10) ?m
      = (Inr (), ?m\<lparr>hist := test_hist @ [ClockRead 0], srv := partial_server ''info'' 2 (ipv4 192 0 2 10) 1\<rparr>)"
    unfolding process_partial_knock_def
    using quiet_packet [OF test_knock_decisions(1), of ?m] info_silent by simp
  show ?thesis
    by (simp add: info_suppresses_packet_telemetry_def test_case_quiet bind_io_def 1 assert_passes log_has_def)
qed

lemma test_log: "srv m = test_server level ban \<Longrightarrow> server_log quiet_os ev msg m
    = (Inr (), m\<lparr>hist := hist m @ [UnixTime (Some 1700000000), Audit (audit_line 1700000000 ev msg) None]\<rparr>)"
  by (rule quiet_log) simp

text \<open>The packet that completes a knock.\<close>

lemma accepted_packet:
  assumes "srv m = partial_server ''info'' ban ip 2"
  shows "process_packet quiet_os recording_runner (ip, p) Tcp (Some 7003) 3 m
    = (Inr (), m\<lparr>hist := hist m @ [ClockRead 0,
        Exec ''ipset'' (args (add_ip_command (test_firewall ban) ip)) (Inr ok_output), UnixTime (Some 1700000000),
        Audit (audit_line 1700000000 ''ssh_allow'' (''source_ip='' @ ip_to_string ip @ '' allow_timeout_seconds='' @ ''10'')) None],
        srv := test_server ''info'' ban\<rparr>)"
proof -
  have ten: "dec (unat (ip_timeout (test_config l b path))) = ''10''" for l b path
    by (simp add: test_config_def) code_simp
  show ?thesis
    using assms test_knock_decisions(3) [of ip p "''info''" ban]
    by (cases m) (simp add: process_packet_eq quiet_now Let_def log_packet_telemetry_def bind_io_def
      with_srv_def telemetry_allow_def info_silent ret_def add_ip_def attempt_def recorded_run test_log ten add_ip_command_def)
qed

lemma contains_append: "contains_str (a @ p @ b) p"
  by (auto simp: contains_str_iff)

lemma audit_line_contains:
  "contains_str (audit_line ts ev msg) (''event='' @ ev)" "contains_str (audit_line ts ev (msg @ msg')) msg"
proof -
  show "contains_str (audit_line ts ev msg) (''event='' @ ev)"
    unfolding contains_str_iff audit_line_def by (rule exI [of _ "''ts='' @ dec ts @ '' ''"], rule exI [of _ "'' '' @ msg @ [CHR 0x0A]"]) simp
  show "contains_str (audit_line ts ev (msg @ msg')) msg"
    unfolding contains_str_iff audit_line_def
    by (rule exI [of _ "''ts='' @ dec ts @ '' event='' @ ev @ '' ''"], rule exI [of _ "msg' @ [CHR 0x0A]"]) simp
qed

lemma accepts_complete_passes: "accepts_complete_knock_sequence quiet_os = Inr ()"
proof -
  let ?ip = "ipv4 192 0 2 30"
  let ?m0 = "\<lparr> hist = test_hist, srv = test_server ''info'' 2 \<rparr>"
  let ?m1 = "\<lparr> hist = test_hist @ [ClockRead 0], srv = partial_server ''info'' 2 ?ip 1 \<rparr>"
  let ?m2 = "\<lparr> hist = test_hist @ [ClockRead 0, ClockRead 0], srv = partial_server ''info'' 2 ?ip 2 \<rparr>"
  have "dec 192 = ''192''" "dec 0 = ''0''" "dec 2 = ''2''" "dec 30 = ''30''" by code_simp+
  then have ipt: "ip_to_string ?ip = ''192.0.2.30''"
    by (simp add: ipv4_def ipv4_to_string_def octets_def join_def)
  have 1: "process_packet quiet_os recording_runner (?ip, 12345) Tcp (Some 7001) 1 ?m0 = (Inr (), ?m1)"
    using quiet_packet [OF test_knock_decisions(1), of ?m0] info_silent by simp
  have 2: "process_packet quiet_os recording_runner (?ip, 12345) Udp (Some 7002) 2 ?m1 = (Inr (), ?m2)"
    using quiet_packet [OF test_knock_decisions(2), of ?m1] info_silent by simp
  let ?line = "audit_line 1700000000 ''ssh_allow'' (''source_ip='' @ ip_to_string ?ip @ '' allow_timeout_seconds='' @ ''10'')"
  obtain m3 where 3: "process_packet quiet_os recording_runner (?ip, 12345) Tcp (Some 7003) 3 ?m2 = (Inr (), m3)"
    and ex: "executed (hist m3) = [\<lparr> program = ''ipset'',
          args = [''add'', ''ssh_allow'', ''192.0.2.30'', ''timeout'', ''10'', ''-exist''] \<rparr>]"
    and lg: "log_content (hist m3) = [?line]"
  proof
    have "dec (unat (10 :: u64)) = ''10''" by code_simp
    then show "executed (hist (snd (process_packet quiet_os recording_runner (?ip, 12345) Tcp (Some 7003) 3 ?m2)))
        = [\<lparr> program = ''ipset'', args = [''add'', ''ssh_allow'', ''192.0.2.30'', ''timeout'', ''10'', ''-exist''] \<rparr>]"
      using ipt by (simp add: accepted_packet executed_def test_hist_def add_ip_command_def test_firewall_def)
  qed (simp_all add: accepted_packet)
  have "log_has ''event=ssh_allow'' m3" "log_has ''source_ip=192.0.2.30'' m3"
    using audit_line_contains(1) [of 1700000000 "''ssh_allow''"]
      audit_line_contains(2) [of 1700000000 "''ssh_allow''" "''source_ip='' @ ip_to_string ?ip"]
    by (simp_all add: log_has_def lg ipt)
  then show ?thesis
    by (simp add: accepts_complete_knock_sequence_def test_case_quiet Let_def bind_io_def 1 2 3 assert_passes ex del: One_nat_def)
qed

text \<open>Bans on the clock of the test.\<close>

lemma remember_empty:
  assumes "banned_sources s = []" and "max_partial_states (srv_config s) = 4096"
    and "now + from_secs (ban_timeout (srv_config s)) \<le> instant_max"
  shows "remember_banned_source s ip now
    = Inr (s\<lparr>banned_sources := [(ip, now + from_secs (ban_timeout (srv_config s)))]\<rparr>)"
  using assms by (simp add: remember_banned_source_def Let_def expire_banned_sources_def hm_defs instant_checked_add_def)

lemma test_server_bans [simp]:
  "banned_sources (test_server level ban) = []" "max_partial_states (test_config level ban path) = 4096"
  "ban_timeout (test_config level ban path) = ban"
  by (simp_all add: test_server_def server_of_def test_config_def hm_empty_def)

lemma ban_clock_tests_pass:
  "keeps_source_banned_before_timeout quiet_os = Inr ()" "expires_source_ban_at_timeout quiet_os = Inr ()"
  "removes_expired_source_ban quiet_os = Inr ()"
  by (simp_all add: keeps_source_banned_before_timeout_def expires_source_ban_at_timeout_def
      removes_expired_source_ban_def test_case_quiet Let_def bind_io_def instant_now_def call_def quiet_now try_srv_def with_srv_def
      remember_empty is_source_banned_def expire_banned_sources_def hm_defs assert_that_def gets_def ret_def
      from_secs_def nanos_per_sec_def instant_max_def)

text \<open>The cap: fresh sources fill the table, and no more are taken when it is full.\<close>

lemma remember_fresh:
  assumes "\<forall>x\<in>set (banned_sources s). now < snd x" and "hm_get (banned_sources s) ip = None"
    and "now + from_secs (ban_timeout (srv_config s)) \<le> instant_max"
  shows "remember_banned_source s ip now = Inr (if hm_len (banned_sources s) \<ge> unat (max_partial_states (srv_config s)) then s
    else s\<lparr>banned_sources := hm_insert ip (now + from_secs (ban_timeout (srv_config s))) (banned_sources s)\<rparr>)"
proof -
  have "expire_banned_sources s now = s"
    using assms(1) by (cases s) (simp add: expire_banned_sources_def hm_retain_def)
  then show ?thesis
    using assms(2,3) by (simp add: remember_banned_source_def Let_def instant_checked_add_def)
qed

lemma remember_all:
  assumes "distinct ips" and "\<forall>ip\<in>set ips. hm_get (banned_sources (srv m)) ip = None"
    and "\<forall>x\<in>set (banned_sources (srv m)). now < snd x" and "hm_ok (banned_sources (srv m))"
    and "now + from_secs (ban_timeout (srv_config (srv m))) \<le> instant_max"
    and "0 < from_secs (ban_timeout (srv_config (srv m)))"
    and "hm_len (banned_sources (srv m)) \<le> unat (max_partial_states (srv_config (srv m)))"
  shows "\<exists>m'. for_each (\<lambda>ip. try_srv (\<lambda>s. remember_banned_source s ip now)) ips m = (Inr (), m')
    \<and> hm_len (banned_sources (srv m')) = min (unat (max_partial_states (srv_config (srv m))))
        (hm_len (banned_sources (srv m)) + length ips)"
  using assms
proof (induction ips arbitrary: m)
  case Nil
  then show ?case by (simp add: ret_def)
next
  case (Cons ip ips)
  let ?cap = "unat (max_partial_states (srv_config (srv m)))" and ?b = "banned_sources (srv m)"
  let ?e = "now + from_secs (ban_timeout (srv_config (srv m)))"
  let ?m = "m\<lparr>srv := (if ?cap \<le> hm_len ?b then srv m else (srv m)\<lparr>banned_sources := hm_insert ip ?e ?b\<rparr>)\<rparr>"
  have step: "try_srv (\<lambda>s. remember_banned_source s ip now) m = (Inr (), ?m)"
    using remember_fresh [of "srv m" now ip] Cons.prems by (simp add: try_srv_def)
  have new: "hm_len (hm_insert ip ?e ?b) = Suc (hm_len ?b)"
    by (rule hm.len_insert_absent) (use Cons.prems in simp_all)
  have len: "hm_len (banned_sources (srv ?m)) = min ?cap (Suc (hm_len ?b))"
    using Cons.prems(7) by (simp add: new min_def)
  have "\<forall>ip'\<in>set ips. hm_get (banned_sources (srv ?m)) ip' = None"
    using Cons.prems(1,2) by auto
  moreover have "\<forall>x\<in>set (banned_sources (srv ?m)). now < snd x"
    using Cons.prems(3,6) by (auto simp: hm_insert_def hm_remove_def)
  ultimately obtain m' where "for_each (\<lambda>ip. try_srv (\<lambda>s. remember_banned_source s ip now)) ips ?m = (Inr (), m')"
    "hm_len (banned_sources (srv m')) = min ?cap (hm_len (banned_sources (srv ?m)) + length ips)"
    using Cons.IH [of ?m] Cons.prems len by (auto split: if_splits)
  then show ?case using step len by (auto simp: bind_io_def)
qed

lemma caps_passes: "caps_banned_sources_map quiet_os = Inr ()"
proof -
  let ?m = "\<lparr> hist = test_hist @ [ClockRead 0], srv = test_server ''info'' 60 \<rparr>"
  have "distinct (map (\<lambda>i. V4 (of_nat i)) [0..<4596])"
    by (auto simp: distinct_map inj_on_def word_unat_eq_iff unat_of_nat)
  then obtain m' where m': "for_each (\<lambda>ip. try_srv (\<lambda>s. remember_banned_source s ip 0)) (map (\<lambda>i. V4 (of_nat i)) [0..<4596]) ?m
      = (Inr (), m')" "hm_len (banned_sources (srv m')) = 4096"
    using remember_all [of "map (\<lambda>i. V4 (of_nat i)) [0..<4596]" ?m 0]
    by (auto simp: hm_get_def hm_len_def hm_ok_def from_secs_def nanos_per_sec_def instant_max_def)
  have each: "for_each f (map g xs) = for_each (\<lambda>x. f (g x)) xs" for f and g :: "nat \<Rightarrow> ip_addr" and xs
    by (induction xs) simp_all
  show ?thesis
    using m' by (simp add: caps_banned_sources_map_def test_case_quiet bind_io_def gets_def instant_now_def call_def quiet_now
        each assert_passes)
qed

text \<open>Oversized packets: each of a new source is charged to that source only.\<close>

definition charged_server :: "u64 \<Rightarrow> ip_addr list \<Rightarrow> server" where
  "charged_server ban ips = (test_server ''info'' ban)\<lparr>source_limiter := (source_limiter (test_server ''info'' ban))
     \<lparr>buckets := map (\<lambda>ip. (ip, \<lparr> tokens = 0, last_refill = 0, bkt_last_seen = 0 \<rparr>)) ips\<rparr>\<rparr>"

lemma charged_none: "charged_server ban [] = test_server ''info'' ban"
  by (simp add: charged_server_def test_simps)

lemma map_of_charged: "ip \<notin> set ips \<Longrightarrow> map_of (map (\<lambda>ip. (ip, b)) ips) ip = None"
  by (induction ips) auto

lemma filter_others: "ip \<notin> set ips \<Longrightarrow> filter (\<lambda>e. fst e \<noteq> ip) (map (\<lambda>ip. (ip, b)) ips) = map (\<lambda>ip. (ip, b)) ips"
  by (induction ips) auto

lemma filter_map_all: "filter (\<lambda>e. P (snd e)) (map (\<lambda>ip. (ip, b)) ips) = (if P b then map (\<lambda>ip. (ip, b)) ips else [])"
  by (induction ips) auto

lemma oversized_fresh:
  "ip \<notin> set ips \<Longrightarrow> decide (packet_of (ip, p) Tcp (Some 7001) 513) 0 (charged_server ban ips)
    = (Outcome Oversized, charged_server ban (ip # ips))"
  by (simp add: charged_server_def test_simps map_of_charged filter_others
      filter_map_all [of "\<lambda>b. bkt_last_seen b < 120000000000"])

lemma oversized_again:
  "fst (decide (packet_of (ip, p) Tcp (Some 7001) 513) 0 (charged_server ban [ip])) = Banning"
  "banned_sources (snd (decide (packet_of (ip, p) Tcp (Some 7001) 513) 0 (charged_server ban [ip]))) = []"
  by (simp_all add: charged_server_def test_simps)

lemma charged_simps [simp]:
  "srv_config (charged_server ban ips) = test_config ''info'' ban ''/tmp/.tmpAUDIT''"
  "srv_firewall (charged_server ban ips) = test_firewall ban" "banned_sources (charged_server ban ips) = []"
  "\<not> lock_poisoned (srv_logger (charged_server ban ips))"
  by (simp_all add: charged_server_def test_server_def server_of_def hm_empty_def)

lemma oversized_step:
  "srv m = charged_server ban ips \<Longrightarrow> ip \<notin> set ips \<Longrightarrow> process_oversized_knock quiet_os runner ip m
    = (Inr (), m\<lparr>hist := hist m @ [ClockRead 0], srv := charged_server ban (ip # ips)\<rparr>)"
  unfolding process_oversized_knock_def
  using quiet_packet [OF oversized_fresh] info_silent by simp

lemma oversized_all:
  "distinct (ips @ done) \<Longrightarrow> srv m = charged_server ban done \<Longrightarrow>
    \<exists>k. for_each (process_oversized_knock quiet_os runner) ips m
      = (Inr (), m\<lparr>hist := hist m @ replicate k (ClockRead 0), srv := charged_server ban (rev ips @ done)\<rparr>)"
proof (induction ips arbitrary: m "done")
  case Nil
  then show ?case by (intro exI [of _ 0]) (cases m, simp add: ret_def)
next
  case (Cons ip ips)
  let ?m = "m\<lparr>hist := hist m @ [ClockRead 0], srv := charged_server ban (ip # done)\<rparr>"
  from Cons.IH [of "ip # done" ?m] Cons.prems obtain k where
    "for_each (process_oversized_knock quiet_os runner) ips ?m
      = (Inr (), ?m\<lparr>hist := hist ?m @ replicate k (ClockRead 0), srv := charged_server ban (rev ips @ ip # done)\<rparr>)"
    by auto
  then show ?case
    using oversized_step [of m ban "done" ip runner] Cons.prems
    by (intro exI [of _ "Suc k"]) (simp add: bind_io_def)
qed

lemma executed_clock: "executed (replicate k (ClockRead t)) = []" "executed test_hist = []"
  by (induction k) (simp_all add: executed_def test_hist_def)

lemma does_not_ban_passes: "does_not_ban_unrelated_sources quiet_os = Inr ()"
proof -
  let ?ips = "map (ipv4 192 0 2) [1..<13]" and ?m = "\<lparr> hist = test_hist, srv = test_server ''info'' 2 \<rparr>"
  have "distinct ?ips"
    by (simp add: ipv4_def upt_conv_Cons)
  from oversized_all [of ?ips "[]" ?m 2 recording_runner] this obtain k where
    "for_each (process_oversized_knock quiet_os recording_runner) ?ips ?m
      = (Inr (), ?m\<lparr>hist := test_hist @ replicate k (ClockRead 0), srv := charged_server 2 (rev ?ips)\<rparr>)"
    by (auto simp: charged_none)
  then show ?thesis
    by (simp add: does_not_ban_unrelated_sources_def test_case_quiet bind_io_def assert_passes executed_clock)
qed

text \<open>The second oversized packet of one source, with either runner.\<close>

lemma oversized_ban:
  assumes "srv m = charged_server 2 [ip]"
  shows "\<exists>s. banned_sources s = [(ip, from_secs 2)] \<and> srv_config s = test_config ''info'' 2 ''/tmp/.tmpAUDIT''
    \<and> \<not> lock_poisoned (srv_logger s)
    \<and> process_oversized_knock quiet_os runner ip m
        = bind_io (attempt (ban_ip (test_firewall 2) runner ip)) (\<lambda>r. case r of
            Inr _ \<Rightarrow> server_log quiet_os ''rate_limit_ban''
              (''source_ip='' @ ip_to_string ip @ '' ban_timeout_seconds='' @ dec (unat (2 :: u64)))
          | Inl e \<Rightarrow> server_log quiet_os ''firewall_ban_failed'' (''source_ip='' @ ip_to_string ip @ '' error='' @ e))
          (m\<lparr>hist := hist m @ [ClockRead 0], srv := s\<rparr>)"
proof -
  let ?d = "decide (packet_of (ip, 12345) Tcp (Some 7001) 513) 0 (charged_server 2 [ip])"
  let ?s = "(snd ?d)\<lparr>banned_sources := [(ip, from_secs 2)]\<rparr>"
  have "remember_banned_source (snd ?d) ip 0 = Inr ?s"
    using remember_empty [of "snd ?d" 0 ip] oversized_again(2)
    by (simp add: from_secs_def nanos_per_sec_def instant_max_def)
  then have "process_oversized_knock quiet_os runner ip m
        = bind_io (attempt (ban_ip (test_firewall 2) runner ip)) (\<lambda>r. case r of
            Inr _ \<Rightarrow> server_log quiet_os ''rate_limit_ban''
              (''source_ip='' @ ip_to_string ip @ '' ban_timeout_seconds='' @ dec (unat (2 :: u64)))
          | Inl e \<Rightarrow> server_log quiet_os ''firewall_ban_failed'' (''source_ip='' @ ip_to_string ip @ '' error='' @ e))
          (m\<lparr>hist := hist m @ [ClockRead 0], srv := ?s\<rparr>)"
    unfolding process_oversized_knock_def process_packet_eq quiet_now Let_def assms oversized_again(1) react.simps
    by (simp add: bind_io_def try_srv_def split: prod.split sum.split)
  then show ?thesis by (intro exI [of _ ?s] conjI) (assumption | simp)+
qed

lemma bans_source_passes: "bans_source_after_its_own_invalid_limit quiet_os = Inr ()"
proof -
  let ?ip = "ipv4 192 0 2 20" and ?m = "\<lparr> hist = test_hist, srv = test_server ''info'' 2 \<rparr>"
  let ?m1 = "\<lparr> hist = test_hist @ [ClockRead 0], srv = charged_server 2 [?ip] \<rparr>"
  have "dec 192 = ''192''" "dec 0 = ''0''" "dec 2 = ''2''" "dec 20 = ''20''" by code_simp+
  then have ipt: "ip_to_string ?ip = ''192.0.2.20''" and two: "dec 2 = ''2''"
    by (simp_all add: ipv4_def ipv4_to_string_def octets_def join_def)
  have 1: "process_oversized_knock quiet_os recording_runner ?ip ?m = (Inr (), ?m1)"
    using oversized_step [of ?m 2 "[]" ?ip recording_runner] by (simp add: charged_none)
  from oversized_ban [of ?m1 ?ip recording_runner] obtain m2 where
    2: "process_oversized_knock quiet_os recording_runner ?ip ?m1 = (Inr (), m2)"
      "banned_sources (srv m2) = [(?ip, from_secs 2)]"
      "executed (hist m2) = [\<lparr> program = ''ipset'', args = [''add'', ''ssh_ban'', ''192.0.2.20'', ''timeout'', ''2'', ''-exist''] \<rparr>]"
    by (auto simp: bind_io_def attempt_def ban_ip_def recorded_run quiet_log executed_def test_hist_def
        ban_ip_command_def test_firewall_def ipt two)
  then show ?thesis
    by (simp add: bans_source_after_its_own_invalid_limit_def test_case_quiet Let_def bind_io_def 1 2 assert_passes
        hm_get_def)
qed

lemma keeps_running_passes: "keeps_running_when_ban_ipset_add_fails quiet_os = Inr ()"
proof -
  let ?ip = "ipv4 192 0 2 40" and ?m = "\<lparr> hist = test_hist, srv = test_server ''info'' 2 \<rparr>"
  let ?m1 = "\<lparr> hist = test_hist @ [ClockRead 0], srv = charged_server 2 [?ip] \<rparr>"
  let ?line = "audit_line 1700000000 ''firewall_ban_failed'' (''source_ip='' @ ip_to_string ?ip @ '' error=''
    @ ''ipset add failed: set is full'')"
  have 1: "process_oversized_knock quiet_os failing_ban_runner ?ip ?m = (Inr (), ?m1)"
    using oversized_step [of ?m 2 "[]" ?ip failing_ban_runner] by (simp add: charged_none)
  have failed: "run failing_ban_runner c m = (Inl (Err ''ipset add failed: set is full''),
      m\<lparr>hist := hist m @ [Exec (program c) (args c) (Inr (ok_output\<lparr>out_success := False, out_code := Some 1\<rparr>))]\<rparr>)" for c m
    by (simp add: run_def failing_ban_runner_def call_def bind_io_def ret_def throw_def)
  from oversized_ban [of ?m1 ?ip failing_ban_runner] obtain m2 where
    2: "process_oversized_knock quiet_os failing_ban_runner ?ip ?m1 = (Inr (), m2)"
      "banned_sources (srv m2) = [(?ip, from_secs 2)]" "log_content (hist m2) = [?line]"
    by (auto simp: bind_io_def attempt_def ban_ip_def failed quiet_log)
  have "log_has ''event=firewall_ban_failed'' m2"
    using audit_line_contains(1) [of 1700000000 "''firewall_ban_failed''"] by (simp add: log_has_def 2(3))
  then show ?thesis
    by (simp add: keeps_running_when_ban_ipset_add_fails_def test_case_quiet Let_def bind_io_def attempt_def 1 2
        assert_passes hm_get_def)
qed

text \<open>Verbose levels: the two lines of a packet.\<close>

definition verbose :: "string \<Rightarrow> bool" where
  "verbose level = (eq_ignore_ascii_case level ''debug'' \<or> eq_ignore_ascii_case level ''trace'')"

lemma verbose_partial:
  assumes "verbose level"
  shows "\<exists>m'. process_partial_knock quiet_os ip \<lparr> hist = test_hist, srv = test_server level 2 \<rparr> = (Inr (), m')
    \<and> log_content (hist m')
      = [audit_line 1700000000 ''packet_seen'' (''source_ip='' @ ip_to_string ip @ '' observed=true''),
         audit_line 1700000000 ''knock_outcome'' (''source_ip='' @ ip_to_string ip @ '' outcome=progress'')]"
proof -
  let ?s = "partial_server level 2 ip 1"
  have "packet_telemetry_enabled ?s" using assms by (simp add: packet_telemetry_enabled_def verbose_def)
  moreover obtain ok L where "allow (packet_telemetry_limiter ?s) ''packet'' 0 = (ok, L)"
    by (cases "allow (packet_telemetry_limiter ?s) ''packet'' 0")
  moreover have "fst (allow (packet_telemetry_limiter ?s) ''packet'' 0)"
    by (simp add: partial_server_def test_simps saturating_mul_def)
  ultimately have "telemetry_allow 0 ?s = (True, ?s\<lparr>packet_telemetry_limiter := L\<rparr>)"
    by (simp add: telemetry_allow_def)
  moreover have "\<not> lock_poisoned (srv_logger ?s)" by (simp add: partial_server_def)
  ultimately show ?thesis
    by (simp add: process_partial_knock_def process_packet_eq quiet_now Let_def test_knock_decisions
        log_packet_telemetry_def bind_io_def with_srv_def quiet_log ret_def)
qed

lemma verbose_levels: "verbose ''debug''" "verbose ''trace''"
  by (simp_all add: verbose_def eq_ignore_ascii_case_def to_ascii_lowercase_def)


lemma contains_concat: "x \<in> set xs \<Longrightarrow> contains_str x p \<Longrightarrow> contains_str (concat xs) p"
  unfolding contains_str_iff by (auto dest!: split_list) (metis append.assoc)

lemma debug_writes_passes: "debug_writes_packet_telemetry quiet_os = Inr ()"
proof -
  let ?ip = "ipv4 192 0 2 11"
  obtain m' where m': "process_partial_knock quiet_os ?ip \<lparr> hist = test_hist, srv = test_server ''debug'' 2 \<rparr> = (Inr (), m')"
    "log_content (hist m') = [audit_line 1700000000 ''packet_seen'' (''source_ip='' @ ip_to_string ?ip @ '' observed=true''),
         audit_line 1700000000 ''knock_outcome'' (''source_ip='' @ ip_to_string ?ip @ '' outcome=progress'')]"
    using verbose_partial [OF verbose_levels(1)] by blast
  have "dec 192 = ''192''" "dec 0 = ''0''" "dec 2 = ''2''" "dec 11 = ''11''" by code_simp+
  then have ipt: "ip_to_string ?ip = ''192.0.2.11''"
    by (simp add: ipv4_def ipv4_to_string_def octets_def join_def)
  have "dec 1700000000 = ''1700000000''" by (simp add: to_base.simps digit_char_def)
  then have content: "concat (log_content (hist m')) = ''ts=1700000000 event=packet_seen source_ip=192.0.2.11 observed=true''
      @ [CHR 0x0A] @ ''ts=1700000000 event=knock_outcome source_ip=192.0.2.11 outcome=progress'' @ [CHR 0x0A]"
    by (simp add: m'(2) audit_line_def ipt)
  have "log_has ''event=packet_seen'' m'" "log_has ''event=knock_outcome'' m'" "log_has ''outcome=progress'' m'"
    "\<not> log_has ''protocol='' m'" "\<not> log_has ''port=7001'' m'" "\<not> log_has ''size=1'' m'"
    "\<not> log_has ''next_step'' m'" "\<not> log_has ''Progress {'' m'"
    unfolding log_has_def content by code_simp+
  then show ?thesis
    by (simp add: debug_writes_packet_telemetry_def test_case_quiet bind_io_def m'(1) assert_passes)
qed

lemma trace_writes_passes: "trace_writes_packet_telemetry quiet_os = Inr ()"
proof -
  let ?ip = "ipv4 192 0 2 12"
  obtain m' where m': "process_partial_knock quiet_os ?ip \<lparr> hist = test_hist, srv = test_server ''trace'' 2 \<rparr> = (Inr (), m')"
    "log_content (hist m') = [audit_line 1700000000 ''packet_seen'' (''source_ip='' @ ip_to_string ?ip @ '' observed=true''),
         audit_line 1700000000 ''knock_outcome'' (''source_ip='' @ ip_to_string ?ip @ '' outcome=progress'')]"
    using verbose_partial [OF verbose_levels(2)] by blast
  have seen: "contains_str (audit_line ts ''packet_seen'' msg) ''event=packet_seen''"
    and outcome: "contains_str (audit_line ts ''knock_outcome'' msg) ''event=knock_outcome''" for ts msg
    using audit_line_contains(1) [of ts "''packet_seen''"] audit_line_contains(1) [of ts "''knock_outcome''"] by simp_all
  have "log_has ''event=packet_seen'' m'" "log_has ''event=knock_outcome'' m'"
    unfolding log_has_def m'(2)
    by (rule contains_concat [OF list.set_intros(1) seen],
        rule contains_concat [OF list.set_intros(2) [OF list.set_intros(1)] outcome])
  then show ?thesis
    by (simp add: trace_writes_packet_telemetry_def test_case_quiet bind_io_def m'(1) assert_passes)
qed

end
