(* ===== verification/ConformanceTelemetry.thy ===== *)
theory ConformanceTelemetry
  imports Conformance
begin

text \<open>
  The test of \<open>src/server.rs\<close> that packet telemetry is bounded, run on the model: twelve
  sources each send a first knock at the level debug, and twenty lines are written.
\<close>

definition count_packet_telemetry :: "string list \<Rightarrow> nat" where
  "count_packet_telemetry content = length (filter (\<lambda>line.
     contains_str line ''event=packet_seen'' \<or> contains_str line ''event=knock_outcome'') content)"

definition debug_packet_telemetry_is_bounded :: "os \<Rightarrow> unit result" where
  "debug_packet_telemetry_is_bounded os = test_case os ''debug'' 2 (
     bind_io (for_each (\<lambda>offset. process_partial_knock os (ipv4 192 0 2 (20 + offset))) [0..<12]) (\<lambda>_.
       assert_that (\<lambda>m. count_packet_telemetry (log_content (hist m)) = 20)))"

section \<open>It passes\<close>

definition seen_server :: "ip_addr list \<Rightarrow> nat \<Rightarrow> server" where
  "seen_server ips n = (test_server ''debug'' 2)
     \<lparr>srv_tracker := (srv_tracker (test_server ''debug'' 2))
        \<lparr>states := map (\<lambda>ip. (ip, \<lparr> next_step = 1, first_seen = 0, last_seen = 0 \<rparr>)) ips\<rparr>,
      packet_telemetry_limiter := (packet_telemetry_limiter (test_server ''debug'' 2))
        \<lparr>buckets := (if n = 0 then []
           else [(''packet'', \<lparr> tokens = of_nat (10 - n), last_refill = 0, bkt_last_seen = 0 \<rparr>)])\<rparr>\<rparr>"

lemma seen_none: "seen_server [] 0 = test_server ''debug'' 2"
  by (simp add: seen_server_def test_simps)

lemma seen_fresh:
  "ip \<notin> set ips \<Longrightarrow> length ips < 4096 \<Longrightarrow> decide (packet_of (ip, 12345) Tcp (Some 7001) 1) 0 (seen_server ips n)
    = (Outcome (Progress 1), seen_server (ip # ips) n)"
  by (simp add: seen_server_def test_simps map_of_charged filter_others)

lemma seen_simps [simp]:
  "packet_telemetry_enabled (seen_server ips n)" "\<not> lock_poisoned (srv_logger (seen_server ips n))"
  by (simp_all add: seen_server_def packet_telemetry_enabled_def eq_ignore_ascii_case_def to_ascii_lowercase_def)

lemma seen_bucket:
  assumes "n < 10"
  shows "(of_nat (10 - n) :: u32) \<noteq> 0 \<and> (of_nat (10 - n) :: u32) - 1 = of_nat (10 - Suc n)"
proof -
  have "unat (of_nat (10 - n) :: u32) = 10 - n" by (simp add: unat_of_nat take_bit_nat_eq_self)
  moreover have "10 - n = Suc (10 - Suc n)" using assms by simp
  ultimately show ?thesis using assms by (metis add_diff_cancel_left' diff_is_0_eq linorder_not_le of_nat_Suc unat_0)
qed

lemma seen_telemetry: "telemetry_allow 0 (seen_server ips n) = (n < 10, seen_server ips (Suc n))"
proof -
  let ?l = "packet_telemetry_limiter (seen_server ips n)"
  have "allow ?l ''packet'' 0 = (n < 10, packet_telemetry_limiter (seen_server ips (Suc n)))"
  proof (cases "n = 0")
    case True
    then show ?thesis by (simp add: seen_server_def test_simps saturating_mul_def)
  next
    case False
    then show ?thesis
      using seen_bucket [of n] by (cases "n < 10") (simp_all add: seen_server_def test_simps saturating_mul_def)
  qed
  then show ?thesis by (simp add: telemetry_allow_def) (simp add: seen_server_def)
qed

lemma count_append [simp]: "count_packet_telemetry (h @ h') = count_packet_telemetry h + count_packet_telemetry h'"
  by (simp add: count_packet_telemetry_def)

lemma seen_step:
  assumes "srv m = seen_server ips n" and "ip \<notin> set ips" and "length ips < 4096"
  shows "\<exists>m'. process_partial_knock quiet_os ip m = (Inr (), m') \<and> srv m' = seen_server (ip # ips) (Suc n)
    \<and> count_packet_telemetry (log_content (hist m'))
        = count_packet_telemetry (log_content (hist m)) + (if n < 10 then 2 else 0)"
  using assms audit_line_contains(1) [of 1700000000 "''packet_seen''"]
    audit_line_contains(1) [of 1700000000 "''knock_outcome''"]
  by (auto simp: process_partial_knock_def process_packet_eq quiet_now Let_def seen_fresh seen_telemetry
      log_packet_telemetry_def bind_io_def with_srv_def quiet_log ret_def count_packet_telemetry_def)

lemma seen_all:
  "distinct (ips @ done) \<Longrightarrow> length (ips @ done) \<le> 4096 \<Longrightarrow> srv m = seen_server done (length done) \<Longrightarrow>
    count_packet_telemetry (log_content (hist m)) = 2 * min 10 (length done) \<Longrightarrow>
    \<exists>m'. for_each (process_partial_knock quiet_os) ips m = (Inr (), m')
      \<and> count_packet_telemetry (log_content (hist m')) = 2 * min 10 (length ips + length done)"
proof (induction ips arbitrary: m "done")
  case Nil
  then show ?case by (simp add: ret_def)
next
  case (Cons ip ips)
  from seen_step [of m "done" "length done" ip] Cons.prems obtain m1 where
    1: "process_partial_knock quiet_os ip m = (Inr (), m1)" "srv m1 = seen_server (ip # done) (length (ip # done))"
      "count_packet_telemetry (log_content (hist m1)) = 2 * min 10 (length (ip # done))"
    by (auto simp: min_def)
  from Cons.IH [of "ip # done" m1] Cons.prems 1(2,3) obtain m' where
    "for_each (process_partial_knock quiet_os) ips m1 = (Inr (), m')"
    "count_packet_telemetry (log_content (hist m')) = 2 * min 10 (length ips + length (ip # done))"
    by auto
  with 1(1) show ?case by (simp add: bind_io_def)
qed

lemma telemetry_bound_passes: "debug_packet_telemetry_is_bounded quiet_os = Inr ()"
proof -
  let ?ips = "map (\<lambda>offset. ipv4 192 0 2 (20 + offset)) [0..<12]"
  let ?m = "\<lparr> hist = test_hist, srv = test_server ''debug'' 2 \<rparr>"
  have each: "for_each f (map g xs) = for_each (\<lambda>x. f (g x)) xs" for f and g :: "nat \<Rightarrow> ip_addr" and xs
    by (induction xs) simp_all
  have "distinct ?ips" by (simp add: ipv4_def upt_conv_Cons)
  with seen_all [of ?ips "[]" ?m] obtain m' where
    "for_each (process_partial_knock quiet_os) ?ips ?m = (Inr (), m')" "count_packet_telemetry (log_content (hist m')) = 20"
    by (auto simp: seen_none count_packet_telemetry_def)
  then show ?thesis
    by (simp add: debug_packet_telemetry_is_bounded_def test_case_quiet bind_io_def each assert_passes)
qed

end
