(* ===== verification/UpdaterSpec.thy ===== *)
theory UpdaterSpec
  imports Updater
begin

text \<open>
  What the updater promises: which manifests are accepted, that nothing is installed which the
  signed manifest does not vouch for, that every download is restricted to HTTPS, and that
  the staging directory is removed again.
\<close>

section \<open>The checksum manifest\<close>

datatype manifest_line = Blank | Malformed | Entry string string

definition read_line :: "string \<Rightarrow> manifest_line" where
  "read_line line = (if trim line = [] then Blank
     else (case split_whitespace (trim line) of
         [] \<Rightarrow> Blank
       | [digest, name] \<Rightarrow> Entry digest (strip_star name)
       | _ \<Rightarrow> Malformed))"

text \<open>The digests that the lines list for a package.\<close>

definition digests_for :: "string \<Rightarrow> string list \<Rightarrow> string list" where
  "digests_for package lines = concat (map (\<lambda>l. case read_line l of
     Entry digest name \<Rightarrow> if name = package then [digest] else [] | _ \<Rightarrow> []) lines)"

definition hex64 :: "string \<Rightarrow> bool" where
  "hex64 d = (length d = 64 \<and> (\<forall>c\<in>set d. is_ascii_hexdigit c))"

lemma validate_sha256_hex_iff: "validate_sha256_hex d = Inr () \<longleftrightarrow> hex64 d"
  by (auto simp: validate_sha256_hex_def hex64_def list_all_iff)

lemma digests_for_Cons: "digests_for package (l # ls) = (case read_line l of
     Entry digest name \<Rightarrow> if name = package then [digest] else [] | _ \<Rightarrow> []) @ digests_for package ls"
  by (simp add: digests_for_def)

lemma digest_of_lines_Cons: "digest_of_lines package matched (l # ls) = (case read_line l of
     Blank \<Rightarrow> digest_of_lines package matched ls
   | Malformed \<Rightarrow> Inl (Err ''checksum manifest contains a malformed line'')
   | Entry digest name \<Rightarrow>
       if name = package then and_then (validate_sha256_hex digest) (\<lambda>_.
         if matched \<noteq> None
         then Inl (Err (''checksum manifest contains duplicate entries for '' @ package))
         else digest_of_lines package (Some digest) ls)
       else digest_of_lines package matched ls)"
  by (simp add: read_line_def Let_def split: list.splits)

lemma digest_of_lines_iff:
  "digest_of_lines package matched ls = Inr r \<longleftrightarrow>
    (\<forall>l\<in>set ls. read_line l \<noteq> Malformed) \<and> (\<forall>d\<in>set (digests_for package ls). hex64 d)
    \<and> (case matched of
         None \<Rightarrow> digests_for package ls = (case r of None \<Rightarrow> [] | Some d \<Rightarrow> [d])
       | Some d \<Rightarrow> digests_for package ls = [] \<and> r = Some d)"
proof (induction ls arbitrary: matched)
  case Nil
  then show ?case by (auto simp: digests_for_def split: option.splits)
next
  case (Cons l ls)
  show ?case
    unfolding digest_of_lines_Cons digests_for_Cons
    by (cases "read_line l") (auto simp: Cons and_then_Inr_iff validate_sha256_hex_iff split: option.splits)
qed

lemma expected_digest_iff_aux:
  "expected_digest_from_manifest manifest package = Inr d \<longleftrightarrow>
    (\<forall>l\<in>set (str_lines manifest). read_line l \<noteq> Malformed)
    \<and> digests_for package (str_lines manifest) = [d] \<and> hex64 d"
  by (auto simp: expected_digest_from_manifest_def and_then_Inr_iff digest_of_lines_iff)

section \<open>The events of the steps\<close>

definition installs :: "event \<Rightarrow> bool" where
  "installs e = (case e of Exec p a r \<Rightarrow> p = ''dpkg'' \<or> p = ''rpm'' | _ \<Rightarrow> False)"

lemma emits_exec: "(\<And>r. P (Exec p a r)) \<Longrightarrow> emits P (exec os p a)"
  by (simp add: exec_def emits_call)

lemma emits_read_file: "(\<And>r. P (ReadFile p r)) \<Longrightarrow> emits P (read_file os p)"
  by (simp add: read_file_def emits_call)

lemma emits_println: "P (Print l) \<Longrightarrow> emits P (println l)"
  by (simp add: println_def emits_call)

lemma emits_of_result_bind:
  "(\<And>x. r = Inr x \<Longrightarrow> emits P (f x)) \<Longrightarrow> emits P (bind_io (of_result r) f)"
  by (cases r) (auto simp: emits_def bind_io_def of_result_def)

lemma emits_case_result: "emits P (case r of Inl e \<Rightarrow> throw (Err e) | Inr x \<Rightarrow> ret y)"
  by (simp add: emits_leaf split: sum.split)

lemma emits_if: "(c \<Longrightarrow> emits P m) \<Longrightarrow> (\<not> c \<Longrightarrow> emits P n) \<Longrightarrow> emits P (if c then m else n)"
  by simp

lemmas update_emits = emits_of_result_bind emits_bind emits_exec emits_read_file emits_println emits_attempt
  emits_or_fail emits_leaf emits_call emits_if emits_case_result

lemma emits_download:
  assumes "\<And>a r. a = curl_common_args @ [''--output'', path, url] \<Longrightarrow> starts_with url ''https://''
    \<Longrightarrow> P (Exec ''curl'' a r)"
  shows "emits P (download_package os url path)"
  unfolding download_package_def
  by (intro update_emits) (use assms in \<open>auto simp: ensure_https_url_def split: if_splits\<close>)

lemma emits_verify: "(\<And>p r. P (ReadFile p r)) \<Longrightarrow>
    emits P (verify_package_against_signed_manifest os deps asset pp mp sp)"
  unfolding verify_package_against_signed_manifest_def by (intro update_emits)

lemma verify_ok:
  assumes "verify_package_against_signed_manifest os deps asset pp mp sp w = (Inr (), w')"
  shows "\<exists>m s p d. hist w' = hist w @ [ReadFile mp (Inr m), ReadFile sp (Inr s), ReadFile pp (Inr p)]
     \<and> verify_strict deps release_signing_public_key m s
     \<and> expected_digest_from_manifest m (asset_name asset) = Inr d
     \<and> eq_ignore_ascii_case (sha256_hex deps p) d"
  using assms unfolding verify_package_against_signed_manifest_def
  by (auto elim!: bind_io_cases simp: read_file_def call_def or_fail_def io_defs
      verify_manifest_signature_def split: sum.splits if_splits)

lemma install_emits_one:
  "\<exists>es. hist (snd (install_package os path ext w)) = hist w @ es
    \<and> (es = [] \<or> (\<exists>prog flag r. es = [Exec prog [flag, path] r] \<and> (prog = ''dpkg'' \<or> prog = ''rpm'')
      \<and> (\<forall>x. fst (install_package os path ext w) = Inr x \<longrightarrow> (\<exists>out. r = Inr out \<and> out_success out))))"
  by (auto simp: install_package_def exec_def call_def bind_io_def or_fail_def io_defs split: sum.splits)

text \<open>The steps of the update that run no installer.\<close>

lemma emits_fetch: "(\<And>a r. take 12 a = curl_common_args \<Longrightarrow> last a = release_url \<Longrightarrow> P (Exec ''curl'' a r)) \<Longrightarrow>
    emits P (fetch_latest_release os deps)"
  unfolding fetch_latest_release_def by (intro update_emits) (simp_all add: curl_common_args_def)

lemma emits_extension: "(\<And>r. P (ReadFile ''/etc/os-release'' r)) \<Longrightarrow> emits P (detect_package_extension os)"
  unfolding detect_package_extension_def by (intro update_emits)

lemma emits_restart: "(\<And>r. P (Exec ''systemctl'' [''restart'', ''sshknockd''] r)) \<Longrightarrow> emits P (restart_service os)"
  unfolding restart_service_def by (intro update_emits)

lemma emits_rmdir: "(\<And>r. P (RemoveDir d r)) \<Longrightarrow> emits P (remove_dir_all os d)"
  by (simp add: remove_dir_all_def emits_call)

lemma emits_staging_dir:
  "(\<And>n. P (ProcessId n)) \<Longrightarrow> (\<And>d r. P (RemoveDir d r)) \<Longrightarrow> (\<And>d r. P (MakeDir d 448 r)) \<Longrightarrow>
    emits P (create_private_staging_dir os)"
  unfolding create_private_staging_dir_def process_id_def remove_dir_all_def Let_def
  by (intro update_emits)

lemma emits_install:
  "(\<And>r. P (Exec ''dpkg'' [''-i'', path] r)) \<Longrightarrow> (\<And>r. P (Exec ''rpm'' [''-Uvh'', path] r)) \<Longrightarrow>
    emits P (install_package os path ext)"
  unfolding install_package_def
  by (cases "ext = ''deb''"; cases "ext = ''rpm''") (auto simp: of_result_def intro!: update_emits
    simp flip: ret_def throw_def)

lemma emits_stage:
  assumes "\<And>a r. take 12 a = curl_common_args \<Longrightarrow> starts_with (last a) ''https://'' \<Longrightarrow> P (Exec ''curl'' a r)"
    and "\<And>p r. P (ReadFile p r)"
    and "\<And>path r. P (Exec ''dpkg'' [''-i'', path] r)" and "\<And>path r. P (Exec ''rpm'' [''-Uvh'', path] r)"
  shows "emits P (stage_verify_and_install os deps a b c ext dir)"
  unfolding stage_verify_and_install_def Let_def
  by (intro emits_bind emits_download emits_verify emits_install assms)
    (simp_all add: curl_common_args_def)

lemma update_emits_all:
  assumes "\<And>a r. take 12 a = curl_common_args \<Longrightarrow> starts_with (last a) ''https://'' \<Longrightarrow> P (Exec ''curl'' a r)"
    and "\<And>p r. P (ReadFile p r)"
    and "\<And>path r. P (Exec ''dpkg'' [''-i'', path] r)" and "\<And>path r. P (Exec ''rpm'' [''-Uvh'', path] r)"
    and "\<And>r. P (Exec ''systemctl'' [''restart'', ''sshknockd''] r)" and "\<And>l. P (Print l)"
    and "\<And>n. P (ProcessId n)" and "\<And>d r. P (RemoveDir d r)" and "\<And>d r. P (MakeDir d 448 r)"
  shows "emits P (update_from_latest_release os deps)"
  unfolding update_from_latest_release_def Let_def
  by (intro emits_of_result_bind emits_bind emits_if emits_println emits_attempt emits_case_result
      emits_fetch emits_extension emits_staging_dir emits_stage emits_rmdir emits_restart assms)
    (simp_all add: release_url_def starts_with_def)

lemma upholds_if: "upholds I m \<Longrightarrow> upholds I n \<Longrightarrow> upholds I (if c then m else n)"
  by simp

lemma upholds_case_result: "upholds I (case r of Inl e \<Rightarrow> throw (Err e) | Inr x \<Rightarrow> ret y)"
  by (simp add: upholds_leaf split: sum.split)

section \<open>The staging directory and the restart\<close>

lemma calm_of_err: "(\<And>e. r \<noteq> Inl (Panic e)) \<Longrightarrow> calm (of_result r)"
  by (auto simp: calm_def of_result_def)

lemma digest_no_panic: "digest_of_lines package matched ls \<noteq> Inl (Panic e)"
proof (induction ls arbitrary: matched)
  case (Cons l ls)
  then show ?case
    by (cases "read_line l")
      (auto simp: digest_of_lines_Cons validate_sha256_hex_def simp del: digest_of_lines.simps(2))
qed simp

lemma pure_no_panic:
  "ensure_https_url u \<noteq> Inl (Panic e)" "verify_manifest_signature deps m s \<noteq> Inl (Panic e)"
  "ensure c x \<noteq> Inl (Panic e)" "expected_digest_from_manifest m n \<noteq> Inl (Panic e)"
  using digest_no_panic [of n None "str_lines m" e]
  by (auto simp: ensure_https_url_def verify_manifest_signature_def ensure_def
      expected_digest_from_manifest_def and_then_def context_opt_def split: sum.splits option.splits)

lemma calm_if: "calm m \<Longrightarrow> calm n \<Longrightarrow> calm (if c then m else n)"
  by simp

lemma calm_io: "calm (exec os p a)" "calm (read_file os p)"
  by (simp_all add: exec_def read_file_def calm_leaf)

lemma calm_stage: "calm (stage_verify_and_install os deps a b c ext dir)"
  unfolding stage_verify_and_install_def Let_def download_package_def install_package_def
    verify_package_against_signed_manifest_def
  by (auto intro!: calm_bind calm_if calm_leaf calm_io calm_of_err split: prod.splits)
    (auto simp: pure_no_panic split: if_splits)

text \<open>
  Every directory that was created is removed by a later call, and only a successful
  installer run is followed by a restart.
\<close>

definition cleaned :: "transcript \<Rightarrow> bool" where
  "cleaned h = (\<forall>h1 d n h2. h = h1 @ MakeDir d n None # h2 \<longrightarrow> (\<exists>r. RemoveDir d r \<in> set h2))"

definition restarts :: "event \<Rightarrow> bool" where
  "restarts e = (case e of Exec p a r \<Rightarrow> p = ''systemctl'' | _ \<Rightarrow> False)"

definition installed :: "event \<Rightarrow> bool" where
  "installed e = (case e of Exec p a (Inr out) \<Rightarrow> installs e \<and> out_success out | _ \<Rightarrow> False)"

definition makes :: "event \<Rightarrow> bool" where
  "makes e = (case e of MakeDir d n None \<Rightarrow> True | _ \<Rightarrow> False)"

lemma makes_MakeDir [simp]: "makes (MakeDir d n r) \<longleftrightarrow> r = None"
  by (cases r) (simp_all add: makes_def)

lemma cleaned_append:
  assumes "cleaned h" and "list_all (\<lambda>e. \<not> makes e) es"
  shows "cleaned (h @ es)"
  unfolding cleaned_def
proof (intro allI impI)
  fix h1 d n h2
  assume "h @ es = h1 @ MakeDir d n None # h2"
  then obtain us where "h = h1 @ us \<and> us @ es = MakeDir d n None # h2
      \<or> h @ us = h1 \<and> es = us @ MakeDir d n None # h2"
    by (auto simp: append_eq_append_conv2)
  then show "\<exists>r. RemoveDir d r \<in> set h2"
    using assms by (cases us) (fastforce simp: cleaned_def)+
qed

lemma cleaned_close:
  assumes "cleaned h" and "list_all (\<lambda>e. \<not> makes e) es"
  shows "cleaned (h @ MakeDir d n None # es @ [RemoveDir d r])"
  unfolding cleaned_def
proof (intro allI impI)
  fix h1 d' n' h2
  assume eq: "h @ MakeDir d n None # es @ [RemoveDir d r] = h1 @ MakeDir d' n' None # h2"
  then obtain us where us: "h = h1 @ us \<and> us @ MakeDir d n None # es @ [RemoveDir d r] = MakeDir d' n' None # h2
      \<or> h @ us = h1 \<and> MakeDir d n None # es @ [RemoveDir d r] = us @ MakeDir d' n' None # h2"
    by (auto simp: append_eq_append_conv2)
  show "\<exists>r. RemoveDir d' r \<in> set h2"
  proof (cases us)
    case Nil
    then show ?thesis using us by auto
  next
    case (Cons x xs)
    from us show ?thesis
    proof
      assume "h = h1 @ us \<and> us @ MakeDir d n None # es @ [RemoveDir d r] = MakeDir d' n' None # h2"
      then have "h = h1 @ MakeDir d' n' None # xs" and h2: "h2 = xs @ MakeDir d n None # es @ [RemoveDir d r]"
        using Cons by auto
      then obtain x where "RemoveDir d' x \<in> set xs" using assms(1) unfolding cleaned_def by blast
      then show ?thesis using h2 by auto
    next
      assume "h @ us = h1 \<and> MakeDir d n None # es @ [RemoveDir d r] = us @ MakeDir d' n' None # h2"
      then have "es @ [RemoveDir d r] = xs @ MakeDir d' n' None # h2" using Cons by simp
      then have "MakeDir d' n' None \<in> set (es @ [RemoveDir d r])" by (metis in_set_conv_decomp)
      then show ?thesis using assms(2) by (auto simp: list_all_iff)
    qed
  qed
qed

lemma staging_dir_hist:
  obtains (fail) e w' es where "create_private_staging_dir os w = (Inl e, w')" and "hist w' = hist w @ es"
      and "list_all (\<lambda>e. \<not> makes e) es"
    | (ok) dir w' es where "create_private_staging_dir os w = (Inr dir, w')"
      and "hist w' = hist w @ es @ [MakeDir dir 448 None]" and "list_all (\<lambda>e. \<not> makes e) es"
proof (cases "os_mkdir os (hist (snd (remove_dir_all os (''/tmp/sshknockd-staging-''
    @ dec (os_pid os (hist w))) (snd (process_id os w))))) (''/tmp/sshknockd-staging-''
    @ dec (os_pid os (hist w))) 448")
  case None
  then show ?thesis
    by (intro ok) (auto simp: create_private_staging_dir_def process_id_def remove_dir_all_def call_def
        bind_io_def none_or_fail_def io_defs Let_def makes_def)
next
  case (Some e)
  then show ?thesis
    by (intro fail) (auto simp: create_private_staging_dir_def process_id_def remove_dir_all_def call_def
        bind_io_def none_or_fail_def io_defs Let_def makes_def)
qed

lemma quiet_stage: "emits (\<lambda>e. \<not> makes e) (stage_verify_and_install os deps a b c ext dir)"
  by (intro emits_stage) (simp_all add: makes_def)

lemma upholds_cleaned_stage:
  assumes "\<And>dir r. upholds (\<lambda>w. cleaned (hist w)) (k dir r)"
  shows "upholds (\<lambda>w. cleaned (hist w)) (bind_io (create_private_staging_dir os) (\<lambda>dir.
     bind_io (attempt (stage_verify_and_install os deps a b c ext dir)) (\<lambda>r.
     bind_io (remove_dir_all os dir) (\<lambda>_. k dir r))))"
  unfolding upholds_def
proof (intro allI impI)
  fix w :: "'a world_scheme"
  assume w: "cleaned (hist w)"
  show "cleaned (hist (snd (bind_io (create_private_staging_dir os) (\<lambda>dir.
     bind_io (attempt (stage_verify_and_install os deps a b c ext dir)) (\<lambda>r.
     bind_io (remove_dir_all os dir) (\<lambda>_. k dir r))) w)))"
  proof (rule staging_dir_hist [of os w])
    fix e w' es
    assume "create_private_staging_dir os w = (Inl e, w')" "hist w' = hist w @ es"
      "list_all (\<lambda>e. \<not> makes e) es"
    with w show ?thesis by (simp add: bind_io_def cleaned_append)
  next
    fix dir w1 es
    assume 1: "create_private_staging_dir os w = (Inr dir, w1)"
      "hist w1 = hist w @ es @ [MakeDir dir 448 None]" "list_all (\<lambda>e. \<not> makes e) es"
    obtain r2 w2 where 2: "stage_verify_and_install os deps a b c ext dir w1 = (r2, w2)"
      by (cases "stage_verify_and_install os deps a b c ext dir w1")
    obtain es2 where es2: "hist w2 = hist w1 @ es2" "list_all (\<lambda>e. \<not> makes e) es2"
      using emitsD [OF quiet_stage 2] by blast
    obtain x where x: "attempt (stage_verify_and_install os deps a b c ext dir) w1 = (Inr x, w2)"
    proof -
      have "r2 \<noteq> Inl (Panic e)" for e
        using 2 calm_stage [of os deps a b c ext dir] unfolding calm_def by (metis fst_conv)
      then show ?thesis
        by (cases r2; cases "projl r2") (auto simp: attempt_def 2 intro: that)
    qed
    let ?w3 = "snd (remove_dir_all os dir w2)"
    have "hist ?w3 = (hist w @ es) @ MakeDir dir 448 None # es2
        @ [RemoveDir dir (os_rmdir os (hist w2) dir)]"
      by (simp add: remove_dir_all_def call_def es2(1) 1(2))
    then have "cleaned (hist ?w3)"
      using cleaned_close [OF cleaned_append [OF w 1(3)] es2(2)] by simp
    then have "cleaned (hist (snd (k dir x ?w3)))"
      using assms by (simp add: upholds_def)
    then show ?thesis using 1(1) x
      by (simp add: bind_io_def remove_dir_all_def call_def)
  qed
qed

lemma upholds_unmade: "emits (\<lambda>e. \<not> makes e) m \<Longrightarrow> upholds (\<lambda>w. cleaned (hist w)) m"
  unfolding upholds_def emits_def using cleaned_append by metis

lemma upholds_unmade_steps:
  "upholds (\<lambda>w. cleaned (hist w)) (fetch_latest_release os deps')"
  "upholds (\<lambda>w. cleaned (hist w)) (detect_package_extension os)"
  "upholds (\<lambda>w. cleaned (hist w)) (restart_service os)"
  "upholds (\<lambda>w. cleaned (hist w)) (println l)"
  by (intro upholds_unmade emits_fetch emits_extension emits_restart emits_println; simp add: makes_def)+

lemma upholds_cleaned: "upholds (\<lambda>w. cleaned (hist w)) (update_from_latest_release os deps)"
  unfolding update_from_latest_release_def Let_def
  by (intro upholds_cleaned_stage upholds_if upholds_unmade_steps upholds_bind [OF upholds_unmade_steps(1)]
      upholds_bind [OF upholds_unmade_steps(2)] upholds_bind [OF upholds_leaf(3)]
      upholds_bind [OF upholds_case_result] upholds_bind [OF upholds_unmade_steps(3)])

lemma install_ok:
  assumes "install_package os path ext w = (Inr u, w')"
  shows "\<exists>i\<in>set (hist w'). installed i"
proof -
  have "\<exists>prog flag out. hist w' = hist w @ [Exec prog [flag, path] (Inr out)] \<and> out_success out
      \<and> (prog = ''dpkg'' \<or> prog = ''rpm'')"
    using assms
    by (auto simp: install_package_def exec_def call_def bind_io_def or_fail_def io_defs
        split: sum.splits if_splits)
  then show ?thesis by (auto simp: installed_def installs_def)
qed

lemma stage_installed:
  assumes "stage_verify_and_install os deps a b c ext dir w = (Inr u, w')"
  shows "\<exists>e\<in>set (hist w'). installed e"
  using assms unfolding stage_verify_and_install_def Let_def
  by (elim bind_io_Inr) (rule install_ok)

definition restart_guarded :: "'z world_scheme \<Rightarrow> bool" where
  "restart_guarded w = guards restarts (\<lambda>h e. \<exists>i\<in>set h. installed i) (hist w)"

lemma upholds_no_restart: "emits (\<lambda>e. \<not> restarts e) m \<Longrightarrow> upholds restart_guarded m"
  unfolding restart_guarded_def [abs_def] by (rule upholds_guards)

lemma upholds_no_restart_steps:
  "upholds restart_guarded (fetch_latest_release os deps')"
  "upholds restart_guarded (detect_package_extension os)"
  "upholds restart_guarded (create_private_staging_dir os)"
  "upholds restart_guarded (println l)"
  by (intro upholds_no_restart emits_fetch emits_extension emits_staging_dir emits_println;
      simp add: restarts_def)+

lemma restart_service_hist:
  "\<exists>r. hist (snd (restart_service os w)) = hist w @ [Exec ''systemctl'' [''restart'', ''sshknockd''] r]"
  by (auto simp: restart_service_def exec_def call_def bind_io_def or_fail_def io_defs split: sum.splits)

lemma upholds_restart_tail:
  "upholds restart_guarded (bind_io (attempt (stage_verify_and_install os deps a b c ext dir)) (\<lambda>r.
     bind_io (remove_dir_all os dir) (\<lambda>_.
     bind_io (case r of Inl e \<Rightarrow> throw (Err e) | Inr _ \<Rightarrow> ret ()) (\<lambda>_.
     bind_io (restart_service os) (\<lambda>_. println l)))))"
  unfolding upholds_def
proof (intro allI impI)
  fix w :: "'a world_scheme"
  let ?tail = "\<lambda>r. bind_io (remove_dir_all os dir) (\<lambda>_.
     bind_io (case r of Inl e \<Rightarrow> throw (Err e) | Inr _ \<Rightarrow> ret ()) (\<lambda>_.
     bind_io (restart_service os) (\<lambda>_. println l)))"
  assume w: "restart_guarded w"
  obtain r1 w1 where 1: "stage_verify_and_install os deps a b c ext dir w = (r1, w1)"
    by (cases "stage_verify_and_install os deps a b c ext dir w")
  have "upholds restart_guarded (stage_verify_and_install os deps a b c ext dir)"
    by (intro upholds_no_restart emits_stage) (simp_all add: restarts_def)
  from upholdsD [OF this 1 w] have w1: "restart_guarded w1" .
  have d: "hist (snd (remove_dir_all os dir w1)) = hist w1 @ [RemoveDir dir (os_rmdir os (hist w1) dir)]"
    by (simp add: remove_dir_all_def call_def)
  have w2: "restart_guarded (snd (remove_dir_all os dir w1))"
    using w1 d by (simp add: restart_guarded_def guards_snoc restarts_def)
  show "restart_guarded (snd (bind_io (attempt (stage_verify_and_install os deps a b c ext dir)) ?tail w))"
  proof (cases r1)
    case (Inl e)
    then show ?thesis
      using 1 w1 w2 by (cases e) (auto simp: bind_io_def attempt_def io_defs remove_dir_all_def call_def)
  next
    case (Inr u)
    obtain i where i: "i \<in> set (hist w1)" "installed i" using stage_installed 1 Inr by blast
    let ?w2 = "snd (remove_dir_all os dir w1)"
    have "restart_guarded (snd (restart_service os ?w2))"
    proof -
      obtain r where "hist (snd (restart_service os ?w2)) = hist ?w2 @ [Exec ''systemctl'' [''restart'', ''sshknockd''] r]"
        using restart_service_hist by blast
      moreover have "\<exists>i\<in>set (hist ?w2). installed i" using i d by auto
      ultimately show ?thesis using w2 unfolding restart_guarded_def by (simp only: guards_snoc) blast
    qed
    then have "restart_guarded (snd (bind_io (restart_service os) (\<lambda>_. println l) ?w2))"
      using upholds_no_restart_steps(4) [of l]
      by (auto simp: bind_io_def upholds_def split: prod.splits sum.splits)
    then show ?thesis
      using 1 Inr by (simp add: bind_io_def attempt_def remove_dir_all_def call_def ret_def)
  qed
qed

lemma upholds_restart: "upholds restart_guarded (update_from_latest_release os deps)"
  unfolding update_from_latest_release_def Let_def
  by (intro upholds_restart_tail upholds_if upholds_no_restart_steps upholds_leaf
      upholds_bind [OF upholds_no_restart_steps(1)] upholds_bind [OF upholds_no_restart_steps(2)]
      upholds_bind [OF upholds_no_restart_steps(3)] upholds_bind [OF upholds_leaf(3)])

section \<open>Manifests in the format of sha256sum\<close>

definition graphic :: "char \<Rightarrow> bool" where
  "graphic c = (33 \<le> (of_char c :: nat) \<and> (of_char c :: nat) \<le> 126)"

definition manifest_text :: "(string \<times> string) list \<Rightarrow> string" where
  "manifest_text es = concat (map (\<lambda>(digest, name). digest @ ''  '' @ name @ [CHR 0x0A]) es)"

text \<open>Entries as the release process writes them.\<close>

definition plain_entry :: "string \<times> string \<Rightarrow> bool" where
  "plain_entry e = (hex64 (fst e) \<and> snd e \<noteq> [] \<and> (\<forall>c\<in>set (snd e). graphic c) \<and> hd (snd e) \<noteq> CHR ''*'')"

lemma utf8_chars_ascii: "\<forall>c\<in>set s. (of_char c :: nat) < 128 \<Longrightarrow> utf8_chars s = map (\<lambda>c. [c]) s"
  by (induction s) (auto simp: utf8_chars_def utf8_next_def utf8_follow_def)

lemma graphic_ascii: "graphic c \<Longrightarrow> (of_char c :: nat) < 128"
  by (simp add: graphic_def)

lemma graphic_not_space: "graphic c \<Longrightarrow> \<not> is_whitespace [c]"
  by (auto simp: graphic_def is_whitespace_def white_space_def)

lemma hexdigit_graphic: "is_ascii_hexdigit c \<Longrightarrow> graphic c"
  by (auto simp: is_ascii_hexdigit_def graphic_def Let_def)

lemma space_is_whitespace: "is_whitespace '' ''"
  by (simp add: is_whitespace_def white_space_def)

lemma map_single_concat: "concat (map (\<lambda>c. [c]) s) = s"
  by (induction s) auto

lemma trim_same:
  assumes "\<forall>c\<in>set s. (of_char c :: nat) < 128" and "s \<noteq> []" and "graphic (hd s)" and "graphic (last s)"
  shows "trim s = s"
proof -
  have front: "dropWhile is_whitespace (utf8_chars s) = map (\<lambda>c. [c]) s"
    using assms graphic_not_space by (cases s) (simp_all add: utf8_chars_ascii)
  have "dropWhile is_whitespace (rev (map (\<lambda>c. [c]) s)) = rev (map (\<lambda>c. [c]) s)"
    using assms(2,4) graphic_not_space by (cases s rule: rev_cases) simp_all
  then show ?thesis by (simp add: trim_def front map_single_concat)
qed

lemma read_plain_line:
  assumes "plain_entry (digest, name)"
  shows "read_line (digest @ ''  '' @ name) = Entry digest name"
proof -
  let ?l = "digest @ ''  '' @ name" and ?one = "map (\<lambda>c. [c])"
  have d: "digest \<noteq> []" "\<forall>c\<in>set digest. graphic c" and n: "name \<noteq> []" "\<forall>c\<in>set name. graphic c"
    "hd name \<noteq> CHR ''*''"
    using assms hexdigit_graphic by (auto simp: plain_entry_def hex64_def)
  have ascii: "\<forall>c\<in>set ?l. (of_char c :: nat) < 128"
    using d n graphic_ascii by auto
  have t: "trim ?l = ?l"
    using d n by (intro trim_same ascii) auto
  have none: "\<forall>c\<in>set (?one s). \<not> is_whitespace c" if "\<forall>c\<in>set s. graphic c" for s
    using that graphic_not_space by auto
  have "split_by is_whitespace (utf8_chars ?l) = [?one digest, [], ?one name]"
  proof -
    have "utf8_chars ?l = ?one digest @ '' '' # [] @ '' '' # ?one name"
      using utf8_chars_ascii [OF ascii] by simp
    moreover have "split_by is_whitespace (?one digest @ '' '' # [] @ '' '' # ?one name)
        = ?one digest # split_by is_whitespace ([] @ '' '' # ?one name)"
      using none [OF d(2)] space_is_whitespace by (intro split_by_append) auto
    moreover have "split_by is_whitespace ([] @ '' '' # ?one name) = [] # split_by is_whitespace (?one name)"
      using space_is_whitespace by (intro split_by_append) auto
    moreover have "split_by is_whitespace (?one name) = [?one name]"
      using none [OF n(2)] by (rule split_by_none)
    ultimately show ?thesis by simp
  qed
  then have s: "split_whitespace ?l = [digest, name]"
    using d n by (simp add: split_whitespace_def map_single_concat)
  have "strip_star name = name"
    using n(1,3) by (cases name) (simp_all add: strip_star_def)
  then show ?thesis
    unfolding read_line_def t s using d(1) by simp
qed

lemma plain_line_no_newline:
  assumes "plain_entry (digest, name)"
  shows "\<forall>c\<in>set (digest @ ''  '' @ name). c \<noteq> CHR 0x0A" and "strip_cr (digest @ ''  '' @ name) = digest @ ''  '' @ name"
proof -
  have g: "\<forall>c\<in>set digest \<union> set name. graphic c" and ne: "name \<noteq> []"
    using assms hexdigit_graphic by (auto simp: plain_entry_def hex64_def)
  have "\<not> graphic CHR 0x0A" by (simp add: graphic_def)
  then show "\<forall>c\<in>set (digest @ ''  '' @ name). c \<noteq> CHR 0x0A" using g by auto
  have "graphic (last name)" using g ne by simp
  then show "strip_cr (digest @ ''  '' @ name) = digest @ ''  '' @ name"
    using ne by (auto simp: strip_cr_def graphic_def)
qed

lemma split_manifest:
  "\<forall>e\<in>set es. plain_entry e \<Longrightarrow>
    split_by (\<lambda>c. c = CHR 0x0A) (manifest_text es) = map (\<lambda>(d, n). d @ ''  '' @ n) es @ [[]]"
proof (induction es)
  case (Cons e es)
  obtain d n where e: "e = (d, n)" by (cases e)
  have "manifest_text (e # es) = (d @ ''  '' @ n) @ CHR 0x0A # manifest_text es"
    by (simp add: manifest_text_def e)
  moreover have "split_by (\<lambda>c. c = CHR 0x0A) ((d @ ''  '' @ n) @ CHR 0x0A # manifest_text es)
      = (d @ ''  '' @ n) # split_by (\<lambda>c. c = CHR 0x0A) (manifest_text es)"
    using plain_line_no_newline(1) [of d n] Cons.prems e by (intro split_by_append) auto
  ultimately show ?case using Cons e by simp
qed (simp add: manifest_text_def)

lemma lines_manifest:
  assumes "\<forall>e\<in>set es. plain_entry e"
  shows "str_lines (manifest_text es) = map (\<lambda>(d, n). d @ ''  '' @ n) es"
  using assms plain_line_no_newline(2)
  by (auto simp: str_lines_def split_manifest Let_def butlast_append simp del: append_assoc)

lemma digests_manifest:
  "\<forall>e\<in>set es. plain_entry e \<Longrightarrow>
    digests_for package (map (\<lambda>(d, n). d @ ''  '' @ n) es) = map fst (filter (\<lambda>e. snd e = package) es)"
proof (induction es)
  case (Cons e es)
  obtain d n where "e = (d, n)" by (cases e)
  then show ?case using Cons read_plain_line [of d n] by (simp add: digests_for_Cons)
qed (simp add: digests_for_def)

lemma filter_name:
  "distinct (map snd es) \<Longrightarrow> (d, n) \<in> set es \<Longrightarrow> filter (\<lambda>e. snd e = n) es = [(d, n)]"
proof (induction es)
  case (Cons e es)
  show ?case
  proof (cases "snd e = n")
    case True
    then have "n \<notin> snd ` set es" using Cons.prems(1) by auto
    then have "filter (\<lambda>e. snd e = n) es = []" and "e = (d, n)"
      using Cons.prems(2) True by (auto simp: filter_empty_conv intro: rev_image_eqI)
    then show ?thesis by simp
  next
    case False
    then show ?thesis using Cons by auto
  qed
qed simp

lemma manifest_found:
  assumes "\<forall>e\<in>set es. plain_entry e" and "distinct (map snd es)" and "(digest, name) \<in> set es"
  shows "expected_digest_from_manifest (manifest_text es) name = Inr digest"
proof -
  have "\<forall>l\<in>set (map (\<lambda>(d, n). d @ ''  '' @ n) es). read_line l \<noteq> Malformed"
    using assms(1) read_plain_line by fastforce
  then show ?thesis
    using assms filter_name [OF assms(2,3)] digests_manifest [OF assms(1)]
    by (auto simp: expected_digest_iff_aux lines_manifest plain_entry_def)
qed

end
