(* ===== verification/UpdaterRuns.thy ===== *)
theory UpdaterRuns
  imports UpdaterSpec
begin

text \<open>
  The properties of the update command as a whole, and an update that succeeds, on which they
  are applied.
\<close>

section \<open>An update that succeeds\<close>

definition release_os :: os where
  "release_os = quiet_os\<lparr> os_read := \<lambda>h p. Inr (
     if p = ''/etc/os-release'' then ''ID=debian''
     else if ends_with p ''.sig'' then ''sig''
     else if ends_with p ''SHA256SUMS'' then manifest_text [(replicate 64 CHR ''a'', ''k_amd64.deb'')]
     else ''package'') \<rparr>"

definition release_deps :: deps where
  "release_deps = \<lparr> parse_release = \<lambda>s. Some \<lparr> tag_name = ''v0.2.5'', assets =
       [\<lparr> asset_name = ''k_amd64.deb'', browser_download_url = ''https://e/k'' \<rparr>,
        \<lparr> asset_name = ''SHA256SUMS'', browser_download_url = ''https://e/s'' \<rparr>,
        \<lparr> asset_name = ''SHA256SUMS.sig'', browser_download_url = ''https://e/g'' \<rparr>] \<rparr>,
     sha256_hex = \<lambda>s. replicate 64 CHR ''a'', key_valid = \<lambda>k. True, signature_valid = \<lambda>s. True,
     verify_strict = \<lambda>k m s. True, consts_arch = ''x86_64'' \<rparr>"


lemma release_manifest:
  "expected_digest_from_manifest (manifest_text [(replicate 64 CHR ''a'', ''k_amd64.deb'')]) ''k_amd64.deb''
    = Inr (replicate 64 CHR ''a'')"
  by (rule manifest_found) (auto simp: plain_entry_def hex64_def is_ascii_hexdigit_def graphic_def Let_def)

lemma release_manifest_utf8: "utf8_valid (manifest_text [(replicate 64 CHR ''a'', ''k_amd64.deb'')])"
  by code_simp


lemma release_detect: "detect_package_extension release_os w =
    (Inr ''deb'', w\<lparr>hist := hist w @ [ReadFile ''/etc/os-release'' (Inr ''ID=debian'')]\<rparr>)"
proof -
  have c: "\<not> contains_str ''ID=debian'' ''ID_LIKE=rhel''" "\<not> contains_str ''ID=debian'' (''ID_LIKE='' @ quote @ ''rhel'')"
    "\<not> contains_str ''ID=debian'' ''ID=centos''" "\<not> contains_str ''ID=debian'' ''ID=fedora''"
    "\<not> contains_str ''ID=debian'' ''ID=rhel''" "\<not> contains_str ''ID=debian'' ''ID=rocky''" "\<not> contains_str ''ID=debian'' ''ID=almalinux''"
    "contains_str ''ID=debian'' ''ID=debian''" "utf8_valid ''ID=debian''"
    by code_simp+
  have "os_read release_os h ''/etc/os-release'' = Inr ''ID=debian''" for h
    by (simp add: release_os_def)
  then show ?thesis
    by (simp only: detect_package_extension_def read_file_def call_def bind_io_def or_fail_def io_defs c
        prod.case sum.case not_True_eq_False if_False if_True simp_thms)
qed

lemma release_stage:
  "stage_verify_and_install release_os release_deps
     \<lparr> asset_name = ''k_amd64.deb'', browser_download_url = ''https://e/k'' \<rparr>
     \<lparr> asset_name = ''SHA256SUMS'', browser_download_url = ''https://e/s'' \<rparr>
     \<lparr> asset_name = ''SHA256SUMS.sig'', browser_download_url = ''https://e/g'' \<rparr> ''deb'' ''/tmp/sshknockd-staging-42'' w =
   (Inr (), w\<lparr>hist := hist w @
      [Exec ''curl'' (curl_common_args @ [''--output'', ''/tmp/sshknockd-staging-42/sshknockd-update.deb'', ''https://e/k'']) (Inr ok_output),
       Exec ''curl'' (curl_common_args @ [''--output'', ''/tmp/sshknockd-staging-42/SHA256SUMS'', ''https://e/s'']) (Inr ok_output),
       Exec ''curl'' (curl_common_args @ [''--output'', ''/tmp/sshknockd-staging-42/SHA256SUMS.sig'', ''https://e/g'']) (Inr ok_output),
       ReadFile ''/tmp/sshknockd-staging-42/SHA256SUMS'' (Inr (manifest_text [(replicate 64 CHR ''a'', ''k_amd64.deb'')])),
       ReadFile ''/tmp/sshknockd-staging-42/SHA256SUMS.sig'' (Inr ''sig''),
       ReadFile ''/tmp/sshknockd-staging-42/sshknockd-update.deb'' (Inr ''package''),
       Exec ''dpkg'' [''-i'', ''/tmp/sshknockd-staging-42/sshknockd-update.deb''] (Inr ok_output)]\<rparr>)"
  by (simp add: stage_verify_and_install_def download_package_def verify_package_against_signed_manifest_def
      install_package_def ensure_https_url_def starts_with_def exec_def read_file_def call_def bind_io_def or_fail_def
      io_defs release_os_def quiet_os_def ends_with_def ok_output_def verify_manifest_signature_def release_deps_def
      release_manifest release_manifest_utf8 ensure_def Let_def eq_ignore_ascii_case_def)

lemma release_staging_dir:
  "create_private_staging_dir release_os w = (Inr ''/tmp/sshknockd-staging-42'', w\<lparr>hist := hist w @
     [ProcessId 42, RemoveDir ''/tmp/sshknockd-staging-42'' None, MakeDir ''/tmp/sshknockd-staging-42'' 448 None]\<rparr>)"
proof -
  have "dec 42 = ''42''" by code_simp
  then show ?thesis
    by (simp add: create_private_staging_dir_def process_id_def remove_dir_all_def call_def bind_io_def
        none_or_fail_def io_defs release_os_def quiet_os_def Let_def)
qed

lemma release_fetch:
  "\<exists>e. fetch_latest_release release_os release_deps w =
     (Inr (the (parse_release release_deps [])), w\<lparr>hist := hist w @ [e]\<rparr>)"
  by (simp add: fetch_latest_release_def exec_def call_def bind_io_def or_fail_def io_defs release_os_def
      quiet_os_def ok_output_def release_deps_def context_opt_def) blast

lemma release_run:
  "\<exists>h. update_from_latest_release release_os release_deps w = (Inr (), w\<lparr>hist := hist w @ h @
     [MakeDir ''/tmp/sshknockd-staging-42'' 448 None,
      Exec ''curl'' (curl_common_args @ [''--output'', ''/tmp/sshknockd-staging-42/sshknockd-update.deb'', ''https://e/k'']) (Inr ok_output),
      Exec ''curl'' (curl_common_args @ [''--output'', ''/tmp/sshknockd-staging-42/SHA256SUMS'', ''https://e/s'']) (Inr ok_output),
      Exec ''curl'' (curl_common_args @ [''--output'', ''/tmp/sshknockd-staging-42/SHA256SUMS.sig'', ''https://e/g'']) (Inr ok_output),
      ReadFile ''/tmp/sshknockd-staging-42/SHA256SUMS'' (Inr (manifest_text [(replicate 64 CHR ''a'', ''k_amd64.deb'')])),
      ReadFile ''/tmp/sshknockd-staging-42/SHA256SUMS.sig'' (Inr ''sig''),
      ReadFile ''/tmp/sshknockd-staging-42/sshknockd-update.deb'' (Inr ''package''),
      Exec ''dpkg'' [''-i'', ''/tmp/sshknockd-staging-42/sshknockd-update.deb''] (Inr ok_output),
      RemoveDir ''/tmp/sshknockd-staging-42'' None,
      Exec ''systemctl'' [''restart'', ''sshknockd''] (Inr ok_output),
      Print ''sshknockd updated from 0.2.4 to 0.2.5'']\<rparr>)"
proof -
  have 1: "tag_name (the (parse_release release_deps [])) = ''v0.2.5''" "trim_start_v ''v0.2.5'' = ''0.2.5''"
      "detect_architecture release_deps = Inr ''amd64''"
    by (simp_all add: release_deps_def trim_start_v_def detect_architecture_def)
  have 2: "select_release_asset (the (parse_release release_deps [])) ''deb'' ''amd64''
      = Inr \<lparr> asset_name = ''k_amd64.deb'', browser_download_url = ''https://e/k'' \<rparr>"
    "select_named_release_asset (the (parse_release release_deps [])) checksum_manifest
      = Inr \<lparr> asset_name = ''SHA256SUMS'', browser_download_url = ''https://e/s'' \<rparr>"
    "select_named_release_asset (the (parse_release release_deps [])) checksum_signature
      = Inr \<lparr> asset_name = ''SHA256SUMS.sig'', browser_download_url = ''https://e/g'' \<rparr>"
    by (simp_all add: release_deps_def select_release_asset_def select_named_release_asset_def package_arch_names_def
        and_then_def context_opt_def ends_with_def starts_with_def checksum_manifest_def checksum_signature_def)
  have 3: "remove_dir_all release_os d v = (Inr None, v\<lparr>hist := hist v @ [RemoveDir d None]\<rparr>)"
    for d and v :: "'a world_scheme"
    by (simp add: remove_dir_all_def call_def release_os_def quiet_os_def)
  have 4: "restart_service release_os v = (Inr (), v\<lparr>hist := hist v @
       [Exec ''systemctl'' [''restart'', ''sshknockd''] (Inr ok_output)]\<rparr>)" for v :: "'a world_scheme"
    by (simp add: restart_service_def exec_def call_def bind_io_def or_fail_def io_defs release_os_def quiet_os_def
        ok_output_def)
  obtain e where 5: "fetch_latest_release release_os release_deps w =
     (Inr (the (parse_release release_deps [])), w\<lparr>hist := hist w @ [e]\<rparr>)"
    using release_fetch by blast
  show ?thesis
    unfolding update_from_latest_release_def
    by (simp add: bind_io_def 5 release_detect 1 2 3 4 release_staging_dir release_stage attempt_def
        Let_def of_result_def cargo_pkg_version_def println_def call_def ret_def)
      (intro exI [of _ "[e, ReadFile ''/etc/os-release'' (Inr ''ID=debian''), ProcessId 42,
        RemoveDir ''/tmp/sshknockd-staging-42'' None]"], simp)
qed

lemma release_splits:
  "\<exists>h1 e h2. hist (snd (update_from_latest_release release_os release_deps \<lparr>hist = []\<rparr>)) = h1 @ e # h2
     \<and> installs e"
  "\<exists>h1 h2. hist (snd (update_from_latest_release release_os release_deps \<lparr>hist = []\<rparr>))
     = h1 @ MakeDir ''/tmp/sshknockd-staging-42'' 448 None # h2"
  "\<exists>h1 a r h2. hist (snd (update_from_latest_release release_os release_deps \<lparr>hist = []\<rparr>))
     = h1 @ Exec ''systemctl'' a r # h2"
proof -
  have *: "\<exists>h1 h2. u @ es = h1 @ e # h2" if "e \<in> set es" for u es and e :: event
    using that by (metis append_assoc split_list)
  obtain h es where run: "hist (snd (update_from_latest_release release_os release_deps \<lparr>hist = []\<rparr>)) = h @ es"
    and es: "MakeDir ''/tmp/sshknockd-staging-42'' 448 None \<in> set es"
      "Exec ''dpkg'' [''-i'', ''/tmp/sshknockd-staging-42/sshknockd-update.deb''] (Inr ok_output) \<in> set es"
      "Exec ''systemctl'' [''restart'', ''sshknockd''] (Inr ok_output) \<in> set es"
    using release_run [of "\<lparr>hist = []\<rparr>"] by fastforce
  show "\<exists>h1 e h2. hist (snd (update_from_latest_release release_os release_deps \<lparr>hist = []\<rparr>)) = h1 @ e # h2
     \<and> installs e"
  proof -
    obtain h1 h2 where "h @ es = h1 @ Exec ''dpkg'' [''-i'', ''/tmp/sshknockd-staging-42/sshknockd-update.deb'']
        (Inr ok_output) # h2"
      using * [OF es(2), of h] by blast
    moreover have "installs (Exec ''dpkg'' a r)" for a r by (simp add: installs_def)
    ultimately show ?thesis unfolding run by blast
  qed
  show "\<exists>h1 h2. hist (snd (update_from_latest_release release_os release_deps \<lparr>hist = []\<rparr>))
     = h1 @ MakeDir ''/tmp/sshknockd-staging-42'' 448 None # h2"
    using * [OF es(1), of h] unfolding run by blast
  show "\<exists>h1 a r h2. hist (snd (update_from_latest_release release_os release_deps \<lparr>hist = []\<rparr>))
     = h1 @ Exec ''systemctl'' a r # h2"
    using * [OF es(3), of h] unfolding run by blast
qed

section \<open>The steps of a successful update\<close>

lemma download_ok:
  assumes "download_package os url path w = (Inr (), w')"
  shows "\<exists>out. hist w' = hist w @ [Exec ''curl'' (curl_common_args @ [''--output'', path, url]) (Inr out)]
    \<and> out_success out \<and> starts_with url ''https://''"
  using assms unfolding download_package_def
  by (auto elim!: bind_io_cases simp: exec_def call_def or_fail_def io_defs ensure_https_url_def
      split: sum.splits if_splits)

lemma install_ok_exact:
  assumes "install_package os path extension w = (Inr (), w')"
  shows "\<exists>prog flag out. hist w' = hist w @ [Exec prog [flag, path] (Inr out)] \<and> out_success out
    \<and> (extension, prog, flag) \<in> {(''deb'', ''dpkg'', ''-i''), (''rpm'', ''rpm'', ''-Uvh'')}"
  using assms unfolding install_package_def
  by (auto elim!: bind_io_cases simp: exec_def call_def or_fail_def io_defs split: sum.splits if_splits)

definition staged :: "deps \<Rightarrow> release_asset \<Rightarrow> release_asset \<Rightarrow> release_asset \<Rightarrow> string \<Rightarrow> string \<Rightarrow> transcript \<Rightarrow> bool" where
  "staged deps asset m s extension dir es = (\<exists>o1 o2 o3 o4 manifest signature package d prog flag.
    es =
      [Exec ''curl'' (curl_common_args @ [''--output'', dir @ ''/sshknockd-update.'' @ extension,
         browser_download_url asset]) (Inr o1),
       Exec ''curl'' (curl_common_args @ [''--output'', dir @ ''/SHA256SUMS'', browser_download_url m]) (Inr o2),
       Exec ''curl'' (curl_common_args @ [''--output'', dir @ ''/SHA256SUMS.sig'', browser_download_url s]) (Inr o3),
       ReadFile (dir @ ''/SHA256SUMS'') (Inr manifest),
       ReadFile (dir @ ''/SHA256SUMS.sig'') (Inr signature),
       ReadFile (dir @ ''/sshknockd-update.'' @ extension) (Inr package),
       Exec prog [flag, dir @ ''/sshknockd-update.'' @ extension] (Inr o4)]
    \<and> out_success o1 \<and> out_success o2 \<and> out_success o3 \<and> out_success o4
    \<and> starts_with (browser_download_url asset) ''https://''
    \<and> starts_with (browser_download_url m) ''https://'' \<and> starts_with (browser_download_url s) ''https://''
    \<and> verify_strict deps release_signing_public_key manifest signature
    \<and> expected_digest_from_manifest manifest (asset_name asset) = Inr d
    \<and> eq_ignore_ascii_case (sha256_hex deps package) d
    \<and> (extension, prog, flag) \<in> {(''deb'', ''dpkg'', ''-i''), (''rpm'', ''rpm'', ''-Uvh'')})"

lemma stage_ok:
  assumes "stage_verify_and_install os deps asset m s extension dir w = (Inr (), w')"
  shows "\<exists>es. hist w' = hist w @ es \<and> staged deps asset m s extension dir es"
proof -
  from assms obtain w1 w2 w3 w4 where
    steps: "download_package os (browser_download_url asset) (dir @ ''/sshknockd-update.'' @ extension) w = (Inr (), w1)"
    "download_package os (browser_download_url m) (dir @ ''/SHA256SUMS'') w1 = (Inr (), w2)"
    "download_package os (browser_download_url s) (dir @ ''/SHA256SUMS.sig'') w2 = (Inr (), w3)"
    "verify_package_against_signed_manifest os deps asset (dir @ ''/sshknockd-update.'' @ extension)
       (dir @ ''/SHA256SUMS'') (dir @ ''/SHA256SUMS.sig'') w3 = (Inr (), w4)"
    "install_package os (dir @ ''/sshknockd-update.'' @ extension) extension w4 = (Inr (), w')"
    unfolding stage_verify_and_install_def Let_def by (elim bind_io_Inr) auto
  let ?curl = "\<lambda>path url out. Exec ''curl'' (curl_common_args @ [''--output'', path, url]) (Inr out)"
  obtain o1 where 1: "hist w1 = hist w @ [?curl (dir @ ''/sshknockd-update.'' @ extension) (browser_download_url asset) o1]"
    and "out_success o1" "starts_with (browser_download_url asset) ''https://''"
    using download_ok [OF steps(1)] by blast
  moreover obtain o2 where 2: "hist w2 = hist w1 @ [?curl (dir @ ''/SHA256SUMS'') (browser_download_url m) o2]"
    and "out_success o2" "starts_with (browser_download_url m) ''https://''"
    using download_ok [OF steps(2)] by blast
  moreover obtain o3 where 3: "hist w3 = hist w2 @ [?curl (dir @ ''/SHA256SUMS.sig'') (browser_download_url s) o3]"
    and "out_success o3" "starts_with (browser_download_url s) ''https://''"
    using download_ok [OF steps(3)] by blast
  moreover obtain manifest signature package d where 4: "hist w4 = hist w3 @ [ReadFile (dir @ ''/SHA256SUMS'') (Inr manifest),
       ReadFile (dir @ ''/SHA256SUMS.sig'') (Inr signature),
       ReadFile (dir @ ''/sshknockd-update.'' @ extension) (Inr package)]"
    and "verify_strict deps release_signing_public_key manifest signature"
      "expected_digest_from_manifest manifest (asset_name asset) = Inr d"
      "eq_ignore_ascii_case (sha256_hex deps package) d"
    using verify_ok [OF steps(4)] by blast
  moreover obtain prog flag o4 where 5: "hist w' = hist w4 @ [Exec prog [flag, dir @ ''/sshknockd-update.'' @ extension] (Inr o4)]"
    and "out_success o4" "(extension, prog, flag) \<in> {(''deb'', ''dpkg'', ''-i''), (''rpm'', ''rpm'', ''-Uvh'')}"
    using install_ok_exact [OF steps(5)] by blast
  moreover have "hist w' = hist w @
      [?curl (dir @ ''/sshknockd-update.'' @ extension) (browser_download_url asset) o1,
       ?curl (dir @ ''/SHA256SUMS'') (browser_download_url m) o2,
       ?curl (dir @ ''/SHA256SUMS.sig'') (browser_download_url s) o3,
       ReadFile (dir @ ''/SHA256SUMS'') (Inr manifest),
       ReadFile (dir @ ''/SHA256SUMS.sig'') (Inr signature),
       ReadFile (dir @ ''/sshknockd-update.'' @ extension) (Inr package),
       Exec prog [flag, dir @ ''/sshknockd-update.'' @ extension] (Inr o4)]"
    unfolding 5 4 3 2 1 by simp
  ultimately show ?thesis unfolding staged_def by blast
qed

text \<open>A package for a machine, and the first such package of a release.\<close>

definition package_for :: "string \<Rightarrow> string list \<Rightarrow> release_asset \<Rightarrow> bool" where
  "package_for extension names a = (ends_with (asset_name a) (''.'' @ extension)
     \<and> (\<exists>n\<in>set names. contains_str (asset_name a) n))"

definition selected :: "github_release \<Rightarrow> string \<Rightarrow> string \<Rightarrow> release_asset \<Rightarrow> bool" where
  "selected release extension arch a = (\<exists>names i.
     (extension, arch, names) \<in> {(''deb'', ''amd64'', [''amd64'']), (''deb'', ''arm64'', [''arm64'']),
        (''rpm'', ''amd64'', [''x86_64'']), (''rpm'', ''arm64'', [''aarch64'', ''arm64''])}
     \<and> i < length (assets release) \<and> a = assets release ! i \<and> package_for extension names a
     \<and> (\<forall>j<i. \<not> package_for extension names (assets release ! j)))"

lemma select_release_asset_ok:
  "select_release_asset release extension arch = Inr a \<Longrightarrow> selected release extension arch a"
  by (auto simp: select_release_asset_def and_then_Inr_iff context_opt_Inr_iff selected_def package_for_def list_ex_iff
      find_Some_iff package_arch_names_def split: if_splits)

text \<open>The architecture and the distribution of a machine.\<close>

definition machine_arch :: "deps \<Rightarrow> string \<Rightarrow> bool" where
  "machine_arch deps arch = ((consts_arch deps, arch) \<in> {(''x86_64'', ''amd64''), (''aarch64'', ''arm64'')})"

lemma detect_architecture_ok: "detect_architecture deps = Inr arch \<Longrightarrow> machine_arch deps arch"
  by (auto simp: detect_architecture_def machine_arch_def split: if_splits)

definition red_hat :: "string \<Rightarrow> bool" where
  "red_hat content = (\<exists>mark\<in>{''ID_LIKE=rhel'', ''ID_LIKE='' @ quote @ ''rhel'', ''ID=centos'', ''ID=fedora'',
     ''ID=rhel'', ''ID=rocky'', ''ID=almalinux''}. contains_str content mark)"

definition debian :: "string \<Rightarrow> bool" where
  "debian content = (\<exists>mark\<in>{''ID_LIKE=debian'', ''ID_LIKE='' @ quote @ ''debian'', ''ID=debian'', ''ID=ubuntu''}.
     contains_str content mark)"

text \<open>The kind of package that a machine with this \<open>/etc/os-release\<close> takes.\<close>

definition package_kind :: "string \<Rightarrow> string \<Rightarrow> bool" where
  "package_kind content extension =
     (red_hat content \<and> extension = ''rpm'' \<or> \<not> red_hat content \<and> debian content \<and> extension = ''deb'')"

lemma select_named_ok:
  "select_named_release_asset release name = Inr a \<Longrightarrow> a \<in> set (assets release) \<and> asset_name a = name"
  by (auto simp: select_named_release_asset_def context_opt_Inr_iff find_Some_iff)

definition latest_release_call :: "cmd_output \<Rightarrow> event" where
  "latest_release_call out = Exec ''curl'' (curl_common_args
     @ [''--header'', ''Accept: application/vnd.github+json'', ''--header'', ''X-GitHub-Api-Version: 2026-03-10'',
        ''--user-agent'', ''sshknockd-updater'',
        ''https://api.github.com/repos/KilimcininKoroglu/sshknockd/releases/latest'']) (Inr out)"

lemma fetch_ok:
  assumes "fetch_latest_release os deps w = (Inr release, w')"
  shows "\<exists>out. hist w' = hist w @ [latest_release_call out] \<and> out_success out
    \<and> parse_release deps (out_stdout out) = Some release"
  using assms unfolding fetch_latest_release_def
  by (auto elim!: bind_io_cases simp: exec_def call_def or_fail_def io_defs of_result_def latest_release_call_def
      release_url_def github_owner_def github_repo_def
      split: sum.splits if_splits)

lemma extension_ok:
  assumes "detect_package_extension os w = (Inr extension, w')"
  shows "\<exists>content. hist w' = hist w @ [ReadFile ''/etc/os-release'' (Inr content)] \<and> package_kind content extension"
proof -
  from assms obtain content where c: "os_read os (hist w) ''/etc/os-release'' = Inr content"
    unfolding detect_package_extension_def
    by (auto elim!: bind_io_cases simp: read_file_def call_def or_fail_def io_defs split: sum.splits)
  then show ?thesis
    using assms unfolding detect_package_extension_def
    by (intro exI [of _ content] conjI)
      (auto simp: read_file_def call_def or_fail_def bind_io_def io_defs package_kind_def red_hat_def debian_def
        split: if_splits)
qed

lemma staging_dir_ok:
  assumes "create_private_staging_dir os w = (Inr dir, w')"
  shows "\<exists>pid gone. dir = ''/tmp/sshknockd-staging-'' @ dec pid
    \<and> hist w' = hist w @ [ProcessId pid, RemoveDir dir gone, MakeDir dir 448 None]"
  using assms unfolding create_private_staging_dir_def Let_def
  by (auto elim!: bind_io_cases simp: process_id_def remove_dir_all_def call_def none_or_fail_def io_defs
      split: option.splits)

lemma restart_ok:
  assumes "restart_service os w = (Inr u, w')"
  shows "\<exists>out. hist w' = hist w @ [Exec ''systemctl'' [''restart'', ''sshknockd''] (Inr out)] \<and> out_success out"
  using assms unfolding restart_service_def
  by (auto elim!: bind_io_cases simp: exec_def call_def or_fail_def io_defs split: sum.splits if_splits)

lemma finish_ok:
  assumes "bind_io (attempt (stage_verify_and_install os deps asset m s extension dir)) (\<lambda>result.
       bind_io (remove_dir_all os dir) (\<lambda>_.
       bind_io (case result of Inl e \<Rightarrow> throw (Err e) | Inr _ \<Rightarrow> ret ()) (\<lambda>_.
       bind_io (restart_service os) (\<lambda>_. println l)))) w = (Inr u, w')"
  shows "\<exists>es gone out. staged deps asset m s extension dir es \<and> out_success out
    \<and> hist w' = hist w @ es @ [RemoveDir dir gone, Exec ''systemctl'' [''restart'', ''sshknockd''] (Inr out), Print l]"
proof -
  from assms obtain result w1 g w2 v w3 v' w4 where
    1: "attempt (stage_verify_and_install os deps asset m s extension dir) w = (Inr result, w1)"
    and 2: "remove_dir_all os dir w1 = (Inr g, w2)"
    and 3: "(case result of Inl e \<Rightarrow> throw (Err e) | Inr _ \<Rightarrow> ret ()) w2 = (Inr v, w3)"
    and 4: "restart_service os w3 = (Inr v', w4)" and 5: "println l w4 = (Inr u, w')"
    by (elim bind_io_Inr)
  from 3 obtain x where x: "result = Inr x" "w3 = w2"
    by (cases result) (auto simp: throw_def ret_def)
  with 1 have "stage_verify_and_install os deps asset m s extension dir w = (Inr (), w1)"
    by (auto simp: attempt_def split: prod.splits sum.splits failure.splits)
  from stage_ok [OF this] obtain es where es: "hist w1 = hist w @ es" "staged deps asset m s extension dir es" by blast
  have "hist w2 = hist w1 @ [RemoveDir dir (os_rmdir os (hist w1) dir)]"
    using 2 by (auto simp: remove_dir_all_def call_def)
  moreover obtain out where "hist w4 = hist w3 @ [Exec ''systemctl'' [''restart'', ''sshknockd''] (Inr out)]" "out_success out"
    using restart_ok [OF 4] by blast
  moreover have "hist w' = hist w4 @ [Print l]" using 5 by (auto simp: println_def call_def)
  ultimately show ?thesis using es x(2) by auto
qed

text \<open>The transcript of an update that installed a release.\<close>

definition updated :: "deps \<Rightarrow> cmd_output \<Rightarrow> github_release \<Rightarrow> transcript \<Rightarrow> bool" where
  "updated deps out release h = (\<exists>content extension arch asset m s pid dir gone es gone' out'.
     h = latest_release_call out # ReadFile ''/etc/os-release'' (Inr content) # ProcessId pid # RemoveDir dir gone
         # MakeDir dir 448 None # es @ [RemoveDir dir gone', Exec ''systemctl'' [''restart'', ''sshknockd''] (Inr out'),
           Print (''sshknockd updated from '' @ cargo_pkg_version @ '' to '' @ trim_start_v (tag_name release))]
     \<and> dir = ''/tmp/sshknockd-staging-'' @ dec pid \<and> package_kind content extension \<and> machine_arch deps arch
     \<and> selected release extension arch asset \<and> m \<in> set (assets release) \<and> asset_name m = ''SHA256SUMS''
     \<and> s \<in> set (assets release) \<and> asset_name s = ''SHA256SUMS.sig''
     \<and> staged deps asset m s extension dir es \<and> out_success out')"

lemma new_release_ok:
  assumes "bind_io (detect_package_extension os) (\<lambda>extension.
       bind_io (of_result (detect_architecture deps)) (\<lambda>arch.
       bind_io (of_result (select_release_asset release extension arch)) (\<lambda>asset.
       bind_io (of_result (select_named_release_asset release checksum_manifest)) (\<lambda>m.
       bind_io (of_result (select_named_release_asset release checksum_signature)) (\<lambda>s.
       bind_io (create_private_staging_dir os) (\<lambda>dir.
       bind_io (attempt (stage_verify_and_install os deps asset m s extension dir)) (\<lambda>result.
       bind_io (remove_dir_all os dir) (\<lambda>_.
       bind_io (case result of Inl e \<Rightarrow> throw (Err e) | Inr _ \<Rightarrow> ret ()) (\<lambda>_.
       bind_io (restart_service os) (\<lambda>_.
       println (''sshknockd updated from '' @ cargo_pkg_version @ '' to '' @ trim_start_v (tag_name release)))))))))))) w = (Inr (), w')"
  shows "\<exists>h. hist w' = hist w @ h \<and> updated deps out release (latest_release_call out # h)"
proof -
  let ?done = "''sshknockd updated from '' @ cargo_pkg_version @ '' to '' @ trim_start_v (tag_name release)"
  from assms obtain extension w2 arch w3 asset w4 m w5 s w6 dir w7 where
    ext: "detect_package_extension os w = (Inr extension, w2)"
    and pure: "of_result (detect_architecture deps) w2 = (Inr arch, w3)"
      "of_result (select_release_asset release extension arch) w3 = (Inr asset, w4)"
      "of_result (select_named_release_asset release checksum_manifest) w4 = (Inr m, w5)"
      "of_result (select_named_release_asset release checksum_signature) w5 = (Inr s, w6)"
    and dir: "create_private_staging_dir os w6 = (Inr dir, w7)"
    and finish: "bind_io (attempt (stage_verify_and_install os deps asset m s extension dir)) (\<lambda>result.
       bind_io (remove_dir_all os dir) (\<lambda>_.
       bind_io (case result of Inl e \<Rightarrow> throw (Err e) | Inr _ \<Rightarrow> ret ()) (\<lambda>_.
       bind_io (restart_service os) (\<lambda>_. println ?done)))) w7 = (Inr (), w')"
    by (elim bind_io_Inr [of "detect_package_extension os"] bind_io_Inr [of "of_result x" for x]
        bind_io_Inr [of "create_private_staging_dir os"])
  have same: "w6 = w2" and chosen: "detect_architecture deps = Inr arch" "select_release_asset release extension arch = Inr asset"
    "select_named_release_asset release checksum_manifest = Inr m"
    "select_named_release_asset release checksum_signature = Inr s"
    using pure by (auto simp: of_result_def)
  note named = select_named_ok [OF chosen(3)] select_named_ok [OF chosen(4)]
  obtain content where "hist w2 = hist w @ [ReadFile ''/etc/os-release'' (Inr content)]"
    and kind: "package_kind content extension"
    using extension_ok [OF ext] by blast
  moreover obtain pid gone where d: "dir = ''/tmp/sshknockd-staging-'' @ dec pid"
    "hist w7 = hist w2 @ [ProcessId pid, RemoveDir dir gone, MakeDir dir 448 None]"
    using staging_dir_ok [OF dir] same by blast
  moreover obtain es gone' out' where st: "staged deps asset m s extension dir es" "out_success out'"
    and "hist w' = hist w7 @ es @ [RemoveDir dir gone', Exec ''systemctl'' [''restart'', ''sshknockd''] (Inr out'), Print ?done]"
    using finish_ok [OF finish] by blast
  ultimately have "hist w' = hist w @ ReadFile ''/etc/os-release'' (Inr content) # ProcessId pid # RemoveDir dir gone
      # MakeDir dir 448 None # es
      @ [RemoveDir dir gone', Exec ''systemctl'' [''restart'', ''sshknockd''] (Inr out'), Print ?done]" by simp
  moreover have "updated deps out release (latest_release_call out # ReadFile ''/etc/os-release'' (Inr content)
      # ProcessId pid # RemoveDir dir gone # MakeDir dir 448 None # es
      @ [RemoveDir dir gone', Exec ''systemctl'' [''restart'', ''sshknockd''] (Inr out'), Print ?done])"
    using kind detect_architecture_ok [OF chosen(1)] select_release_asset_ok [OF chosen(2)] named d(1) st
    unfolding updated_def checksum_manifest_def checksum_signature_def by blast
  ultimately show ?thesis by blast
qed

lemma update_ok:
  assumes "update_from_latest_release os deps w = (Inr (), w')"
  shows "\<exists>out release h. out_success out \<and> parse_release deps (out_stdout out) = Some release \<and> hist w' = hist w @ h
    \<and> (if trim_start_v (tag_name release) = cargo_pkg_version
       then h = [latest_release_call out, Print (''sshknockd is already up to date at version '' @ cargo_pkg_version)]
       else updated deps out release h)"
proof -
  from assms obtain release w1 where fetch: "fetch_latest_release os deps w = (Inr release, w1)"
    and rest: "(let v = trim_start_v (tag_name release) in
      if v = cargo_pkg_version then println (''sshknockd is already up to date at version '' @ v)
      else bind_io (detect_package_extension os) (\<lambda>extension.
       bind_io (of_result (detect_architecture deps)) (\<lambda>arch.
       bind_io (of_result (select_release_asset release extension arch)) (\<lambda>asset.
       bind_io (of_result (select_named_release_asset release checksum_manifest)) (\<lambda>m.
       bind_io (of_result (select_named_release_asset release checksum_signature)) (\<lambda>s.
       bind_io (create_private_staging_dir os) (\<lambda>dir.
       bind_io (attempt (stage_verify_and_install os deps asset m s extension dir)) (\<lambda>result.
       bind_io (remove_dir_all os dir) (\<lambda>_.
       bind_io (case result of Inl e \<Rightarrow> throw (Err e) | Inr _ \<Rightarrow> ret ()) (\<lambda>_.
       bind_io (restart_service os) (\<lambda>_.
       println (''sshknockd updated from '' @ cargo_pkg_version @ '' to '' @ v)))))))))))) w1 = (Inr (), w')"
    unfolding update_from_latest_release_def by (elim bind_io_Inr)
  obtain out where out: "hist w1 = hist w @ [latest_release_call out]" "out_success out"
    "parse_release deps (out_stdout out) = Some release"
    using fetch_ok [OF fetch] by blast
  show ?thesis
  proof (cases "trim_start_v (tag_name release) = cargo_pkg_version")
    case True
    with rest out(1) have "hist w' = hist w @ [latest_release_call out,
        Print (''sshknockd is already up to date at version '' @ cargo_pkg_version)]"
      by (auto simp: println_def call_def)
    with True out(2,3) show ?thesis by auto
  next
    case False
    from rest [unfolded Let_def if_not_P [OF False]] obtain h where
      "hist w' = hist w1 @ h" "updated deps out release (latest_release_call out # h)"
      using new_release_ok by blast
    with False out show ?thesis by auto
  qed
qed

section \<open>Installing only what is signed\<close>

text \<open>
  What the transcript says about a release and a file, and what has to hold when the installer
  runs on a file.
\<close>

definition fetched :: "deps \<Rightarrow> github_release \<Rightarrow> transcript \<Rightarrow> bool" where
  "fetched deps release h = (\<exists>out. latest_release_call out \<in> set h \<and> out_success out
     \<and> parse_release deps (out_stdout out) = Some release)"

definition downloaded :: "release_asset \<Rightarrow> string \<Rightarrow> transcript \<Rightarrow> bool" where
  "downloaded asset path h = (\<exists>out. out_success out
     \<and> Exec ''curl'' (curl_common_args @ [''--output'', path, browser_download_url asset]) (Inr out) \<in> set h)"

definition chosen :: "deps \<Rightarrow> github_release \<Rightarrow> release_asset \<Rightarrow> bool" where
  "chosen deps release asset = (\<exists>extension arch. machine_arch deps arch \<and> selected release extension arch asset)"

definition vouched :: "deps \<Rightarrow> transcript \<Rightarrow> event \<Rightarrow> bool" where
  "vouched deps h e = (\<exists>h1 mpath spath ppath m s p d prog flag r release asset.
     h = h1 @ [ReadFile mpath (Inr m), ReadFile spath (Inr s), ReadFile ppath (Inr p)]
     \<and> e = Exec prog [flag, ppath] r
     \<and> fetched deps release h1 \<and> chosen deps release asset \<and> downloaded asset ppath h1
     \<and> verify_strict deps release_signing_public_key m s
     \<and> digests_for (asset_name asset) (str_lines m) = [d] \<and> hex64 d
     \<and> eq_ignore_ascii_case (sha256_hex deps p) d)"

definition install_guarded :: "deps \<Rightarrow> (transcript \<Rightarrow> bool) \<Rightarrow> 'z world_scheme \<Rightarrow> bool" where
  "install_guarded deps Q w = (guards installs (vouched deps) (hist w) \<and> Q (hist w))"

definition lasting :: "(transcript \<Rightarrow> bool) \<Rightarrow> bool" where
  "lasting Q = (\<forall>h es. Q h \<longrightarrow> Q (h @ es))"

lemma lasting_facts: "lasting (\<lambda>_. True)" "lasting (fetched deps release)"
  "lasting (\<lambda>h. fetched deps release h \<and> downloaded asset path h)"
  by (auto simp: lasting_def fetched_def downloaded_def)

abbreviation guarded ::
  "deps \<Rightarrow> (transcript \<Rightarrow> bool) \<Rightarrow> ('z world_scheme, 'a) io \<Rightarrow> ('a \<Rightarrow> transcript \<Rightarrow> bool) \<Rightarrow> bool" where
  "guarded deps Q f R \<equiv> triple (install_guarded deps Q) f (\<lambda>x. install_guarded deps (R x)) (install_guarded deps (\<lambda>_. True))"

lemma guarded_gain:
  assumes "emits (\<lambda>e. \<not> installs e) f" and "\<And>w x w'. Q (hist w) \<Longrightarrow> f w = (Inr x, w') \<Longrightarrow> R x (hist w')"
  shows "guarded deps Q f R"
proof (rule tripleI)
  fix w x w'
  assume w: "install_guarded deps Q w" and f: "f w = (Inr x, w')"
  with upholdsD [OF upholds_guards [OF assms(1)] f, of "vouched deps"] assms(2) [OF _ f]
  show "install_guarded deps (R x) w'" by (simp add: install_guarded_def)
next
  fix w e w'
  assume w: "install_guarded deps Q w" and f: "f w = (Inl e, w')"
  with upholdsD [OF upholds_guards [OF assms(1)] f, of "vouched deps"]
  show "install_guarded deps (\<lambda>_. True) w'" by (simp add: install_guarded_def)
qed

lemma guarded_quiet:
  assumes "emits (\<lambda>e. \<not> installs e) f" and "lasting Q"
  shows "guarded deps Q f (\<lambda>_. Q)"
proof (rule guarded_gain [OF assms(1)])
  fix w x w'
  assume "Q (hist w)" "f w = (Inr x, w')"
  then show "Q (hist w')" using emitsD [OF assms(1)] assms(2) unfolding lasting_def by fastforce
qed

lemma guarded_of_result:
  assumes "\<And>x. r = Inr x \<Longrightarrow> guarded deps Q (f x) R"
  shows "guarded deps Q (bind_io (of_result r) f) R"
  using assms by (cases r) (auto simp: triple_def bind_io_def of_result_def install_guarded_def)

lemma guarded_forget: "guarded deps (\<lambda>_. True) f R \<Longrightarrow> guarded deps Q f R"
  by (erule triple_weaken) (simp_all add: install_guarded_def)

lemma guarded_attempt: "guarded deps Q f (\<lambda>_ _. True) \<Longrightarrow> guarded deps Q (attempt f) (\<lambda>_ _. True)"
  by (erule triple_weaken [OF triple_attempt]) (simp_all split: sum.splits)

lemma guarded_verify_install:
  assumes facts: "\<And>h. Q h \<Longrightarrow> fetched deps release h \<and> downloaded asset pp h" and c: "chosen deps release asset"
  shows "guarded deps Q (bind_io (verify_package_against_signed_manifest os deps asset pp mp sp)
      (\<lambda>_. install_package os pp ext)) (\<lambda>_ _. True)"
proof (rule triple_bind [where Q = "\<lambda>_ w. guards installs (vouched deps) (hist w)
    \<and> (\<forall>prog flag r. vouched deps (hist w) (Exec prog [flag, pp] r))"])
  have quiet: "emits (\<lambda>e. \<not> installs e) (verify_package_against_signed_manifest os deps asset pp mp sp)"
    by (intro emits_verify) (simp add: installs_def)
  show "triple (install_guarded deps Q) (verify_package_against_signed_manifest os deps asset pp mp sp)
      (\<lambda>_ w. guards installs (vouched deps) (hist w) \<and> (\<forall>prog flag r. vouched deps (hist w) (Exec prog [flag, pp] r)))
      (install_guarded deps (\<lambda>_. True))"
  proof (rule tripleI)
    fix w u w'
    assume w: "install_guarded deps Q w" and v: "verify_package_against_signed_manifest os deps asset pp mp sp w = (Inr u, w')"
    from verify_ok [of os deps asset pp mp sp w w'] v obtain m s p d where
      m: "hist w' = hist w @ [ReadFile mp (Inr m), ReadFile sp (Inr s), ReadFile pp (Inr p)]"
      "verify_strict deps release_signing_public_key m s"
      "expected_digest_from_manifest m (asset_name asset) = Inr d" "eq_ignore_ascii_case (sha256_hex deps p) d"
      by auto
    from w facts have "fetched deps release (hist w)" "downloaded asset pp (hist w)" by (simp_all add: install_guarded_def)
    with m c have "vouched deps (hist w') (Exec prog [flag, pp] r)" for prog flag r
      unfolding vouched_def expected_digest_iff_aux by blast
    moreover have "guards installs (vouched deps) (hist w')"
      using upholdsD [OF upholds_guards [OF quiet] v] w by (simp add: install_guarded_def)
    ultimately show "guards installs (vouched deps) (hist w')
        \<and> (\<forall>prog flag r. vouched deps (hist w') (Exec prog [flag, pp] r))" by blast
  next
    fix w e w'
    assume "install_guarded deps Q w" "verify_package_against_signed_manifest os deps asset pp mp sp w = (Inl e, w')"
    then show "install_guarded deps (\<lambda>_. True) w'"
      using upholdsD [OF upholds_guards [OF quiet]] by (fastforce simp: install_guarded_def)
  qed
  show "triple (\<lambda>w. guards installs (vouched deps) (hist w) \<and> (\<forall>prog flag r. vouched deps (hist w) (Exec prog [flag, pp] r)))
      (install_package os pp ext) (\<lambda>_. install_guarded deps (\<lambda>_. True)) (install_guarded deps (\<lambda>_. True))"
  proof (rule triple_inv)
    fix w
    assume "guards installs (vouched deps) (hist w) \<and> (\<forall>prog flag r. vouched deps (hist w) (Exec prog [flag, pp] r))"
    then show "install_guarded deps (\<lambda>_. True) (snd (install_package os pp ext w))"
      using install_emits_one [of os pp ext w] by (auto simp: install_guarded_def guards_snoc)
  qed
qed

lemma guarded_stage:
  assumes "chosen deps release asset"
  shows "guarded deps (fetched deps release) (stage_verify_and_install os deps asset m s ext dir) (\<lambda>_ _. True)"
proof -
  let ?path = "dir @ ''/sshknockd-update.'' @ ext"
  let ?Q = "\<lambda>h. fetched deps release h \<and> downloaded asset ?path h"
  have quiet: "emits (\<lambda>e. \<not> installs e) (download_package os url path)" for url path
    by (intro emits_download) (simp add: installs_def)
  have first: "guarded deps (fetched deps release) (download_package os (browser_download_url asset) ?path) (\<lambda>_. ?Q)"
  proof (rule guarded_gain [OF quiet])
    fix w u w'
    assume "fetched deps release (hist w)" and "download_package os (browser_download_url asset) ?path w = (Inr u, w')"
    with download_ok [of os "browser_download_url asset" ?path w w']
    show "?Q (hist w')" by (auto simp: fetched_def downloaded_def)
  qed
  show ?thesis
    unfolding stage_verify_and_install_def Let_def
    by (rule triple_bind [OF first], rule triple_bind [OF guarded_quiet [OF quiet lasting_facts(3)]],
        rule triple_bind [OF guarded_quiet [OF quiet lasting_facts(3)]], rule guarded_verify_install [OF _ assms])
qed

lemma guarded_fetch:
  "guarded deps (\<lambda>_. True) (fetch_latest_release os deps :: ('z world_scheme, github_release) io) (fetched deps)"
proof (rule guarded_gain)
  fix w w' :: "'z world_scheme" and release
  assume "fetch_latest_release os deps w = (Inr release, w')"
  from fetch_ok [OF this] show "fetched deps release (hist w')" by (auto simp: fetched_def)
qed (rule emits_fetch, simp add: installs_def)

lemma guarded_update: "guarded deps (\<lambda>_. True) (update_from_latest_release os deps) (\<lambda>_ _. True)"
proof -
  have calls: "emits (\<lambda>e. \<not> installs e) (detect_package_extension os)"
    "emits (\<lambda>e. \<not> installs e) (create_private_staging_dir os)"
    "emits (\<lambda>e. \<not> installs e) (remove_dir_all os d)" "emits (\<lambda>e. \<not> installs e) (restart_service os)"
    "emits (\<lambda>e. \<not> installs e) (println l)"
    "emits (\<lambda>e. \<not> installs e) (case r of Inl e \<Rightarrow> throw (Err e) | Inr x \<Rightarrow> ret y)" for d l r y
    by (intro emits_extension emits_staging_dir emits_rmdir emits_restart emits_println emits_case_result;
        simp add: installs_def)+
  have c: "chosen deps release asset" if "detect_architecture deps = Inr arch"
    "select_release_asset release extension arch = Inr asset" for release extension arch asset
    using detect_architecture_ok [OF that(1)] select_release_asset_ok [OF that(2)] by (auto simp: chosen_def)
  note late = calls [THEN guarded_quiet, OF lasting_facts(1)] and early = calls [THEN guarded_quiet, OF lasting_facts(2)]
  show ?thesis
    unfolding update_from_latest_release_def Let_def
    by (intro triple_bind [OF guarded_fetch] triple_if guarded_forget [OF late(5)] triple_bind [OF early(1)] guarded_of_result
        triple_bind [OF early(2)] triple_bind [OF guarded_attempt [OF guarded_stage]] triple_bind [OF late(3)]
        triple_bind [OF late(6)] triple_bind [OF late(4)] late(5)) (rule c)
qed

definition update_event :: "event \<Rightarrow> bool" where
  "update_event e = (case e of
       Exec p a r \<Rightarrow>
         p = ''curl'' \<and> take 12 a = [''--fail'', ''--location'', ''--show-error'', ''--silent'',
           ''--proto'', ''=https'', ''--proto-redir'', ''=https'', ''--connect-timeout'', ''10'', ''--max-time'', ''300'']
           \<and> starts_with (last a) ''https://''
         \<or> p = ''dpkg'' \<and> (\<exists>path. a = [''-i'', path]) \<or> p = ''rpm'' \<and> (\<exists>path. a = [''-Uvh'', path])
         \<or> p = ''systemctl'' \<and> a = [''restart'', ''sshknockd'']
     | MakeDir d n r \<Rightarrow> n = 448
     | ReadFile p r \<Rightarrow> True | RemoveDir d r \<Rightarrow> True | ProcessId n \<Rightarrow> True | Print l \<Rightarrow> True
     | _ \<Rightarrow> False)"


section \<open>Properties\<close>

text \<open>
  C9: whatever the network, the downloaded files and the commands answer, whenever the update runs an
  installer on a file: this file was downloaded, with success, from the address of the package that
  was selected for this machine from the release that was fetched, and the three reads just before
  the installer returned a manifest that the release key signs, the signature, and the very bytes of
  that file. The manifest has exactly one entry under the name of the selected package, and the
  digest there is the SHA-256 of these bytes.
\<close>

theorem nothing_unsigned_installed:
  assumes "hist w = []"
    and "hist (snd (update_from_latest_release os deps w)) = h1 @ e # h2" and "installs e"
  shows "vouched deps h1 e"
proof -
  have "install_guarded deps (\<lambda>_. True) w" using assms(1) by (simp add: install_guarded_def)
  with guarded_update [of deps os] have "install_guarded deps (\<lambda>_. True) (snd (update_from_latest_release os deps w))"
    unfolding triple_def by (auto split: sum.splits)
  then have "guards installs (vouched deps) (h1 @ e # h2)" using assms(2) by (simp add: install_guarded_def)
  then show ?thesis using assms(3) by (rule guardsD)
qed

lemma nothing_unsigned_installed_witness:
  "\<exists>h1 e h2. hist (snd (update_from_latest_release release_os release_deps \<lparr>hist = []\<rparr>)) = h1 @ e # h2
     \<and> installs e \<and> vouched release_deps h1 e"
proof -
  obtain h1 e h2 where "hist (snd (update_from_latest_release release_os release_deps \<lparr>hist = []\<rparr>)) = h1 @ e # h2"
    and "installs e"
    using release_splits(1) by blast
  with nothing_unsigned_installed [of "\<lparr>hist = []\<rparr>" release_os release_deps h1 e h2]
  show ?thesis by auto
qed

text \<open>
  C21: what an update that succeeds has done. Its first call fetched the latest release. If that
  release has the version that is installed, the update reported so and did nothing else.
  Otherwise its calls are, in this order and without any other: the reading of the distribution,
  the fresh staging directory, the seven calls of a successful staging of the selected package
  (the first asset of the release with the extension that the distribution read there calls for,
  rpm for the Red Hat family and otherwise deb for Debian and Ubuntu, and with a name of the
  architecture of this machine)
  with the manifest and the signature of the same release, the removal of the staging directory,
  the restart of the service, which succeeded, and the report.
\<close>

theorem update_success:
  "update_from_latest_release os deps w = (Inr (), w') \<Longrightarrow>
    \<exists>out release h. out_success out \<and> parse_release deps (out_stdout out) = Some release \<and> hist w' = hist w @ h
      \<and> (if trim_start_v (tag_name release) = cargo_pkg_version
         then h = [latest_release_call out, Print (''sshknockd is already up to date at version '' @ cargo_pkg_version)]
         else updated deps out release h)"
  by (rule update_ok)

theorem update_success_witness:
  "\<exists>out w'. update_from_latest_release release_os release_deps \<lparr>hist = []\<rparr> = (Inr (), w')
    \<and> updated release_deps out (the (parse_release release_deps [])) (hist w')"
proof -
  obtain w' where w': "update_from_latest_release release_os release_deps \<lparr>hist = []\<rparr> = (Inr (), w')"
    using release_run [of "\<lparr>hist = []\<rparr>"] by blast
  let ?release = "the (parse_release release_deps [])"
  have new: "trim_start_v (tag_name ?release) \<noteq> cargo_pkg_version"
    by (simp add: release_deps_def trim_start_v_def cargo_pkg_version_def)
  from update_success [OF w'] obtain out release h where
    out: "parse_release release_deps (out_stdout out) = Some release" "hist w' = h"
      "if trim_start_v (tag_name release) = cargo_pkg_version
       then h = [latest_release_call out, Print (''sshknockd is already up to date at version '' @ cargo_pkg_version)]
       else updated release_deps out release h" by auto
  from out(1) have "release = ?release" by (simp add: release_deps_def)
  with out new have "updated release_deps out ?release (hist w')" by simp
  with w' show ?thesis by blast
qed

text \<open>
  C22: When staging succeeds, exactly seven calls were made, in this order: the three downloads
  over HTTPS, the reads of manifest, signature and package, and one successful installer run on
  the package; the signature is valid for the manifest, and the manifest lists the package's
  digest under the name of the selected asset.
\<close>

theorem staged_install_exact:
  assumes "stage_verify_and_install os deps asset m s extension dir w = (Inr (), w')"
  shows "\<exists>o1 o2 o3 o4 manifest signature package d prog flag.
    hist w' = hist w @
      [Exec ''curl'' (curl_common_args @ [''--output'', dir @ ''/sshknockd-update.'' @ extension,
         browser_download_url asset]) (Inr o1),
       Exec ''curl'' (curl_common_args @ [''--output'', dir @ ''/SHA256SUMS'', browser_download_url m]) (Inr o2),
       Exec ''curl'' (curl_common_args @ [''--output'', dir @ ''/SHA256SUMS.sig'', browser_download_url s]) (Inr o3),
       ReadFile (dir @ ''/SHA256SUMS'') (Inr manifest),
       ReadFile (dir @ ''/SHA256SUMS.sig'') (Inr signature),
       ReadFile (dir @ ''/sshknockd-update.'' @ extension) (Inr package),
       Exec prog [flag, dir @ ''/sshknockd-update.'' @ extension] (Inr o4)]
    \<and> out_success o1 \<and> out_success o2 \<and> out_success o3 \<and> out_success o4
    \<and> starts_with (browser_download_url asset) ''https://''
    \<and> starts_with (browser_download_url m) ''https://'' \<and> starts_with (browser_download_url s) ''https://''
    \<and> verify_strict deps release_signing_public_key manifest signature
    \<and> expected_digest_from_manifest manifest (asset_name asset) = Inr d
    \<and> eq_ignore_ascii_case (sha256_hex deps package) d
    \<and> (extension, prog, flag) \<in> {(''deb'', ''dpkg'', ''-i''), (''rpm'', ''rpm'', ''-Uvh'')}"
  using stage_ok [OF assms] unfolding staged_def by blast

lemma staged_install_exact_witness:
  "\<exists>w'. stage_verify_and_install release_os release_deps
     \<lparr> asset_name = ''k_amd64.deb'', browser_download_url = ''https://e/k'' \<rparr>
     \<lparr> asset_name = ''SHA256SUMS'', browser_download_url = ''https://e/s'' \<rparr>
     \<lparr> asset_name = ''SHA256SUMS.sig'', browser_download_url = ''https://e/g'' \<rparr> ''deb''
     ''/tmp/sshknockd-staging-42'' \<lparr>hist = []\<rparr> = (Inr (), w')
   \<and> length (hist w') = 7"
  using release_stage [of "\<lparr>hist = []\<rparr>"] staged_install_exact [OF release_stage [of "\<lparr>hist = []\<rparr>"]]
  by auto

text \<open>
  C33: The update runs no command but \<open>curl\<close> on an HTTPS address, each time with the options
  \<open>--fail\<close>, \<open>--proto =https\<close> and \<open>--proto-redir =https\<close> (HTTPS only, also on redirects) and with the
  timeouts of 10 and 300 seconds, \<open>dpkg -i\<close>, \<open>rpm -Uvh\<close> and the restart of its
  own service; it makes no directory that others can read.
\<close>

theorem update_commands:
  shows "\<exists>es. hist (snd (update_from_latest_release os deps w)) = hist w @ es \<and> list_all update_event es"
proof -
  have "emits update_event (update_from_latest_release os deps)"
    by (rule update_emits_all) (simp_all add: update_event_def curl_common_args_def)
  then show ?thesis by (auto simp: emits_def)
qed

text \<open>
  C24: Every staging directory that the update creates is removed by a later call, also when a
  download, the verification or the installer fails.
\<close>

theorem staging_removed:
  assumes "hist w = []" and "hist (snd (update_from_latest_release os deps w)) = h1 @ MakeDir d n None # h2"
  shows "\<exists>r. RemoveDir d r \<in> set h2"
proof -
  have "cleaned (hist w)" using assms(1) by (simp add: cleaned_def)
  then have "cleaned (h1 @ MakeDir d n None # h2)"
    using upholds_cleaned [of os deps] assms(2) by (auto simp: upholds_def)
  then show ?thesis by (auto simp: cleaned_def)
qed

lemma staging_removed_witness:
  "\<exists>h1 h2 r. hist (snd (update_from_latest_release release_os release_deps \<lparr>hist = []\<rparr>))
      = h1 @ MakeDir ''/tmp/sshknockd-staging-42'' 448 None # h2
    \<and> RemoveDir ''/tmp/sshknockd-staging-42'' r \<in> set h2"
proof -
  obtain h1 h2 where "hist (snd (update_from_latest_release release_os release_deps \<lparr>hist = []\<rparr>))
      = h1 @ MakeDir ''/tmp/sshknockd-staging-42'' 448 None # h2"
    using release_splits(2) by blast
  with staging_removed [of "\<lparr>hist = []\<rparr>" release_os release_deps h1 "''/tmp/sshknockd-staging-42''" 448 h2]
  show ?thesis by auto
qed

text \<open>
  C34: The service is restarted only after an installer run that succeeded: a failed update
  leaves the running daemon alone.
\<close>

theorem restart_only_after_install:
  assumes "hist w = []"
    and "hist (snd (update_from_latest_release os deps w)) = h1 @ Exec ''systemctl'' a r # h2"
  shows "\<exists>i\<in>set h1. installed i"
proof -
  have "restart_guarded w" using assms(1) by (simp add: restart_guarded_def)
  then have "guards restarts (\<lambda>h e. \<exists>i\<in>set h. installed i) (h1 @ Exec ''systemctl'' a r # h2)"
    using upholds_restart [of os deps] assms(2) by (auto simp: upholds_def restart_guarded_def)
  then show ?thesis by (rule guardsD) (simp add: restarts_def)
qed

lemma restart_only_after_install_witness:
  "\<exists>h1 a r h2. hist (snd (update_from_latest_release release_os release_deps \<lparr>hist = []\<rparr>))
      = h1 @ Exec ''systemctl'' a r # h2 \<and> (\<exists>i\<in>set h1. installed i)"
proof -
  obtain h1 a r h2 where "hist (snd (update_from_latest_release release_os release_deps \<lparr>hist = []\<rparr>))
      = h1 @ Exec ''systemctl'' a r # h2"
    using release_splits(3) by blast
  with restart_only_after_install [of "\<lparr>hist = []\<rparr>" release_os release_deps h1 a r h2]
  show ?thesis by auto
qed

text \<open>
  C25: The digest lookup accepts a manifest exactly when no line is malformed and it has one line
  for the package, whose digest is 64 hexadecimal digits.
\<close>

theorem manifest_exact:
  "expected_digest_from_manifest manifest package = Inr d \<longleftrightarrow>
    list_all (\<lambda>l. read_line l \<noteq> Malformed) (str_lines manifest)
    \<and> digests_for package (str_lines manifest) = [d] \<and> hex64 d"
  by (simp add: expected_digest_iff_aux list_all_iff)

text \<open>
  C26: in a manifest in the format of \<open>sha256sum\<close> (digest, two spaces, name, newline) with distinct
  names, every entry is found again under its name. The names are those of release files: not
  empty, of printable ASCII characters other than the space, and not beginning with a star.
  (Other names are not covered: one with a space makes the line malformed.)
\<close>

theorem manifest_roundtrip:
  assumes "list_all plain_entry es" and "distinct (map snd es)" and "(digest, name) \<in> set es"
  shows "expected_digest_from_manifest (manifest_text es) name = Inr digest"
  using assms by (intro manifest_found) (simp_all add: list_all_iff)

lemma manifest_roundtrip_witness:
  "expected_digest_from_manifest (manifest_text
     [(replicate 64 CHR ''b'', ''k_arm64.deb''), (replicate 64 CHR ''a'', ''k_amd64.deb'')]) ''k_amd64.deb''
    = Inr (replicate 64 CHR ''a'')"
  by (rule manifest_roundtrip)
    (auto simp: plain_entry_def hex64_def is_ascii_hexdigit_def graphic_def Let_def)

text \<open>
  A RHEL system is not recognised: the searches are literal, and \<open>/etc/os-release\<close> there
  quotes its values.
\<close>

definition rhel_os_release :: string where
  "rhel_os_release = ''ID='' @ quote @ ''rhel'' @ quote @ [CHR 0x0A] @ ''ID_LIKE='' @ quote @ ''fedora'' @ quote"

lemma rhel_not_recognised:
  assumes "os_read os (hist w) ''/etc/os-release'' = Inr rhel_os_release"
  shows "fst (detect_package_extension os w)
    = Inl (Err ''unsupported Linux distribution for automatic package selection'')"
proof -
  have c: "\<not> contains_str rhel_os_release ''ID_LIKE=rhel''"
    "\<not> contains_str rhel_os_release (''ID_LIKE='' @ quote @ ''rhel'')"
    "\<not> contains_str rhel_os_release ''ID=centos''" "\<not> contains_str rhel_os_release ''ID=fedora''"
    "\<not> contains_str rhel_os_release ''ID=rhel''" "\<not> contains_str rhel_os_release ''ID=rocky''"
    "\<not> contains_str rhel_os_release ''ID=almalinux''" "\<not> contains_str rhel_os_release ''ID_LIKE=debian''"
    "\<not> contains_str rhel_os_release (''ID_LIKE='' @ quote @ ''debian'')"
    "\<not> contains_str rhel_os_release ''ID=debian''" "\<not> contains_str rhel_os_release ''ID=ubuntu''"
    "utf8_valid rhel_os_release"
    by code_simp+
  then show ?thesis
    by (simp only: detect_package_extension_def read_file_def call_def bind_io_def or_fail_def io_defs assms c
        prod.case sum.case not_True_eq_False not_False_eq_True if_False if_True simp_thms fst_conv)
qed

end
