(* ===== verification/ConformanceUpdater.thy ===== *)
theory ConformanceUpdater
  imports ConformanceTelemetry UpdaterRuns
begin

text \<open>
  Tests of \<open>src/bin/sshknockd.rs\<close> and \<open>src/logger.rs\<close>, run on the model. Four tests use the
  real Ed25519 and SHA-256, which are parameters: these tests pass for all functions that
  give the results that the constants of the tests were made with (\<open>release_crypto\<close>).
\<close>

section \<open>The tests\<close>

definition PACKAGE_NAME :: string where
  "PACKAGE_NAME = ''sshknockd_0.2.1_amd64.deb''"

definition DIGEST :: string where
  "DIGEST = ''40fa264148fd4b9e9bea4447cc4504f68832044997ab4921af95356d05556031''"

definition VALID_MANIFEST :: string where
  "VALID_MANIFEST = DIGEST @ ''  sshknockd_0.2.1_amd64.deb'' @ [CHR 0x0A]"

fun any_pair :: "'a \<Rightarrow> 'a \<Rightarrow> 'a list \<Rightarrow> bool" where
  "any_pair a b (x # y # xs) = (x = a \<and> y = b \<or> any_pair a b (y # xs))"
| "any_pair a b xs = False"

definition common_curl_args_include_bounded_timeouts :: bool where
  "common_curl_args_include_bounded_timeouts =
     (any_pair ''--proto'' ''=https'' curl_common_args
      \<and> any_pair ''--proto-redir'' ''=https'' curl_common_args
      \<and> any_pair ''--connect-timeout'' ''10'' curl_common_args
      \<and> any_pair ''--max-time'' ''300'' curl_common_args
      \<and> 0 < from_base 10 ''10'' \<and> 0 < from_base 10 ''300'')"

definition accepts_https_release_asset_urls :: bool where
  "accepts_https_release_asset_urls = (\<not> is_err (ensure_https_url ''https://example.invalid/package.deb''))"

definition rejects_http_release_asset_urls :: bool where
  "rejects_http_release_asset_urls = is_err (ensure_https_url ''http://example.invalid/package.deb'')"

definition rejects_file_release_asset_urls :: bool where
  "rejects_file_release_asset_urls = is_err (ensure_https_url ''file:///tmp/package.deb'')"

definition extracts_exact_package_digest_from_manifest :: bool where
  "extracts_exact_package_digest_from_manifest =
     (expected_digest_from_manifest VALID_MANIFEST PACKAGE_NAME = Inr DIGEST)"

definition rejects_missing_package_entry_in_manifest :: bool where
  "rejects_missing_package_entry_in_manifest = is_err (expected_digest_from_manifest VALID_MANIFEST ''missing.deb'')"

definition rejects_duplicate_package_entries_in_manifest :: bool where
  "rejects_duplicate_package_entries_in_manifest =
     is_err (expected_digest_from_manifest (VALID_MANIFEST @ VALID_MANIFEST) PACKAGE_NAME)"

definition rejects_malformed_digest_in_manifest :: bool where
  "rejects_malformed_digest_in_manifest =
     is_err (expected_digest_from_manifest (''not-a-sha256  '' @ PACKAGE_NAME @ [CHR 0x0A]) PACKAGE_NAME)"

definition matches_manifest_package_name_exactly :: bool where
  "matches_manifest_package_name_exactly =
     is_err (expected_digest_from_manifest (DIGEST @ ''  evil-'' @ PACKAGE_NAME @ [CHR 0x0A]) PACKAGE_NAME)"

section \<open>They pass\<close>

lemma https_tests_pass: accepts_https_release_asset_urls rejects_http_release_asset_urls rejects_file_release_asset_urls
  by code_simp+

lemma curl_test_passes: common_curl_args_include_bounded_timeouts
  by (simp add: common_curl_args_include_bounded_timeouts_def curl_common_args_def from_base_def digit_value_def)

lemma manifest_tests_pass:
  extracts_exact_package_digest_from_manifest rejects_missing_package_entry_in_manifest
  rejects_duplicate_package_entries_in_manifest rejects_malformed_digest_in_manifest
  matches_manifest_package_name_exactly
  by code_simp+

section \<open>The tests with a signature\<close>

definition PACKAGE_BYTES :: string where
  "PACKAGE_BYTES = ''package bytes'' @ [CHR 0x0A]"

definition signature_bytes :: "nat list" where
  "signature_bytes =
    [0x29, 0x77, 0x17, 0xa2, 0x1d, 0x30, 0xa6, 0x68, 0xab, 0xe9, 0xff, 0x5a, 0x79, 0xc8, 0x02,
     0x1b, 0x22, 0xbf, 0x08, 0xbb, 0x6a, 0x36, 0x4f, 0x85, 0x57, 0xda, 0x38, 0xbe, 0xe4, 0x90,
     0xd0, 0x18, 0x0c, 0x8c, 0xbd, 0x28, 0x6c, 0xd7, 0xe1, 0xa1, 0xf9, 0x14, 0x1d, 0x73, 0x54,
     0x46, 0x83, 0xd7, 0x4b, 0x66, 0x17, 0x59, 0xd6, 0x30, 0x75, 0xd3, 0xd2, 0x43, 0x97, 0x44,
     0xe4, 0xa5, 0x0f, 0x07]"

definition VALID_SIGNATURE :: string where
  "VALID_SIGNATURE = map char_of signature_bytes"

text \<open>\<open>signature[0] ^= 1\<close>.\<close>

definition altered_signature :: string where
  "altered_signature = map char_of (signature_bytes[0 := Bit_Operations.xor (signature_bytes ! 0) 1])"

definition verifies_manifest_signature :: "deps \<Rightarrow> bool" where
  "verifies_manifest_signature deps = (\<not> is_err (verify_manifest_signature deps VALID_MANIFEST VALID_SIGNATURE))"

definition rejects_invalid_manifest_signature :: "deps \<Rightarrow> bool" where
  "rejects_invalid_manifest_signature deps = is_err (verify_manifest_signature deps VALID_MANIFEST altered_signature)"

text \<open>The files of a test in its temporary directory, and the check of the package.\<close>

definition files_os :: "(string \<times> string) list \<Rightarrow> os" where
  "files_os files = quiet_os\<lparr> os_read := \<lambda>h p. case map_of files p of
     None \<Rightarrow> Inl (IoError OtherKind ''No such file or directory (os error 2)'') | Some content \<Rightarrow> Inr content \<rparr>"

definition verify_test_package :: "deps \<Rightarrow> string \<Rightarrow> unit result" where
  "verify_test_package deps package =
     (let package_path = ''/tmp/.tmpTEST/'' @ PACKAGE_NAME; manifest_path = ''/tmp/.tmpTEST/'' @ checksum_manifest;
          signature_path = ''/tmp/.tmpTEST/'' @ checksum_signature;
          asset = \<lparr> asset_name = PACKAGE_NAME, browser_download_url = ''https://example.invalid/package.deb'' \<rparr> in
      fst (verify_package_against_signed_manifest
        (files_os [(package_path, package), (manifest_path, VALID_MANIFEST), (signature_path, VALID_SIGNATURE)])
        deps asset package_path manifest_path signature_path \<lparr> hist = [] \<rparr>))"

definition detects_package_digest_mismatch :: "deps \<Rightarrow> bool" where
  "detects_package_digest_mismatch deps = is_err (verify_test_package deps (''tampered package'' @ [CHR 0x0A]))"

definition accepts_package_when_digest_matches :: "deps \<Rightarrow> bool" where
  "accepts_package_when_digest_matches deps = (\<not> is_err (verify_test_package deps PACKAGE_BYTES))"

definition release_crypto :: "deps \<Rightarrow> bool" where
  "release_crypto deps = (key_valid deps release_signing_public_key \<and> signature_valid deps VALID_SIGNATURE
     \<and> verify_strict deps release_signing_public_key VALID_MANIFEST VALID_SIGNATURE
     \<and> \<not> verify_strict deps release_signing_public_key VALID_MANIFEST altered_signature
     \<and> sha256_hex deps PACKAGE_BYTES = DIGEST
     \<and> \<not> eq_ignore_ascii_case (sha256_hex deps (''tampered package'' @ [CHR 0x0A])) DIGEST)"

lemma test_paths:
  "''/tmp/.tmpTEST/'' @ PACKAGE_NAME \<noteq> ''/tmp/.tmpTEST/'' @ checksum_manifest"
  "''/tmp/.tmpTEST/'' @ PACKAGE_NAME \<noteq> ''/tmp/.tmpTEST/'' @ checksum_signature"
  "''/tmp/.tmpTEST/'' @ checksum_manifest \<noteq> ''/tmp/.tmpTEST/'' @ checksum_signature"
  by (simp_all add: PACKAGE_NAME_def checksum_manifest_def checksum_signature_def)

lemma valid_manifest_utf8: "utf8_valid VALID_MANIFEST"
  by code_simp

lemma valid_manifest_digest: "expected_digest_from_manifest VALID_MANIFEST PACKAGE_NAME = Inr DIGEST"
  using manifest_tests_pass(1) by (simp add: extracts_exact_package_digest_from_manifest_def)

lemma verify_test_package_result:
  assumes "release_crypto deps"
  shows "is_err (verify_test_package deps package) \<longleftrightarrow> \<not> eq_ignore_ascii_case (sha256_hex deps package) DIGEST"
  using assms test_paths
  by (simp add: verify_test_package_def verify_package_against_signed_manifest_def Let_def read_file_def call_def
      bind_io_def or_fail_def io_defs files_os_def of_result_def verify_manifest_signature_def release_crypto_def
      ensure_def valid_manifest_utf8 valid_manifest_digest is_err_def)

lemma signature_tests_pass:
  assumes "release_crypto deps"
  shows "verifies_manifest_signature deps" "rejects_invalid_manifest_signature deps"
    "detects_package_digest_mismatch deps" "accepts_package_when_digest_matches deps"
  using assms verify_test_package_result [OF assms]
  by (simp_all add: verifies_manifest_signature_def rejects_invalid_manifest_signature_def is_err_def
      detects_package_digest_mismatch_def accepts_package_when_digest_matches_def verify_manifest_signature_def
      release_crypto_def eq_ignore_ascii_case_def)

text \<open>There are such functions.\<close>

lemma release_crypto_possible: "\<exists>deps. release_crypto deps"
proof -
  have "altered_signature \<noteq> VALID_SIGNATURE" by code_simp
  moreover have "\<not> eq_ignore_ascii_case [] DIGEST" "PACKAGE_BYTES \<noteq> ''tampered package'' @ [CHR 0x0A]" by code_simp+
  ultimately have "release_crypto \<lparr> parse_release = \<lambda>s. None, sha256_hex = \<lambda>s. if s = PACKAGE_BYTES then DIGEST else [],
      key_valid = \<lambda>k. True, signature_valid = \<lambda>s. True, verify_strict = \<lambda>k m s. s = VALID_SIGNATURE, consts_arch = [] \<rparr>"
    by (simp add: release_crypto_def)
  then show ?thesis ..
qed

section \<open>The audit logger\<close>

definition writes_audit_event :: "os \<Rightarrow> bool" where
  "writes_audit_event os =
     (case bind_io (logger_new os ''/tmp/.tmpAUDIT'') (\<lambda>logger. log os logger ''test_event'' ''key=value'') \<lparr> hist = [] \<rparr> of
        (Inl e, w) \<Rightarrow> False
      | (Inr _, w) \<Rightarrow>
          contains_str (concat (log_content (hist w))) ''event=test_event''
          \<and> contains_str (concat (log_content (hist w))) ''key=value'')"

definition returns_error_when_audit_lock_is_poisoned :: "os \<Rightarrow> bool" where
  "returns_error_when_audit_lock_is_poisoned os =
     (case bind_io (logger_new os ''/tmp/.tmpAUDIT'') (\<lambda>logger.
          log os (logger\<lparr>lock_poisoned := True\<rparr>) ''test_event'' ''key=value'') \<lparr> hist = [] \<rparr> of
        (Inl (Err e), w) \<Rightarrow> contains_str e ''failed to lock audit log''
      | _ \<Rightarrow> False)"

lemma logger_tests_pass: "writes_audit_event quiet_os" "returns_error_when_audit_lock_is_poisoned quiet_os"
proof -
  have new: "logger_new quiet_os ''/tmp/.tmpAUDIT'' \<lparr> hist = [] \<rparr>
      = (Inr \<lparr> log_path = ''/tmp/.tmpAUDIT'', lock_poisoned = False \<rparr>, \<lparr> hist = test_hist \<rparr>)"
    by (simp add: logger_new_def path_parent_def call_def quiet_os_def none_or_fail_def bind_io_def io_defs test_hist_def)
  have os: "os_unix quiet_os h = Some 1700000000" "os_write quiet_os h l = None" for h l by (simp_all add: quiet_os_def)
  have "contains_str (audit_line ts ''test_event'' ''key=value'') ''event=test_event''" for ts
    using audit_line_contains(1) [of ts "''test_event''"] by simp
  moreover have "contains_str (audit_line ts ''test_event'' ''key=value'') ''key=value''" for ts
    using audit_line_contains(2) [of ts _ _ "[]"] by simp
  ultimately show "writes_audit_event quiet_os"
    by (simp add: writes_audit_event_def bind_io_def new log_def unix_time_def write_audit_def call_def os
        none_or_fail_def ret_def)
  have "contains_str ''failed to lock audit log: poisoned lock: another task failed inside'' ''failed to lock audit log''"
    by code_simp
  then show "returns_error_when_audit_lock_is_poisoned quiet_os"
    by (simp add: returns_error_when_audit_lock_is_poisoned_def bind_io_def new log_def unix_time_def call_def os
        throw_def)
qed

end
