(* ===== verification/IntegrationTests.thy ===== *)
theory IntegrationTests
  imports Poll
begin

text \<open>
  The tests under \<open>tests/\<close>, run on the model. Where a test starts from \<open>Instant::now()\<close>, it passes
  for every such instant. Left out are the tests of the TOML parser's strictness, which is
  third-party code, and the test that counts the bytes of the output of a shell loop.
\<close>

section \<open>knock_tests.rs\<close>

definition bounded_tracker :: "usize \<Rightarrow> knock_tracker" where
  "bounded_tracker max_states = knock_tracker_new
     [\<lparr> step_protocol = Udp, step_port = Some 40101, step_size = 64 \<rparr>,
      \<lparr> step_protocol = Udp, step_port = Some 40102, step_size = 128 \<rparr>,
      \<lparr> step_protocol = Udp, step_port = Some 40103, step_size = 96 \<rparr>]
     (from_secs 5) (from_secs 10) max_states 512"

definition tracker :: knock_tracker where
  "tracker = bounded_tracker 4096"

definition packet_from :: "ip_addr \<Rightarrow> u16 \<Rightarrow> usize \<Rightarrow> knock_packet" where
  "packet_from ip port len = \<lparr> source_ip = ip, pkt_protocol = Udp, pkt_port = Some port, payload_size = len \<rparr>"

definition packet :: "u16 \<Rightarrow> usize \<Rightarrow> knock_packet" where
  "packet port len = packet_from (ipv4 1 2 3 4) port len"

definition accepts_valid_sequence :: "instant \<Rightarrow> bool" where
  "accepts_valid_sequence now = (fst (run_tracker tracker [(packet 40101 64, now),
      (packet 40102 128, now + from_secs 1), (packet 40103 96, now + from_secs 2)]) = [Progress 1, Progress 2, Accepted])"

definition rejects_wrong_order :: "instant \<Rightarrow> bool" where
  "rejects_wrong_order now = (fst (run_tracker tracker [(packet 40102 128, now)]) = [Rejected])"

definition resets_after_wrong_size :: "instant \<Rightarrow> bool" where
  "resets_after_wrong_size now = (fst (run_tracker tracker [(packet 40101 64, now),
      (packet 40102 127, now + from_secs 1), (packet 40103 96, now + from_secs 2)]) = [Progress 1, Rejected, Rejected])"

definition rejects_expired_sequence :: "instant \<Rightarrow> bool" where
  "rejects_expired_sequence now = (fst (run_tracker tracker [(packet 40101 64, now),
      (packet 40102 128, now + from_secs 6)]) = [Progress 1, Rejected])"

definition rejects_oversized_packet :: "instant \<Rightarrow> bool" where
  "rejects_oversized_packet now = (fst (run_tracker tracker [(packet 40101 513, now)]) = [Oversized])"

definition rejects_new_partial_states_at_capacity :: "instant \<Rightarrow> bool" where
  "rejects_new_partial_states_at_capacity now = (case run_tracker (bounded_tracker 2)
      [(packet_from (ipv4 192 0 2 1) 40101 64, now), (packet_from (ipv4 192 0 2 2) 40101 64, now),
       (packet_from (ipv4 192 0 2 3) 40101 64, now)] of
     (ocs, t) \<Rightarrow> ocs = [Progress 1, Progress 1, Rejected] \<and> tracker_len t = 2)"

definition keeps_existing_partial_states_at_capacity :: "instant \<Rightarrow> bool" where
  "keeps_existing_partial_states_at_capacity now = (fst (run_tracker (bounded_tracker 2)
      [(packet_from (ipv4 192 0 2 1) 40101 64, now), (packet_from (ipv4 192 0 2 2) 40101 64, now),
       (packet_from (ipv4 192 0 2 1) 40102 128, now + from_secs 1),
       (packet_from (ipv4 192 0 2 1) 40103 96, now + from_secs 2)]) = [Progress 1, Progress 1, Progress 2, Accepted])"

definition admits_new_partial_state_after_expiry :: "instant \<Rightarrow> bool" where
  "admits_new_partial_state_after_expiry now = (case run_tracker (bounded_tracker 1)
      [(packet_from (ipv4 192 0 2 1) 40101 64, now),
       (packet_from (ipv4 192 0 2 2) 40101 64, now + from_secs 11)] of
     (ocs, t) \<Rightarrow> ocs = [Progress 1, Progress 1] \<and> tracker_len t = 1)"

lemmas tracker_test_simps = tracker_def bounded_tracker_def packet_def packet_from_def knock_tracker_new_def
  process_def expire_def remove_source_def hm_defs Let_def duration_since_def live_def matches_step_def step_matches_def
  start_partial_state_def start_or_reject_def from_secs_def nanos_per_sec_def tracker_len_def ipv4_def

lemma knock_tests_pass:
  "accepts_valid_sequence now" "rejects_wrong_order now" "resets_after_wrong_size now" "rejects_expired_sequence now"
  "rejects_oversized_packet now" "rejects_new_partial_states_at_capacity now"
  "keeps_existing_partial_states_at_capacity now" "admits_new_partial_state_after_expiry now"
  by (simp_all add: accepts_valid_sequence_def rejects_wrong_order_def resets_after_wrong_size_def
      rejects_expired_sequence_def rejects_oversized_packet_def rejects_new_partial_states_at_capacity_def
      keeps_existing_partial_states_at_capacity_def admits_new_partial_state_after_expiry_def tracker_test_simps)

section \<open>rate_limit_tests.rs\<close>

definition denies_after_capacity :: "instant \<Rightarrow> bool" where
  "denies_after_capacity now = (fst (run_allow (limiter_new 2 1 (from_secs 60))
     [(''client'', now), (''client'', now), (''client'', now)]) = [True, True, False])"

definition refills_after_interval :: "instant \<Rightarrow> bool" where
  "refills_after_interval now = (fst (run_allow (limiter_new 1 1 (from_secs 60))
     [(''client'', now), (''client'', now), (''client'', now + from_secs 60)]) = [True, False, True])"

definition expires_idle_buckets :: "instant \<Rightarrow> bool" where
  "expires_idle_buckets now =
     (case run_allow (limiter_new 1 1 (from_secs 60)) [(''client-a'', now), (''client-b'', now)] of (rs, l) \<Rightarrow>
      case allow l ''client-c'' (now + from_secs 121) of (r, l') \<Rightarrow>
        rs = [True, True] \<and> limiter_len l = 2 \<and> r \<and> limiter_len l' = 1)"

definition keeps_recent_buckets :: "instant \<Rightarrow> bool" where
  "keeps_recent_buckets now =
     (case run_allow (limiter_new 1 1 (from_secs 60))
        [(''client-a'', now), (''client-b'', now), (''client-a'', now + from_secs 100)] of (rs, l) \<Rightarrow>
      case allow l ''client-c'' (now + from_secs 150) of (r, l') \<Rightarrow>
        rs = [True, True, True] \<and> limiter_len l = 2 \<and> r \<and> limiter_len l' = 2)"

lemmas limiter_test_simps = limiter_new_def limiter_len_def allow_def prune_idle_def idle_ttl_def hm_defs Let_def
  duration_checked_mul_def duration_max_def duration_since_def from_secs_def nanos_per_sec_def as_secs_def
  saturating_mul_def saturating_add_def clamp_u32_def

lemma rate_limit_tests_pass:
  "denies_after_capacity now" "refills_after_interval now" "expires_idle_buckets now" "keeps_recent_buckets now"
  by (simp_all add: denies_after_capacity_def refills_after_interval_def expires_idle_buckets_def
      keeps_recent_buckets_def limiter_test_simps)

section \<open>firewall_tests.rs\<close>

text \<open>The recording runner, with the answers that it gives to the checks.\<close>

record recording_state =
  commands :: "command_spec list"
  check_statuses :: "command_status list"
  check_index :: nat

definition command_status_of :: "bool \<Rightarrow> int \<Rightarrow> string \<Rightarrow> command_status" where
  "command_status_of success code diagnostics =
     \<lparr> cs_success = success, cs_code = Some code, cs_diagnostics = diagnostics \<rparr>"

definition scripted_runner :: "recording_state runner" where
  "scripted_runner spec s =
     (let s = s\<lparr>commands := commands s @ [spec]\<rparr> in
      if args spec \<noteq> [] \<and> hd (args spec) = ''-C'' then
        (let index = check_index s; s = s\<lparr>check_index := index + 1\<rparr> in
         if index < length (check_statuses s) then (Inr (check_statuses s ! index), s)
         else (Inr (command_status_of False 1 ''rule is absent''), s))
      else (Inr (command_status_of True 0 []), s))"

definition with_check_statuses :: "command_status list \<Rightarrow> recording_state" where
  "with_check_statuses cs = \<lparr> commands = [], check_statuses = cs, check_index = 0 \<rparr>"

definition tested_firewall :: firewall where
  "tested_firewall = \<lparr> fw_ipset_name = ''ssh_allow'', fw_ban_ipset_name = ''ssh_ban'', fw_ip_timeout = 10,
     fw_ban_timeout = 86400, fw_backend = Iptables, fw_family = Ipv4 \<rparr>"

text \<open>The test body runs on the firewall that \<open>Firewall::new\<close> gives.\<close>

definition with_tested_firewall :: "(firewall \<Rightarrow> bool) \<Rightarrow> bool" where
  "with_tested_firewall body = (case firewall_new ''ssh_allow'' ''ssh_ban'' 10 86400 Iptables Ipv4 of
     Inl e \<Rightarrow> False | Inr fw \<Rightarrow> body fw)"

definition builds_ipset_argv :: bool where
  "builds_ipset_argv = with_tested_firewall (\<lambda>fw.
     add_ip_command fw (ipv4 1 2 3 4) = \<lparr> program = ''ipset'',
       args = [''add'', ''ssh_allow'', ''1.2.3.4'', ''timeout'', ''10'', ''-exist''] \<rparr>)"

definition preflights_ipset_and_iptables :: bool where
  "preflights_ipset_and_iptables = with_tested_firewall (\<lambda>fw.
     case preflight fw scripted_runner (with_check_statuses []) of (r, s) \<Rightarrow>
       r = Inr () \<and> map program (commands s) = [''ipset'', ''ipset'', ''iptables''])"

definition setup_checks_before_inserting :: bool where
  "setup_checks_before_inserting = with_tested_firewall (\<lambda>fw.
     case fw_setup fw scripted_runner 22 (with_check_statuses []) of (r, s) \<Rightarrow>
       r = Inr () \<and> commands s = [create_ipset_command fw, create_ban_ipset_command fw,
         iptables_allow_check_command fw 22, iptables_allow_command fw 22, iptables_drop_check_command fw 22,
         iptables_drop_command fw 22, iptables_ban_drop_check_command fw, iptables_ban_drop_command fw])"

definition setup_skips_existing_rules :: bool where
  "setup_skips_existing_rules = with_tested_firewall (\<lambda>fw.
     case fw_setup fw scripted_runner 22 (with_check_statuses (replicate 3 (command_status_of True 0 []))) of (r, s) \<Rightarrow>
       r = Inr () \<and> length (commands s) = 5 \<and> drop 2 (commands s) = [iptables_allow_check_command fw 22,
         iptables_drop_check_command fw 22, iptables_ban_drop_check_command fw])"

definition setup_fails_closed_on_unexpected_check_status :: bool where
  "setup_fails_closed_on_unexpected_check_status = with_tested_firewall (\<lambda>fw.
     case fw_setup fw scripted_runner 22 (with_check_statuses [command_status_of False 2 ''iptables check failed'']) of
       (Inl (Err e), s) \<Rightarrow> contains_str e ''iptables check failed'' \<and> length (commands s) = 3
         \<and> commands s ! 2 = iptables_allow_check_command fw 22
     | _ \<Rightarrow> False)"

definition builds_ipv6_firewall_commands :: bool where
  "builds_ipv6_firewall_commands = (case firewall_new ''ssh6_allow'' ''ssh6_ban'' 10 86400 Ip6tables Ipv6 of
       Inl e \<Rightarrow> False
     | Inr fw \<Rightarrow>
         program (create_ipset_command fw) = ''ipset'' \<and> List.member (args (create_ipset_command fw)) ''family''
         \<and> List.member (args (create_ipset_command fw)) ''inet6''
         \<and> program (iptables_allow_command fw 10022) = ''ip6tables''
         \<and> program (iptables_allow_check_command fw 10022) = ''ip6tables''
         \<and> args (iptables_allow_check_command fw 10022) ! 0 = ''-C''
         \<and> args (add_ip_command fw (V6 1)) ! 2 = ''::1'')"

text \<open>\<open>/bin/sh\<close> prints and exits as its script says.\<close>

definition shell_os :: os where
  "shell_os = quiet_os\<lparr> os_exec := \<lambda>h p a. Inr \<lparr> out_success = False, out_code = Some 7, out_status = ''exit status: 7'',
     out_stdout = ''visible stdout'', out_stderr = ''visible stderr'' \<rparr> \<rparr>"

definition shell_script :: string where
  "shell_script = ''printf 'visible stdout'; printf 'visible stderr' >&2; exit 7''"

definition system_runner_reports :: bool where
  "system_runner_reports = (case run (system_run_status shell_os)
       \<lparr> program = ''/bin/sh'', args = [''-c'', shell_script] \<rparr> \<lparr> hist = [] \<rparr> of
       (Inl (Err message), w) \<Rightarrow> list_all (contains_str message)
         [''status='', ''7'', ''stdout='', ''visible stdout'', ''stderr='', ''visible stderr'']
     | _ \<Rightarrow> False)"

lemma tested_firewall_new: "with_tested_firewall body \<longleftrightarrow> body tested_firewall"
  by (simp add: with_tested_firewall_def firewall_new_def validate_ipset_name_def ipset_char_def
      is_ascii_alphanumeric_def tested_firewall_def)

lemmas scripted_simps = tested_firewall_new preflight_def fw_setup_def ensure_iptables_rule_def run_def bind_io_def
  scripted_runner_def command_status_of_def with_check_statuses_def Let_def io_defs create_ipset_command_def
  create_ban_ipset_command_def create_set_command_def iptables_allow_check_command_def iptables_allow_command_def
  iptables_drop_check_command_def iptables_drop_command_def iptables_ban_drop_check_command_def
  iptables_ban_drop_command_def firewall_program_def numeral_3_eq_3

lemma firewall_setup_tests_pass:
  preflights_ipset_and_iptables setup_checks_before_inserting setup_skips_existing_rules
  setup_fails_closed_on_unexpected_check_status
  by (simp_all add: preflights_ipset_and_iptables_def setup_checks_before_inserting_def setup_skips_existing_rules_def
      setup_fails_closed_on_unexpected_check_status_def scripted_simps tested_firewall_def starts_with_def)

lemma test_texts: "ip_to_string (ipv4 1 2 3 4) = ''1.2.3.4''" "ip_to_string (V6 1) = ''::1''" "dec 10 = ''10''"
proof -
  have "dec 1 = ''1''" "dec 2 = ''2''" "dec 3 = ''3''" "dec 4 = ''4''" by code_simp+
  then show "ip_to_string (ipv4 1 2 3 4) = ''1.2.3.4''"
    by (simp add: ipv4_def ipv4_to_string_def octets_def join_def)
  have "segments 1 = [0, 0, 0, 0, 0, 0, 0, 1]" by (simp add: segments_def del: One_nat_def)
  then show "ip_to_string (V6 1) = ''::1''"
    by (simp add: ipv6_to_string_def Let_def fmt_segments_def join_def to_base.simps digit_char_def del: One_nat_def)
  show "dec 10 = ''10''" by code_simp
qed

lemma firewall_command_tests_pass: builds_ipset_argv builds_ipv6_firewall_commands
proof -
  show builds_ipset_argv
    by (simp add: builds_ipset_argv_def tested_firewall_new add_ip_command_def tested_firewall_def test_texts del: One_nat_def)
  show builds_ipv6_firewall_commands
    by (simp add: builds_ipv6_firewall_commands_def firewall_new_def validate_ipset_name_def ipset_char_def
        is_ascii_alphanumeric_def create_ipset_command_def create_set_command_def iptables_allow_command_def
        iptables_allow_check_command_def firewall_program_def add_ip_command_def test_texts del: ip_to_string.simps)
qed

lemma contains_later: "contains_str b p \<Longrightarrow> contains_str (a @ b) p"
  unfolding contains_str_iff by (metis append.assoc)

lemma contains_first: "contains_str a p \<Longrightarrow> contains_str (a @ b) p"
  unfolding contains_str_iff by (metis append.assoc)

lemma system_runner_test_passes: system_runner_reports
proof -
  let ?msg = "''command /bin/sh exited unsuccessfully: status=exit status: 7, args=''
    @ debug_strs (\<lambda>s. s) [''-c'', shell_script]
    @ '', stdout='' @ debug_str (\<lambda>s. s) ''visible stdout'' @ '', stderr='' @ debug_str (\<lambda>s. s) ''visible stderr''"
  have "bounded_command_output ''visible stdout'' = ''visible stdout''"
    "bounded_command_output ''visible stderr'' = ''visible stderr''" by code_simp+
  then obtain w where run: "run (system_run_status shell_os) \<lparr> program = ''/bin/sh'', args = [''-c'', shell_script] \<rparr> \<lparr> hist = [] \<rparr>
      = (Inl (Err ?msg), w)"
    by (simp add: run_def system_run_status_def exec_def call_def bind_io_def or_fail_def io_defs
        shell_os_def format_command_failure_def quiet_os_def)
  have head: "contains_str ''command /bin/sh exited unsuccessfully: status=exit status: 7, args='' p"
    if "p = ''status='' \<or> p = ''7''" for p
    using that by (elim disjE; simp only:) (code_simp, code_simp)
  have tail: "contains_str ('', stdout='' @ debug_str (\<lambda>s. s) ''visible stdout'' @ '', stderr='' @ debug_str (\<lambda>s. s) ''visible stderr'') p"
    if "p = ''stdout='' \<or> p = ''visible stdout'' \<or> p = ''stderr='' \<or> p = ''visible stderr''" for p
    using that by (elim disjE; simp only:) (code_simp, code_simp, code_simp, code_simp)
  have "contains_str ?msg ''status=''" "contains_str ?msg ''7''"
    by (rule contains_first, rule head, simp)+
  moreover have "contains_str ?msg ''stdout=''" "contains_str ?msg ''visible stdout''"
    "contains_str ?msg ''stderr=''" "contains_str ?msg ''visible stderr''"
    by (rule contains_later, rule contains_later, rule tail, simp)+
  ultimately have "list_all (contains_str ?msg)
      [''status='', ''7'', ''stdout='', ''visible stdout'', ''stderr='', ''visible stderr'']"
    by (simp only: list.pred_inject simp_thms)
  then show ?thesis
    unfolding system_runner_reports_def run by (simp only: prod.case sum.case failure.case)
qed

section \<open>config_tests.rs\<close>

definition udp_steps :: "u16 list \<Rightarrow> knock_step list" where
  "udp_steps ports = map (\<lambda>(port, len). \<lparr> step_protocol = Udp, step_port = Some port, step_size = len \<rparr>)
     (zip ports [64, 128, 96])"

text \<open>The document of the fixture; the fields that it does not set are those with a default.\<close>

definition valid_document :: raw_config where
  "valid_document =
     \<lparr> raw_listen = ''0.0.0.0'', raw_ssh_port = 10022, raw_ipset_name = ''ssh_allow'', raw_firewall_backend = None,
       raw_address_family = None, raw_sequence_window = Some 5, raw_ip_timeout = Some 10,
       raw_partial_state_timeout = Some 10, raw_max_partial_states = Some 4096, raw_max_payload_size = Some 512,
       raw_log_level = Some ''info'', raw_log_file = None, raw_invalid_burst_limit = None,
       raw_invalid_refill_per_minute = None, raw_ban_timeout = None, raw_ban_ipset_name = None,
       raw_knock = \<lparr> sequence = udp_steps [40101, 40102, 40103] \<rparr> \<rparr>"

definition fixture_config :: config where
  "fixture_config = config_of_raw valid_document"

definition with_steps :: "(knock_step list \<Rightarrow> knock_step list) \<Rightarrow> config" where
  "with_steps f = fixture_config\<lparr>knock := \<lparr> sequence = f (sequence (knock fixture_config)) \<rparr>\<rparr>"

definition accepts_valid_configuration :: bool where
  "accepts_valid_configuration = (\<not> is_err (validate fixture_config))"

text \<open>The packaged \<open>sshknockd.toml\<close>: its ports are zero.\<close>

definition packaged_document :: raw_config where
  "packaged_document =
     \<lparr> raw_listen = ''0.0.0.0'', raw_ssh_port = 10022, raw_ipset_name = ''ssh_allow'',
       raw_firewall_backend = Some Iptables, raw_address_family = Some Ipv4, raw_sequence_window = Some 5,
       raw_ip_timeout = Some 10, raw_partial_state_timeout = Some 10, raw_max_partial_states = Some 4096,
       raw_max_payload_size = Some 512, raw_log_level = Some ''info'',
       raw_log_file = Some ''/var/log/sshknockd/sshknockd.log'', raw_invalid_burst_limit = Some 20,
       raw_invalid_refill_per_minute = Some 10, raw_ban_timeout = Some 86400,
       raw_ban_ipset_name = Some ''sshknockd_ban'', raw_knock = \<lparr> sequence = udp_steps [0, 0, 0] \<rparr> \<rparr>"

definition rejects_packaged_placeholder_config :: "os \<Rightarrow> (string \<Rightarrow> raw_config option) \<Rightarrow> bool" where
  "rejects_packaged_placeholder_config os parse
     = is_err (fst (from_path os parse ''sshknockd.toml'' \<lparr> hist = [] \<rparr>))"

definition rejects_short_sequences :: bool where
  "rejects_short_sequences = is_err (validate (with_steps (take 2)))"

definition rejects_duplicate_ports :: bool where
  "rejects_duplicate_ports = is_err (validate (with_steps (\<lambda>ss. ss[1 := (ss ! 1)\<lparr>step_port := step_port (ss ! 0)\<rparr>])))"

definition rejects_zero_knock_ports :: bool where
  "rejects_zero_knock_ports = is_err (validate (with_steps (\<lambda>ss. ss[0 := (ss ! 0)\<lparr>step_port := Some 0\<rparr>])))"

definition rejects_udp_knock_port_matching_ssh_port :: bool where
  "rejects_udp_knock_port_matching_ssh_port = is_err (validate (with_steps
     (\<lambda>ss. ss[0 := (ss ! 0)\<lparr>step_port := Some (ssh_port fixture_config)\<rparr>])))"

definition rejects_tcp_knock_port_matching_ssh_port :: bool where
  "rejects_tcp_knock_port_matching_ssh_port = is_err (validate (with_steps
     (\<lambda>ss. ss[0 := (ss ! 0)\<lparr>step_protocol := Tcp, step_port := Some (ssh_port fixture_config)\<rparr>])))"

definition rejects_oversized_steps :: bool where
  "rejects_oversized_steps = is_err (validate (with_steps (\<lambda>ss. ss[0 := (ss ! 0)\<lparr>step_size := 513\<rparr>])))"

definition rejects_zero_max_partial_states :: bool where
  "rejects_zero_max_partial_states = is_err (validate (fixture_config\<lparr>max_partial_states := 0\<rparr>))"

definition rejects_shell_metacharacters_in_ipset_name :: bool where
  "rejects_shell_metacharacters_in_ipset_name =
     (\<not> is_err (validate_ipset_name ''ssh_allow'') \<and> is_err (validate_ipset_name ''ssh_allow;rm''))"

lemmas config_test_simps = fixture_config_def with_steps_def valid_document_def udp_steps_def config_of_raw_def
  or_default_def is_err_def validate_def validate_ipset_name_def ipset_char_def is_ascii_alphanumeric_def

lemma config_tests_pass:
  accepts_valid_configuration rejects_short_sequences rejects_duplicate_ports rejects_zero_knock_ports
  rejects_udp_knock_port_matching_ssh_port rejects_tcp_knock_port_matching_ssh_port rejects_oversized_steps
  rejects_zero_max_partial_states rejects_shell_metacharacters_in_ipset_name
  by (simp_all add: accepts_valid_configuration_def rejects_short_sequences_def rejects_duplicate_ports_def
      rejects_zero_knock_ports_def rejects_udp_knock_port_matching_ssh_port_def
      rejects_tcp_knock_port_matching_ssh_port_def rejects_oversized_steps_def rejects_zero_max_partial_states_def
      rejects_shell_metacharacters_in_ipset_name_def config_test_simps)

text \<open>The packaged file is refused by every parser that reads it as its document says.\<close>

lemma packaged_config_test_passes:
  assumes "\<And>content. os_read os [] ''sshknockd.toml'' = Inr content \<Longrightarrow> parse content = Some packaged_document"
  shows "rejects_packaged_placeholder_config os parse"
proof -
  have "\<exists>e. validate (config_of_raw packaged_document) = Inl e"
    by (simp add: packaged_document_def config_test_simps)
  then obtain e where e: "validate (config_of_raw packaged_document) = Inl e" ..
  show ?thesis
    using assms e
    by (cases "os_read os [] ''sshknockd.toml''") (auto simp: rejects_packaged_placeholder_config_def from_path_def
        read_file_def call_def bind_io_def or_fail_def io_defs of_result_def is_err_def)
qed

section \<open>server_tests.rs\<close>

text \<open>A client that sends nothing, and one whose five bytes have arrived at the second read.\<close>

definition idle_client_os :: os where
  "idle_client_os = quiet_os\<lparr> os_read_tcp := \<lambda>h s. Inl would_block \<rparr>"

definition writing_client_os :: os where
  "writing_client_os = quiet_os\<lparr> os_read_tcp := \<lambda>h s. if h = [] then Inl would_block else Inr 5 \<rparr>"

definition ignores_idle_tcp_client :: bool where
  "ignores_idle_tcp_client = (fst (read_tcp_knock idle_client_os 1 16 (\<lparr> hist = [] \<rparr> :: world)) = Inr None)"

text \<open>The retries until the deadline, at most \<open>n\<close> of them.\<close>

fun read_until :: "os \<Rightarrow> nat \<Rightarrow> (world, usize option) io" where
  "read_until os 0 = ret None"
| "read_until os (Suc n) = bind_io (read_tcp_knock os 1 16) (\<lambda>r. if r \<noteq> None then ret r else read_until os n)"

definition reads_tcp_payload :: "nat \<Rightarrow> bool" where
  "reads_tcp_payload retries = (fst (read_until writing_client_os retries \<lparr> hist = [] \<rparr>) = Inr (Some 5))"

lemma server_tests_pass: ignores_idle_tcp_client "reads_tcp_payload (Suc (Suc n))"
  by (simp_all add: ignores_idle_tcp_client_def reads_tcp_payload_def read_tcp_knock_def call_def bind_io_def ret_def
      idle_client_os_def writing_client_os_def quiet_os_def would_block_def delivered_def)

end
