(* ===== verification/Spec2Isabelle.thy ===== *)
theory Spec2Isabelle
  imports LimiterSize Sockets AuditSpec Telemetry BanSpec PollLive ConformanceUpdater IntegrationTests
begin

text \<open>
  sshknockd, a port knocking daemon for SSH (Rust, \<open>src/\<close>), with its firewall commands and its
  self-updater.

  The program. A source sends the configured sequence of TCP, UDP or ICMP packets; the daemon
  then adds its address to an ipset that an iptables rule accepts on the SSH port. Sources with
  too many invalid packets are put into a second ipset, whose rule drops them. The parts:
  \<^item> \<open>src/config.rs\<close>: the configuration file and its validation;
  \<^item> \<open>src/knock.rs\<close>: the state machine over the partial knocks of all sources;
  \<^item> \<open>src/rate_limit.rs\<close>: token buckets per key;
  \<^item> \<open>src/firewall.rs\<close>: the ipset and iptables command lines, set-up and preflight check;
  \<^item> \<open>src/logger.rs\<close>: the audit log;
  \<^item> \<open>src/server.rs\<close>: the handling of one packet, the ban table, the listeners and the poll loop;
  \<^item> \<open>src/bin/sshknockd.rs\<close>: the subcommands and the updater.

  The theories, in the order of their imports.
  \<^item> Prelude: machine words with saturating arithmetic, failures (\<open>Err\<close> for an \<open>anyhow\<close> error,
    \<open>Panic\<close> for a panic), \<open>Instant\<close> and \<open>Duration\<close> in nanoseconds with their overflow.
  \<^item> HashMap: \<open>std::collections::HashMap\<close> as an association list with distinct keys; the laws of
    its operations are the locale \<open>hash_map\<close>, interpreted on them.
  \<^item> Text, Net: the parts of \<open>str\<close>, \<open>String\<close>, UTF-8 and \<open>IpAddr\<close> that the sources use.
  \<^item> Effects: the calls to the outside. A record of functions answers every call from the transcript
    of all earlier calls, so a theorem for all such records holds for any behaviour of the network,
    the commands, the file system and the clock. Every call and its answer is appended to
    the transcript.
  \<^item> Config, Logger, Knock, RateLimit, Firewall, Server, Poll, Updater, Daemon: the definitions
    that model the source files, one per function, in the order of the code. \<open>Server::run\<close> is
    split into start-up, listeners, the four phases of a round and the endless loop (Poll).
  \<^item> KnockSpec, NetSpec, FirewallSpec, ServerSpec, ServerRuns, Knocking, ServerLive, ServerBan,
    PollSpec, PollLive, DaemonSpec, UpdaterSpec, UpdaterRuns: the specifications and proofs.
  \<^item> Invariants: the locale \<open>server_invariant\<close>, which lifts what one packet and the calls around it
    keep to every run of the daemon; AuditSpec, Telemetry and BanSpec interpret it. Sockets: the order of
    the network calls.
  \<^item> Conformance, ConformanceTelemetry, ConformanceUpdater: the inline tests of the sources,
    translated and shown to pass; IntegrationTests: those under \<open>tests/\<close>.

  What is shown.
  \<^item> Configuration: \<open>validate\<close> accepts exactly the declarative notion of a valid configuration, and
    only valid configurations are loaded.
  \<^item> Tracker: it refines an automaton that sees a single source; an accepted source has
    knocked the whole sequence in time (soundness), a source that does so is accepted
    (completeness), sources do not influence one another, and the table is bounded.
  \<^item> Rate limiter: it refines one bucket per key, with bounds on what is granted; it tracks exactly
    the keys of the last two intervals, without a limit on their number (LimiterSize).
  \<^item> Firewall: the order of the commands, what set-up makes of the INPUT chain of a kernel that
    answers checks as documented, and the verdict of that chain on every packet; the rules that the
    chain had before stand in front of the drop rule and can keep the port open, against the
    README (\<open>earlier_accept_rule_wins\<close>). The trait
    \<open>CommandRunner\<close> is the locale \<open>command_runner\<close>, interpreted on the system runner; the lemmas
    about the server hold for every runner (locale \<open>machine_runner\<close>).
  \<^item> Server: the bound on the ban table, bans, the exact limit on invalid packets, the redaction
    of the log, that a knock is followed by the allow command, and that no knock overrides a ban. Commands
    are told apart by their text, because the text of an address determines it (NetSpec).
  \<^item> Poll loop: it runs for ever as long as the log, the allow commands and the sockets work
    (\<open>poll_loop_runs_for_ever\<close>), and one connection that is reset ends it; pending connections are
    bounded and expire; a datagram cannot pass for a shorter one.
  \<^item> Daemon: for the whole program, from the configuration file through any number of rounds, an
    address is allowed only after the packets received from it completed the sequence, and the
    audit line follows at once; sockets are opened only behind a checked firewall and never
    block the loop; no round of the loop overrides a ban; the tables of pending connections,
    partial states and bans are bounded, and so is the telemetry; with an invalid configuration
    nothing is done. Where the commands of the two sets have to be told apart, the theorems assume
    that the sets have different names, which validation does not enforce.
  \<^item> Updater: no package is installed but the selected one with the digest that the signed
    manifest lists under its name, downloads are
    restricted to HTTPS, the staging directory is removed, manifests are read back; the calls of
    an update that succeeds are given exactly.

  Recursion and bounds. All loops but one are total functions: those over lists are structural, the
  accept loop is measured by the free places in the table and the pass over pending connections by
  the connections left. The endless loop of \<open>Server::run\<close> is a partial function whose value \<open>None\<close>
  means running for ever; theorems about it speak of any number of its rounds (\<open>poll_rounds\<close>,
  \<open>server_rounds\<close>), so that no bound on the rounds restricts them. Lemma \<open>poll_loop_rounds\<close>
  says that it ends only when one of its rounds fails.

  Not modelled: how clap splits the command line (\<open>main\<close> starts from the option and the
  subcommand); the TOML and JSON parsers, SHA-256 and
  Ed25519, which are third-party code and parameters of the definitions that use them; the debug
  rendering of characters outside ASCII, a parameter too; the order in which \<open>HashMap\<close> iterates,
  which no result depends on; the hypotheses on time say that the clock is monotonic, as
  \<open>Instant\<close> documents. The result of a command on the kernel is a hypothesis only where a theorem
  speaks of the INPUT chain. Memory exhaustion is modelled for the two receive buffers only.
\<close>

end
